(* ===== verification/Prelude.thy ===== *)
theory Prelude
  imports Main "HOL-Library.Finite_Map" "HOL-Library.List_Lexorder" "HOL-Library.Char_ord"
    "HOL-Library.Multiset"
begin

text \<open>
  Shared vocabulary of the development: Go strings are byte sequences (\<open>string\<close>, a list of
  8-bit \<open>char\<close>s), Go maps with string keys are finite maps (\<open>gomap\<close>) and Go sets
  (\<open>map[string]struct{}\<close>) are finite sets (\<open>goset\<close>).  The order in which Go's
  \<open>range\<close> visits a map is unspecified; it is a parameter \<open>iter\<close> of the model that permutes
  the (canonically sorted) list of keys.  The named collections gather the simplification rules
  of the components.
\<close>

section \<open>Collections\<close>

named_theorems go_simps \<open>evaluation rules of the Go runtime layer\<close>
named_theorems ds_simps \<open>functional behaviour of the container operations\<close>
named_theorems db_simps \<open>functional behaviour of the logical database\<close>
named_theorems db_inv \<open>preservation of the database invariant\<close>

section \<open>Types\<close>

type_synonym byte_string = string
type_synonym 'v gomap = "(string, 'v) fmap"
type_synonym goset = "string fset"
type_synonym order = "string list \<Rightarrow> string list"

section \<open>Iterating over a map\<close>

text \<open>
  \<open>range_keys iter m\<close> is the sequence of keys a \<open>for k := range m\<close> loop sees, and
  \<open>range_set\<close> the same for a set.  Go visits every key exactly once: \<open>fair iter\<close>.
\<close>

definition fair :: "order \<Rightarrow> bool" where
  "fair iter \<longleftrightarrow> (\<forall>ks. mset (iter ks) = mset ks)"

definition range_set :: "order \<Rightarrow> goset \<Rightarrow> string list" where
  "range_set iter s = iter (sorted_list_of_fset s)"

definition range_keys :: "order \<Rightarrow> 'v gomap \<Rightarrow> string list" where
  "range_keys iter m = range_set iter (fmdom m)"

definition range_map :: "order \<Rightarrow> 'v gomap \<Rightarrow> (string \<times> 'v) list" where
  "range_map iter m = List.map_filter (\<lambda>k. map_option (Pair k) (fmlookup m k)) (range_keys iter m)"

definition maplen :: "'v gomap \<Rightarrow> nat" where
  "maplen m = fcard (fmdom m)"

lemma fair_id [simp]: "fair (\<lambda>ks. ks)"
  by (simp add: fair_def)

lemma fair_rev [simp]: "fair rev"
  by (simp add: fair_def)

lemma fair_mset: "fair iter \<Longrightarrow> mset (iter ks) = mset ks"
  by (simp add: fair_def)

lemma fair_set: "fair iter \<Longrightarrow> set (iter ks) = set ks"
  by (metis fair_mset mset_eq_setD)

lemma fair_length: "fair iter \<Longrightarrow> length (iter ks) = length ks"
  by (metis fair_mset mset_eq_length)

lemma fair_distinct: "fair iter \<Longrightarrow> distinct (iter ks) = distinct ks"
  by (metis fair_mset mset_eq_imp_distinct_iff)

lemma set_range_set [simp]: "fair iter \<Longrightarrow> set (range_set iter s) = fset s"
  by (simp add: range_set_def fair_set)

lemma distinct_range_set [simp]: "fair iter \<Longrightarrow> distinct (range_set iter s)"
  by (simp add: range_set_def fair_distinct sorted_list_of_fset.rep_eq)

lemma length_range_set [simp]: "fair iter \<Longrightarrow> length (range_set iter s) = fcard s"
  by (simp add: range_set_def fair_length fcard.rep_eq sorted_list_of_fset.rep_eq)

lemma set_range_keys [simp]: "fair iter \<Longrightarrow> set (range_keys iter m) = fmdom' m"
  by (simp add: range_keys_def fmdom'_alt_def)

lemma distinct_range_keys [simp]: "fair iter \<Longrightarrow> distinct (range_keys iter m)"
  by (simp add: range_keys_def)

lemma length_range_keys [simp]: "fair iter \<Longrightarrow> length (range_keys iter m) = maplen m"
  by (simp add: range_keys_def maplen_def)

lemma range_set_fset_of_list [simp]: "fair iter \<Longrightarrow> fset_of_list (range_set iter s) = s"
  by (simp add: fset_eq_iff fset_of_list_elem)

section \<open>Finite maps and sets\<close>

lemma fmupd_fmdrop [simp]: "fmupd k v (fmdrop k m) = fmupd k v m"
  by (intro fmap_ext) simp

lemma fmupd_same: "fmlookup m k = Some v \<Longrightarrow> fmupd k v m = m"
  by (intro fmap_ext) auto

lemma fmdrop_absent: "fmlookup m k = None \<Longrightarrow> fmdrop k m = m"
  by (intro fmap_ext) simp

lemma fmdrop_commute_upd: "k \<noteq> k' \<Longrightarrow> fmdrop k (fmupd k' v m) = fmupd k' v (fmdrop k m)"
  by (simp add: fmdrop_fmupd)

lemma maplen_empty [simp]: "maplen fmempty = 0"
  by (simp add: maplen_def)

lemma maplen_zero_iff [simp]: "maplen m = 0 \<longleftrightarrow> m = fmempty"
proof
  assume "maplen m = 0"
  then have "fmdom m = {||}" by (simp add: maplen_def)
  then show "m = fmempty" by (simp add: fmap_ext fmdom_notD)
qed simp

lemma maplen_fmupd:
  "maplen (fmupd k v m) = (if fmlookup m k = None then Suc (maplen m) else maplen m)"
  by (auto simp: maplen_def fmlookup_dom_iff fcard_finsert_if)

lemma maplen_fmdrop:
  "maplen (fmdrop k m) = (if fmlookup m k = None then maplen m else maplen m - 1)"
  by (auto simp: maplen_def fmlookup_dom_iff fcard_fminus_fsingleton fmdrop_absent
      dest: fmdom_notI)

section \<open>Ranging over key/value pairs\<close>

lemma map_filter_all_Some:
  "(\<And>x. x \<in> set xs \<Longrightarrow> f x = Some (g x)) \<Longrightarrow> List.map_filter f xs = map g xs"
  by (induction xs) (simp_all add: List.map_filter_simps)

lemma range_map_conv:
  "fair iter \<Longrightarrow> range_map iter m = map (\<lambda>k. (k, the (fmlookup m k))) (range_keys iter m)"
  unfolding range_map_def by (rule map_filter_all_Some) (auto simp: fmlookup_dom'_iff)

lemma range_map_keys: "fair iter \<Longrightarrow> map fst (range_map iter m) = range_keys iter m"
  by (simp add: range_map_conv o_def)

lemma range_map_distinct: "fair iter \<Longrightarrow> distinct (map fst (range_map iter m))"
  by (simp add: range_map_keys)

lemma length_range_map [simp]: "fair iter \<Longrightarrow> length (range_map iter m) = maplen m"
  by (simp add: range_map_conv)

lemma set_range_map: "fair iter \<Longrightarrow> (k, v) \<in> set (range_map iter m) \<longleftrightarrow> fmlookup m k = Some v"
  by (auto simp: range_map_conv fmlookup_dom'_iff image_iff)

lemma map_of_range_map: "fair iter \<Longrightarrow> map_of (range_map iter m) = fmlookup m"
proof (rule ext)
  fix k
  assume fair: "fair iter"
  show "map_of (range_map iter m) k = fmlookup m k"
  proof (cases "fmlookup m k")
    case None
    then have "k \<notin> set (map fst (range_map iter m))"
      using fair by (simp add: range_map_keys fmlookup_dom'_iff del: set_map)
    then show ?thesis using None by (simp add: map_of_eq_None_iff)
  next
    case (Some v)
    then show ?thesis using fair by (simp add: range_map_distinct set_range_map)
  qed
qed

lemma fmlookup_fold_fmupd:
  "distinct (map fst ps) \<Longrightarrow>
   fmlookup (fold (\<lambda>(k, v) h. fmupd k v h) ps h) k =
     (case map_of ps k of Some v \<Rightarrow> Some v | None \<Rightarrow> fmlookup h k)"
proof (induction ps arbitrary: h)
  case (Cons p ps)
  then show ?case
    by (cases p) (auto split: option.splits dest: map_of_SomeD simp: rev_image_eqI)
qed simp

lemma fold_fmupd_range_map:
  "fair iter \<Longrightarrow> fold (\<lambda>(k, v) h. fmupd k v h) (range_map iter m) h = h ++\<^sub>f m"
  by (rule fmap_ext)
    (auto simp: fmlookup_fold_fmupd range_map_distinct map_of_range_map fmlookup_dom_iff
      split: option.splits)

text \<open>Merging the entries of a map into one that has none of their keys just adds them.\<close>

lemma fold_merge_fresh:
  assumes "\<And>c. g None c = c" and "distinct (map fst ps)" and "\<And>k. k \<in> set (map fst ps) \<Longrightarrow> fmlookup m k = None"
  shows "fold (\<lambda>(k, c) m. fmupd k (g (fmlookup m k) c) m) ps m = fold (\<lambda>(k, c) m. fmupd k c m) ps m"
  using assms(2,3)
proof (induction ps arbitrary: m)
  case (Cons p ps)
  obtain k c where p: "p = (k, c)" by (cases p)
  have "fmlookup (fmupd k c m) k' = None" if "k' \<in> set (map fst ps)" for k'
    using Cons.prems that p by auto
  with Cons.IH [of "fmupd k c m"] Cons.prems assms(1) show ?case by (simp add: p)
qed simp

lemma fold_merge_range_map:
  assumes "\<And>c. g None c = c" and "fair iter"
  shows "fold (\<lambda>(k, c) m. fmupd k (g (fmlookup m k) c) m) (range_map iter m') fmempty = m'"
  using fold_merge_fresh [of g "range_map iter m'" fmempty] assms
  by (simp add: range_map_distinct fold_fmupd_range_map)

end
