(* ===== verification/GoNum.thy ===== *)
theory GoNum
  imports Prelude "HOL-Library.Word"
begin

text \<open>
  Go's 64-bit \<open>int\<close> and the conversions of \<open>strconv\<close> the program uses.  An \<open>int\<close> value
  is an HOL integer in the range of \<open>int64\<close>; arithmetic that can overflow is followed by
  \<open>wrap64\<close>, two's-complement wrap-around.  \<open>Atoi\<close> accepts an optional sign and a non-empty
  string of decimal digits whose value fits in 64 bits, and otherwise returns one of
  \<open>strconv\<close>'s two errors; \<open>Itoa\<close> prints in decimal.
\<close>

section \<open>64-bit integers\<close>

definition int64 :: "int \<Rightarrow> bool" where
  "int64 n \<longleftrightarrow> - (2 ^ 63) \<le> n \<and> n < 2 ^ 63"

definition wrap64 :: "int \<Rightarrow> int" where
  "wrap64 n = (n + 2 ^ 63) mod 2 ^ 64 - 2 ^ 63"

definition min_int :: int where
  "min_int = - (2 ^ 63)"

definition max_int :: int where
  "max_int = 2 ^ 63 - 1"

lemma int64_wrap64 [simp]: "int64 (wrap64 n)"
  by (auto simp: int64_def wrap64_def)

lemma wrap64_id: "int64 n \<Longrightarrow> wrap64 n = n"
  by (auto simp: int64_def wrap64_def)

lemma int64_iff_wrap64: "int64 n \<longleftrightarrow> wrap64 n = n"
  by (metis int64_wrap64 wrap64_id)

lemma wrap64_mod: "wrap64 a = wrap64 b \<longleftrightarrow> a mod 2 ^ 64 = b mod 2 ^ 64"
  unfolding wrap64_def using mod_add_cong [of a "2 ^ 64" b "2 ^ 63" "2 ^ 63"]
    mod_diff_cong [of "a + 2 ^ 63" "2 ^ 64" "b + 2 ^ 63" "2 ^ 63" "2 ^ 63"] by auto

lemma wrap64_wrap64 [simp]: "wrap64 (wrap64 n) = wrap64 n"
  by (simp add: wrap64_id)

lemma wrap64_congruent: "wrap64 n mod 2 ^ 64 = n mod 2 ^ 64"
  using wrap64_mod [of "wrap64 n" n] by simp

lemma wrap64_add_left: "wrap64 (wrap64 a + b) = wrap64 (a + b)"
  by (metis mod_add_left_eq wrap64_congruent wrap64_mod)

lemma wrap64_mult_left: "wrap64 (wrap64 a * b) = wrap64 (a * b)"
  by (metis mod_mult_left_eq wrap64_congruent wrap64_mod)

lemma wrap64_uminus: "wrap64 (- wrap64 a) = wrap64 (- a)"
  unfolding wrap64_mod by (metis mod_minus_eq wrap64_congruent)

lemma wrap64_horner: "wrap64 (wrap64 a * 10 + d) = wrap64 (a * 10 + d)"
  by (metis wrap64_add_left wrap64_mult_left)

text \<open>\<open>wrap64\<close> is the signed value of the 64-bit machine word.\<close>

lemma wrap64_word: "wrap64 n = sint (word_of_int n :: 64 word)"
  by (simp add: wrap64_def signed_of_int signed_take_bit_eq_take_bit_shift take_bit_eq_mod)

section \<open>Decimal digits\<close>

definition is_digit :: "char \<Rightarrow> bool" where
  "is_digit c \<longleftrightarrow> CHR ''0'' \<le> c \<and> c \<le> CHR ''9''"

definition digit_val :: "char \<Rightarrow> int" where
  "digit_val c = int (of_char c) - 48"

definition digit_char :: "nat \<Rightarrow> char" where
  "digit_char d = char_of (48 + d)"

definition dec_val :: "int \<Rightarrow> string \<Rightarrow> int" where
  "dec_val = foldl (\<lambda>acc c. acc * 10 + digit_val c)"

lemma is_digit_iff: "is_digit c \<longleftrightarrow> (48 :: nat) \<le> of_char c \<and> of_char c \<le> (57 :: nat)"
  by (simp add: is_digit_def less_eq_char_def)

lemma of_digit_char: "d < 10 \<Longrightarrow> of_char (digit_char d) = (48 + d :: nat)"
  by (simp add: digit_char_def)

lemma is_digit_digit_char [simp]: "d < 10 \<Longrightarrow> is_digit (digit_char d)"
  by (simp add: is_digit_iff of_digit_char)

lemma digit_val_digit_char [simp]: "d < 10 \<Longrightarrow> digit_val (digit_char d) = int d"
  by (simp add: digit_val_def of_digit_char)

lemma dec_val_simps [simp]:
  "dec_val a [] = a"
  "dec_val a (c # cs) = dec_val (a * 10 + digit_val c) cs"
  "dec_val a (cs @ ds) = dec_val (dec_val a cs) ds"
  by (simp_all add: dec_val_def)

section \<open>strconv.Itoa\<close>

fun itoa_digits :: "nat \<Rightarrow> string" where
  "itoa_digits n =
     (if n < 10 then [digit_char n] else itoa_digits (n div 10) @ [digit_char (n mod 10)])"

declare itoa_digits.simps [simp del]

definition Itoa :: "int \<Rightarrow> string" where
  "Itoa n = (if n < 0 then CHR ''-'' # itoa_digits (nat (- n)) else itoa_digits (nat n))"

lemma itoa_digits_digits: "list_all is_digit (itoa_digits n)"
proof (induction n rule: itoa_digits.induct)
  case (1 n)
  then show ?case by (subst itoa_digits.simps) simp
qed

lemma itoa_digits_not_Nil [simp]: "itoa_digits n \<noteq> []"
  by (subst itoa_digits.simps) simp

lemma dec_val_itoa_digits: "dec_val 0 (itoa_digits n) = int n"
proof (induction n rule: itoa_digits.induct)
  case (1 n)
  then show ?case by (subst itoa_digits.simps) (simp add: zmod_int zdiv_int)
qed

section \<open>strconv.Atoi\<close>

datatype num_error = ErrSyntax | ErrRange

definition split_sign :: "string \<Rightarrow> bool \<times> string" where
  "split_sign s =
     (case s of [] \<Rightarrow> (False, [])
      | c # r \<Rightarrow> if c = CHR ''-'' then (True, r) else if c = CHR ''+'' then (False, r) else (False, s))"

definition Atoi :: "string \<Rightarrow> num_error + int" where
  "Atoi s =
     (case split_sign s of (neg, ds) \<Rightarrow>
        if ds = [] \<or> \<not> list_all is_digit ds then Inl ErrSyntax
        else let v = dec_val 0 ds; n = (if neg then - v else v)
             in if int64 n then Inr n else Inl ErrRange)"

lemma Atoi_int64: "Atoi s = Inr n \<Longrightarrow> int64 n"
  by (auto simp: Atoi_def Let_def split: prod.splits if_splits)

lemma sign_not_digit: "is_digit c \<Longrightarrow> c \<noteq> CHR ''-'' \<and> c \<noteq> CHR ''+''"
  by (auto simp: is_digit_def less_eq_char_def)

lemma split_sign_digits: "list_all is_digit s \<Longrightarrow> split_sign s = (False, s)"
  by (auto simp: split_sign_def split: list.splits dest: sign_not_digit)

lemma split_sign_minus [simp]: "split_sign (CHR ''-'' # s) = (True, s)"
  by (simp add: split_sign_def)

lemma Atoi_Itoa [simp]: "int64 n \<Longrightarrow> Atoi (Itoa n) = Inr n"
  by (simp add: Atoi_def Itoa_def split_sign_digits itoa_digits_digits dec_val_itoa_digits)

lemma Atoi_Nil [simp]: "Atoi [] = Inl ErrSyntax"
  by (simp add: Atoi_def split_sign_def)

lemma Itoa_inject: "int64 m \<Longrightarrow> int64 n \<Longrightarrow> Itoa m = Itoa n \<longleftrightarrow> m = n"
  by (metis Atoi_Itoa sum.inject(2))

text \<open>The characters \<open>Itoa\<close> prints: digits and a leading minus sign, never a line break.\<close>

lemma set_Itoa: "c \<in> set (Itoa n) \<Longrightarrow> c = CHR ''-'' \<or> is_digit c"
  using itoa_digits_digits by (auto simp: Itoa_def list_all_iff split: if_splits)

lemma newline_notin_Itoa [simp]: "CHR 0x0A \<notin> set (Itoa n)"
  by (auto simp: is_digit_def less_eq_char_def dest!: set_Itoa)

text \<open>
  The value \<open>Atoi\<close> hands back together with an error, which \<open>parseLine\<close> of the configuration
  reader uses when it ignores the error: zero for a syntax error, the nearest bound for a value
  out of range.
\<close>

definition Atoi_value :: "string \<Rightarrow> int" where
  "Atoi_value s =
     (case Atoi s of Inr n \<Rightarrow> n
      | Inl ErrSyntax \<Rightarrow> 0
      | Inl ErrRange \<Rightarrow> if fst (split_sign s) then min_int else max_int)"

lemma int64_Atoi_value: "int64 (Atoi_value s)"
  by (auto simp: Atoi_value_def min_int_def max_int_def int64_def split: sum.splits num_error.splits
      dest: Atoi_int64 [unfolded int64_def])

end
