(* ===== verification/ListType.thy ===== *)
theory ListType
  imports GoNum
begin

text \<open>
  \<open>datastruct.List\<close> (pkg/datastruct/datastruct.go).  The struct's \<open>items\<close> slice is an HOL
  list; its mutex makes every method atomic, so a method is a function from the items to the new
  items and the Go results (\<open>(string, bool)\<close> is \<open>string option\<close>).  Index arithmetic such as
  \<open>length + start\<close> adds a slice length to a negative 64-bit value and cannot overflow; the one
  place where it can, \<open>count = -count\<close> in \<open>LRem\<close>, wraps.
\<close>

section \<open>Operations\<close>

type_synonym List = "string list"

definition NewList :: List where
  "NewList = []"

fun lpush_loop :: "string list \<Rightarrow> List \<Rightarrow> List" where
  "lpush_loop [] l = l"
| "lpush_loop (v # vs) l = lpush_loop vs ([v] @ l)"

definition LPush :: "string list \<Rightarrow> List \<Rightarrow> List \<times> int" where
  "LPush vs l = (let l' = lpush_loop vs l in (l', int (length l')))"

definition RPush :: "string list \<Rightarrow> List \<Rightarrow> List \<times> int" where
  "RPush vs l = (let l' = l @ vs in (l', int (length l')))"

definition LPop :: "List \<Rightarrow> List \<times> string option" where
  "LPop l = (if length l = 0 then (l, None) else (drop 1 l, Some (l ! 0)))"

definition RPop :: "List \<Rightarrow> List \<times> string option" where
  "RPop l = (if length l = 0 then (l, None)
             else (take (length l - 1) l, Some (l ! (length l - 1))))"

definition LRange :: "int \<Rightarrow> int \<Rightarrow> List \<Rightarrow> string list" where
  "LRange start stop l =
     (let len = int (length l) in
      if len = 0 then []
      else
        let start = (if start < 0 then len + start else start);
            stop = (if stop < 0 then len + stop else stop);
            start = (if start < 0 then 0 else start);
            stop = (if stop \<ge> len then len - 1 else stop)
        in if start > stop \<or> start \<ge> len then []
           else take (nat (stop - start + 1)) (drop (nat start) l))"

definition LLen :: "List \<Rightarrow> int" where
  "LLen l = int (length l)"

definition LIndex :: "int \<Rightarrow> List \<Rightarrow> string option" where
  "LIndex index l =
     (let len = int (length l); index = (if index < 0 then len + index else index)
      in if index < 0 \<or> index \<ge> len then None else Some (l ! nat index))"

definition LSet :: "int \<Rightarrow> string \<Rightarrow> List \<Rightarrow> List \<times> bool" where
  "LSet index value l =
     (let len = int (length l); index = (if index < 0 then len + index else index)
      in if index < 0 \<or> index \<ge> len then (l, False) else (l[nat index := value], True))"

fun lrem_all :: "string \<Rightarrow> string list \<Rightarrow> List \<Rightarrow> int \<Rightarrow> List \<times> int" where
  "lrem_all value [] acc removed = (acc, removed)"
| "lrem_all value (x # xs) acc removed =
     (if x \<noteq> value then lrem_all value xs (acc @ [x]) removed
      else lrem_all value xs acc (removed + 1))"

fun lrem_head :: "int \<Rightarrow> string \<Rightarrow> string list \<Rightarrow> List \<Rightarrow> int \<Rightarrow> List \<times> int" where
  "lrem_head cnt value [] acc removed = (acc, removed)"
| "lrem_head cnt value (x # xs) acc removed =
     (if x = value \<and> removed < cnt then lrem_head cnt value xs acc (removed + 1)
      else lrem_head cnt value xs (acc @ [x]) removed)"

text \<open>The tail-to-head loop visits \<open>items[len-1], ..., items[0]\<close> and prepends what it keeps.\<close>

fun lrem_tail :: "int \<Rightarrow> string \<Rightarrow> string list \<Rightarrow> List \<Rightarrow> int \<Rightarrow> List \<times> int" where
  "lrem_tail cnt value [] acc removed = (acc, removed)"
| "lrem_tail cnt value (x # xs) acc removed =
     (if x = value \<and> removed < cnt then lrem_tail cnt value xs acc (removed + 1)
      else lrem_tail cnt value xs ([x] @ acc) removed)"

definition LRem :: "int \<Rightarrow> string \<Rightarrow> List \<Rightarrow> List \<times> int" where
  "LRem cnt value l =
     (if cnt = 0 then lrem_all value l [] 0
      else if cnt > 0 then lrem_head cnt value l [] 0
      else lrem_tail (wrap64 (- cnt)) value (rev l) [] 0)"

section \<open>The two ends of a list\<close>

text \<open>
  What the clients of a list rely on at one end: pushing stacks the values up one by one on the
  end that \<open>view\<close> reads first, popping takes the first value of the view, and both say what
  they did in their result.  \<open>LPush\<close>/\<open>LPop\<close> and \<open>RPush\<close>/\<open>RPop\<close> are its two providers.
\<close>

locale list_end =
  fixes push :: "string list \<Rightarrow> List \<Rightarrow> List \<times> int"
    and pop :: "List \<Rightarrow> List \<times> string option"
    and view :: "List \<Rightarrow> string list"
  assumes view_push: "view (fst (push vs l)) = rev vs @ view l"
    and push_length: "snd (push vs l) = int (length l + length vs)"
    and view_pop: "view (fst (pop l)) = tl (view l)"
    and pop_result: "snd (pop l) = (if view l = [] then None else Some (hd (view l)))"
    and view_inject: "view l = view l' \<longleftrightarrow> l = l'"
    and view_mset: "mset (view l) = mset l"
begin

lemma length_view: "length (view l) = length l"
  by (metis size_mset view_mset)

lemma view_Nil_iff: "view l = [] \<longleftrightarrow> l = []"
  by (metis length_0_conv length_view)

lemma length_push: "length (fst (push vs l)) = length l + length vs"
proof -
  have "length (view (fst (push vs l))) = length (rev vs @ view l)" by (simp only: view_push)
  then show ?thesis by (simp add: length_view)
qed

lemma push_Nil_iff: "fst (push vs l) = [] \<longleftrightarrow> l = [] \<and> vs = []"
  using length_push [of vs l] by fastforce

lemma pop_None_iff: "snd (pop l) = None \<longleftrightarrow> l = []"
  by (simp add: pop_result view_Nil_iff)

lemma pop_Nil: "pop [] = ([], None)"
proof -
  have "view [] = []" by (simp add: view_Nil_iff)
  then have "view (fst (pop [])) = view []" by (simp add: view_pop)
  then show ?thesis by (simp add: view_inject pop_result view_Nil_iff prod_eq_iff)
qed

lemma pop_push: "pop (fst (push (vs @ [v]) l)) = (fst (push vs l), Some v)"
proof -
  have "view (fst (pop (fst (push (vs @ [v]) l)))) = view (fst (push vs l))"
    by (simp add: view_pop view_push)
  then have "fst (pop (fst (push (vs @ [v]) l))) = fst (push vs l)"
    by (simp add: view_inject)
  then show ?thesis by (simp add: prod_eq_iff pop_result view_push)
qed

lemma pop_length: "length (fst (pop l)) = length l - 1"
  by (metis length_tl length_view view_pop)

lemma pop_mset: "snd (pop l) = Some v \<Longrightarrow> mset l = add_mset v (mset (fst (pop l)))"
proof -
  assume "snd (pop l) = Some v"
  then have "view l = v # view (fst (pop l))"
    by (auto simp: pop_result view_pop split: if_splits)
  then show ?thesis by (metis mset.simps(2) view_mset)
qed

end

lemma lpush_loop_eq [simp]: "lpush_loop vs l = rev vs @ l"
  by (induction vs arbitrary: l) auto

interpretation left: list_end LPush LPop "\<lambda>l. l"
  by unfold_locales (auto simp: LPush_def LPop_def Let_def drop_Suc hd_conv_nth)

interpretation right: list_end RPush RPop rev
  by unfold_locales
    (auto simp: RPush_def RPop_def Let_def butlast_conv_take hd_rev last_conv_nth
      butlast_rev [symmetric] rev_swap)

section \<open>Functional behaviour\<close>

text \<open>Redis' reading of an index: negative values count from the end.\<close>

definition norm_index :: "int \<Rightarrow> List \<Rightarrow> int" where
  "norm_index i l = (if i < 0 then int (length l) + i else i)"

text \<open>\<open>LRange\<close> returns exactly the elements whose position lies between the two bounds.\<close>

definition range_spec :: "int \<Rightarrow> int \<Rightarrow> List \<Rightarrow> string list" where
  "range_spec start stop l =
     map ((!) l) (filter (\<lambda>i. norm_index start l \<le> int i \<and> int i \<le> norm_index stop l) [0..<length l])"

lemma filter_interval_upt:
  "filter (\<lambda>i. a \<le> int i \<and> int i \<le> b) [0..<n] = [nat a..<min n (nat (b + 1))]"
proof (induction n)
  case 0
  then show ?case by simp
next
  case (Suc n)
  show ?case
  proof (cases "a \<le> int n \<and> int n \<le> b")
    case True
    then have "nat a \<le> n" "n < nat (b + 1)" by auto
    with True Suc show ?thesis by (simp add: min_def)
  next
    case False
    then consider "int n < a" | "b < int n" by linarith
    then show ?thesis
    proof cases
      case 1
      then have "Suc n \<le> nat a" by linarith
      with False Suc show ?thesis by (simp add: min_def)
    next
      case 2
      then have "nat (b + 1) \<le> n" by linarith
      with False Suc show ?thesis by (simp add: min_def)
    qed
  qed
qed

lemma map_nth_upt_take_drop: "j \<le> length l \<Longrightarrow> map ((!) l) [i..<j] = take (j - i) (drop i l)"
  by (rule nth_equalityI) auto

lemma LRange_eq_spec: "LRange start stop l = range_spec start stop l"
proof -
  define a where "a = norm_index start l"
  define b where "b = norm_index stop l"
  have spec: "range_spec start stop l = take (min (length l) (nat (b + 1)) - nat a) (drop (nat a) l)"
    unfolding range_spec_def a_def [symmetric] b_def [symmetric] filter_interval_upt
    by (rule map_nth_upt_take_drop) simp
  show ?thesis
    unfolding spec LRange_def Let_def norm_index_def [symmetric] a_def [symmetric] b_def [symmetric]
    by (auto simp: min_def nat_add_distrib nat_diff_distrib intro!: arg_cong2 [where f = take])
qed

lemma LIndex_eq: "LIndex i l = (let j = norm_index i l in if 0 \<le> j \<and> j < LLen l then Some (l ! nat j) else None)"
  by (auto simp: LIndex_def norm_index_def LLen_def Let_def)

lemma LSet_LIndex:
  "snd (LSet i v l) \<Longrightarrow> LIndex i (fst (LSet i v l)) = Some v"
  by (auto simp: LSet_def LIndex_def Let_def split: if_splits)

lemma LSet_other:
  "norm_index j l \<noteq> norm_index i l \<Longrightarrow> LIndex j (fst (LSet i v l)) = LIndex j l"
  by (auto simp: LSet_def LIndex_def norm_index_def Let_def nth_list_update nat_eq_iff2)

lemma length_LSet [simp]: "length (fst (LSet i v l)) = length l"
  by (simp add: LSet_def Let_def)

text \<open>
  \<open>LRem\<close> against its documentation: \<open>remove_first n v\<close> drops the first \<open>n\<close> occurrences of \<open>v\<close>.
\<close>

fun remove_first :: "nat \<Rightarrow> string \<Rightarrow> string list \<Rightarrow> string list" where
  "remove_first n v [] = []"
| "remove_first 0 v xs = xs"
| "remove_first (Suc n) v (x # xs) = (if x = v then remove_first n v xs else x # remove_first (Suc n) v xs)"

lemma remove_first_0 [simp]: "remove_first 0 v xs = xs"
  by (cases xs) auto

lemma length_remove_first: "length (remove_first n v xs) = length xs - min n (count_list xs v)"
proof (induction n v xs rule: remove_first.induct)
  case (3 n v x xs)
  then show ?case using count_le_length [of xs v] by (auto simp: min_def Suc_diff_le)
qed auto

lemma remove_first_all: "count_list xs v \<le> n \<Longrightarrow> remove_first n v xs = filter (\<lambda>x. x \<noteq> v) xs"
  by (induction n v xs rule: remove_first.induct) (auto simp: count_list_0_iff intro!: filter_True [symmetric])

lemma lrem_all_eq: "lrem_all v xs acc r = (acc @ filter (\<lambda>x. x \<noteq> v) xs, r + int (count_list xs v))"
  by (induction v xs acc r rule: lrem_all.induct) auto

lemma lrem_head_eq:
  "lrem_head c v xs acc r =
     (acc @ remove_first (nat (c - r)) v xs, r + int (min (nat (c - r)) (count_list xs v)))"
proof (induction c v xs acc r rule: lrem_head.induct)
  case (2 c v x xs acc r)
  show ?case
  proof (cases "r < c")
    case True
    then have "nat (c - r) = Suc (nat (c - (r + 1)))" by linarith
    then show ?thesis using 2 True by (auto simp: min_def)
  next
    case False
    then show ?thesis using 2 by (simp add: min_def)
  qed
qed simp

lemma lrem_tail_eq:
  "lrem_tail c v xs acc r =
     (rev (remove_first (nat (c - r)) v xs) @ acc, r + int (min (nat (c - r)) (count_list xs v)))"
proof (induction c v xs acc r rule: lrem_tail.induct)
  case (2 c v x xs acc r)
  show ?case
  proof (cases "r < c")
    case True
    then have "nat (c - r) = Suc (nat (c - (r + 1)))" by linarith
    then show ?thesis using 2 True by (auto simp: min_def)
  next
    case False
    then show ?thesis using 2 by (simp add: min_def)
  qed
qed simp

lemma LRem_zero: "LRem 0 v l = (filter (\<lambda>x. x \<noteq> v) l, int (count_list l v))"
  by (simp add: LRem_def lrem_all_eq)

lemma LRem_pos:
  "0 < c \<Longrightarrow> LRem c v l = (remove_first (nat c) v l, int (min (nat c) (count_list l v)))"
  by (simp add: LRem_def lrem_head_eq)

lemma LRem_neg:
  "c < 0 \<Longrightarrow> int64 c \<Longrightarrow> c \<noteq> min_int \<Longrightarrow>
   LRem c v l = (rev (remove_first (nat (- c)) v (rev l)), int (min (nat (- c)) (count_list l v)))"
  by (simp add: LRem_def lrem_tail_eq wrap64_id int64_def min_int_def)

lemma LRem_min_int: "LRem min_int v l = (l, 0)"
  by (simp add: LRem_def lrem_tail_eq min_int_def wrap64_def)

lemma LRem_length: "snd (LRem c v l) = int (length l) - int (length (fst (LRem c v l)))"
proof -
  have le: "min n (count_list xs v) \<le> length xs" for n and xs :: "string list"
    using count_le_length [of xs v] by linarith
  have "int (length l) - int (length (filter (\<lambda>x. x \<noteq> v) l)) = int (count_list l v)"
    using remove_first_all [of l v "count_list l v"] length_remove_first [of "count_list l v" v l]
      count_le_length [of l v] by simp
  then show ?thesis
    using le by (auto simp: LRem_def lrem_all_eq lrem_head_eq lrem_tail_eq length_remove_first)
qed

section \<open>Properties of the list methods\<close>

text \<open>
  \<open>LRANGE start stop\<close> returns, in order, exactly the elements whose position lies between the two
  bounds, negative bounds counting from the end and bounds beyond the list being clipped.
\<close>

lemma lrange_selects:
  "LRange start stop l =
     map ((!) l) (filter (\<lambda>i. norm_index start l \<le> int i \<and> int i \<le> norm_index stop l) [0..<length l])"
  using LRange_eq_spec unfolding range_spec_def .

text \<open>
  C18.  \<open>LREM count value\<close> removes all occurrences for count zero, the first \<open>count\<close> ones from the head for a
  positive count, the first \<open>-count\<close> ones from the tail for a negative one, reports how many it removed
  and keeps the other elements in order; for the smallest 64-bit count, whose negation overflows, it
  removes nothing.
\<close>

theorem lrem_removes:
  assumes "0 < n" and "n < 2 ^ 63"
  shows "LRem 0 v l = (filter (\<lambda>x. x \<noteq> v) l, int (count_list l v)) \<and>
    LRem (int n) v l = (remove_first n v l, int (min n (count_list l v))) \<and>
    LRem (- int n) v l = (rev (remove_first n v (rev l)), int (min n (count_list l v))) \<and>
    LRem min_int v l = (l, 0)"
proof -
  have "int64 (- int n)" "- int n \<noteq> min_int" using assms by (simp_all add: int64_def min_int_def)
  then have "LRem (- int n) v l = (rev (remove_first n v (rev l)), int (min n (count_list l v)))"
    using LRem_neg [of "- int n" v l] assms(1) by simp
  then show ?thesis using LRem_zero LRem_pos [of "int n" v l] LRem_min_int assms(1) by simp
qed

theorem lrem_removes_witness:
  "LRem (-1) ''a'' [''a'', ''b'', ''a''] = ([''a'', ''b''], 1)"
  using lrem_removes [of 1 "''a''" "[''a'', ''b'', ''a'']"] by simp

text \<open>
  \<open>LSET\<close> and \<open>LINDEX\<close>: a successful \<open>LSET\<close> is what \<open>LINDEX\<close> at the same index reads, every
  other position keeps its element and the length stays; it fails, changing nothing, exactly when
  the index is outside the list.
\<close>

lemma lset_then_lindex:
  "(if 0 \<le> norm_index i l \<and> norm_index i l < LLen l
    then snd (LSet i v l) \<and> LIndex i (fst (LSet i v l)) = Some v
    else LSet i v l = (l, False) \<and> LIndex i l = None) \<and>
   (norm_index j l = norm_index i l \<or> LIndex j (fst (LSet i v l)) = LIndex j l) \<and>
   LLen (fst (LSet i v l)) = LLen l"
proof (intro conjI)
  show "if 0 \<le> norm_index i l \<and> norm_index i l < LLen l
    then snd (LSet i v l) \<and> LIndex i (fst (LSet i v l)) = Some v
    else LSet i v l = (l, False) \<and> LIndex i l = None"
    by (auto simp: LSet_def LIndex_def norm_index_def LLen_def Let_def)
  show "norm_index j l = norm_index i l \<or> LIndex j (fst (LSet i v l)) = LIndex j l"
    using LSet_other by blast
  show "LLen (fst (LSet i v l)) = LLen l" by (simp add: LLen_def)
qed

end
