(* ===== verification/SetType.thy ===== *)
theory SetType
  imports Prelude
begin

text \<open>
  \<open>datastruct.Set\<close> (pkg/datastruct/datastruct.go).  The \<open>items map[string]struct{}\<close> is a finite
  set; the methods that range over it take the iteration order \<open>iter\<close> of the run.
\<close>

section \<open>Operations\<close>

type_synonym Set = goset

definition NewSet :: Set where
  "NewSet = {||}"

fun sadd_loop :: "string list \<Rightarrow> Set \<Rightarrow> int \<Rightarrow> Set \<times> int" where
  "sadd_loop [] s added = (s, added)"
| "sadd_loop (m # ms) s added =
     (if m |\<notin>| s then sadd_loop ms (finsert m s) (added + 1) else sadd_loop ms s added)"

definition SAdd :: "string list \<Rightarrow> Set \<Rightarrow> Set \<times> int" where
  "SAdd members s = sadd_loop members s 0"

fun srem_loop :: "string list \<Rightarrow> Set \<Rightarrow> int \<Rightarrow> Set \<times> int" where
  "srem_loop [] s removed = (s, removed)"
| "srem_loop (m # ms) s removed =
     (if m |\<in>| s then srem_loop ms (s |-| {|m|}) (removed + 1) else srem_loop ms s removed)"

definition SRem :: "string list \<Rightarrow> Set \<Rightarrow> Set \<times> int" where
  "SRem members s = srem_loop members s 0"

definition SIsMember :: "string \<Rightarrow> Set \<Rightarrow> bool" where
  "SIsMember m s \<longleftrightarrow> m |\<in>| s"

definition SMembers :: "order \<Rightarrow> Set \<Rightarrow> string list" where
  "SMembers iter s = range_set iter s"

definition SCard :: "Set \<Rightarrow> int" where
  "SCard s = int (fcard s)"

definition SPop :: "order \<Rightarrow> Set \<Rightarrow> Set \<times> string option" where
  "SPop iter s =
     (if fcard s = 0 then (s, None)
      else case range_set iter s of [] \<Rightarrow> (s, None) | m # _ \<Rightarrow> (s |-| {|m|}, Some m))"

fun in_all :: "string \<Rightarrow> Set list \<Rightarrow> bool" where
  "in_all m [] = True"
| "in_all m (s # ss) = (if \<not> SIsMember m s then False else in_all m ss)"

fun in_other :: "string \<Rightarrow> Set list \<Rightarrow> bool" where
  "in_other m [] = False"
| "in_other m (s # ss) = (if SIsMember m s then True else in_other m ss)"

definition SInter :: "order \<Rightarrow> Set \<Rightarrow> Set list \<Rightarrow> string list" where
  "SInter iter s others =
     (if others = [] then SMembers iter s
      else filter (\<lambda>m. in_all m others) (range_set iter s))"

definition SUnion :: "order \<Rightarrow> Set \<Rightarrow> Set list \<Rightarrow> string list" where
  "SUnion iter s others =
     (let seen = fold finsert (range_set iter s) {||};
          seen = fold (\<lambda>other seen. fold finsert (SMembers iter other) seen) others seen
      in range_set iter seen)"

definition SDiff :: "order \<Rightarrow> Set \<Rightarrow> Set list \<Rightarrow> string list" where
  "SDiff iter s others = filter (\<lambda>m. \<not> in_other m others) (range_set iter s)"

section \<open>Functional behaviour\<close>

lemma sadd_loop_eq:
  "sadd_loop ms s n = (s |\<union>| fset_of_list ms, n + int (fcard (fset_of_list ms |-| s)))"
proof (induction ms s n rule: sadd_loop.induct)
  case (2 m ms s n)
  show ?case
  proof (cases "m |\<in>| s")
    case True
    then show ?thesis using 2 by (auto simp: finsert_absorb)
  next
    case False
    have eq: "finsert m (fset_of_list ms) |-| s = finsert m (fset_of_list ms |-| finsert m s)"
      using False by auto
    show ?thesis using 2 False by (simp add: eq fcard_finsert_disjoint)
  qed
qed simp

lemma SAdd_eq [ds_simps]:
  "SAdd ms s = (s |\<union>| fset_of_list ms, int (fcard (fset_of_list ms |-| s)))"
  by (simp add: SAdd_def sadd_loop_eq)

lemma srem_loop_eq:
  "srem_loop ms s n = (s |-| fset_of_list ms, n + int (fcard (fset_of_list ms |\<inter>| s)))"
proof (induction ms s n rule: srem_loop.induct)
  case (2 m ms s n)
  show ?case
  proof (cases "m |\<in>| s")
    case True
    have eq: "finsert m (fset_of_list ms) |\<inter>| s = finsert m (fset_of_list ms |\<inter>| (s |-| {|m|}))"
      using True by auto
    have diff: "s |-| {|m|} |-| fset_of_list ms = s |-| finsert m (fset_of_list ms)" by auto
    show ?thesis using 2 True by (simp add: eq diff fcard_finsert_disjoint)
  next
    case False
    then have "s |-| finsert m (fset_of_list ms) = s |-| fset_of_list ms"
      "finsert m (fset_of_list ms) |\<inter>| s = fset_of_list ms |\<inter>| s" by auto
    then show ?thesis using 2 False by simp
  qed
qed simp

lemma SRem_eq [ds_simps]:
  "SRem ms s = (s |-| fset_of_list ms, int (fcard (fset_of_list ms |\<inter>| s)))"
  by (simp add: SRem_def srem_loop_eq)

lemma in_all_iff: "in_all m ss \<longleftrightarrow> (\<forall>s \<in> set ss. m |\<in>| s)"
  by (induction ss) (auto simp: SIsMember_def)

lemma in_other_iff: "in_other m ss \<longleftrightarrow> (\<exists>s \<in> set ss. m |\<in>| s)"
  by (induction ss) (auto simp: SIsMember_def)

lemma fold_finsert: "fold finsert xs s = s |\<union>| fset_of_list xs"
  by (induction xs arbitrary: s) auto

lemma fold_finsert_sets:
  "fset (fold (\<lambda>o' seen. fold finsert (f o') seen) os s) = fset s \<union> (\<Union>x \<in> set os. set (f x))"
  by (induction os arbitrary: s) (auto simp: fold_finsert fset_of_list.rep_eq)

lemma SInter_set:
  "fair iter \<Longrightarrow> set (SInter iter s others) = {m. m |\<in>| s \<and> (\<forall>s' \<in> set others. m |\<in>| s')}"
  by (auto simp: SInter_def SMembers_def in_all_iff)

lemma SUnion_set:
  "fair iter \<Longrightarrow> set (SUnion iter s others) = fset s \<union> (\<Union>s' \<in> set others. fset s')"
  by (simp add: SUnion_def Let_def SMembers_def fold_finsert_sets)
    (simp add: fold_finsert)

lemma SDiff_set:
  "fair iter \<Longrightarrow> set (SDiff iter s others) = fset s - (\<Union>s' \<in> set others. fset s')"
  by (auto simp: SDiff_def in_other_iff)

lemma set_algebra_distinct:
  assumes "fair iter"
  shows "distinct (SInter iter s others)" "distinct (SUnion iter s others)"
    "distinct (SDiff iter s others)"
  using assms by (simp_all add: SInter_def SMembers_def SUnion_def SDiff_def Let_def)

lemma SPop_None_iff: "fair iter \<Longrightarrow> snd (SPop iter s) = None \<longleftrightarrow> s = {||}"
  by (auto simp: SPop_def split: list.splits dest: arg_cong [where f = length])

lemma range_set_ConsD: "range_set iter s = m # ms \<Longrightarrow> fair iter \<Longrightarrow> m |\<in>| s"
  by (metis list.set_intros(1) set_range_set)

lemma SPop_Some:
  "fair iter \<Longrightarrow> snd (SPop iter s) = Some m \<Longrightarrow> m |\<in>| s \<and> fst (SPop iter s) = s |-| {|m|}"
  by (auto simp: SPop_def split: list.splits if_splits dest: range_set_ConsD)

lemma SPop_fst: "fair iter \<Longrightarrow> s = {||} \<Longrightarrow> fst (SPop iter s) = s"
  by (simp add: SPop_def)

section \<open>Properties of the set methods\<close>

text \<open>
  \<open>SADD\<close> makes exactly the given members and the old ones members and reports how many were new;
  \<open>SREM\<close> removes exactly the given ones and reports how many were there, however often a member
  is repeated among the arguments.
\<close>

lemma sadd_srem_count:
  "SAdd ms s = (s |\<union>| fset_of_list ms, int (fcard (fset_of_list ms |-| s))) \<and>
   SRem ms s = (s |-| fset_of_list ms, int (fcard (fset_of_list ms |\<inter>| s))) \<and>
   SCard (fst (SAdd ms s)) = SCard s + snd (SAdd ms s) \<and> SCard (fst (SRem ms s)) = SCard s - snd (SRem ms s)"
proof -
  have "s |\<union>| fset_of_list ms = s |\<union>| (fset_of_list ms |-| s)" "s |\<inter>| (fset_of_list ms |-| s) = {||}" by auto
  then have add: "fcard (s |\<union>| fset_of_list ms) = fcard s + fcard (fset_of_list ms |-| s)"
    by (metis fcard_funion_fsubset fcard_funion_disjoint)
  have split: "s = (s |-| fset_of_list ms) |\<union>| (fset_of_list ms |\<inter>| s)"
    "(s |-| fset_of_list ms) |\<inter>| (fset_of_list ms |\<inter>| s) = {||}" by auto
  then have "fcard s = fcard (s |-| fset_of_list ms) + fcard (fset_of_list ms |\<inter>| s)"
    by (metis fcard_funion_disjoint)
  with add show ?thesis by (simp add: SAdd_eq SRem_eq SCard_def)
qed

end
