(* ===== verification/HashType.thy ===== *)
theory HashType
  imports GoNum
begin

text \<open>
  \<open>datastruct.Hash\<close> (pkg/datastruct/datastruct.go) with the package's own integer conversions
  \<open>parseInt\<close> and \<open>intToString\<close>, whose arithmetic wraps at 64 bits.
\<close>

section \<open>Integer conversions\<close>

datatype IntConversionError = IntConversionError string

fun parseInt_loop :: "string \<Rightarrow> string \<Rightarrow> int \<Rightarrow> IntConversionError + int" where
  "parseInt_loop s [] result = Inr result"
| "parseInt_loop s (c # cs) result =
     (if c < CHR ''0'' \<or> c > CHR ''9'' then Inl (IntConversionError s)
      else parseInt_loop s cs (wrap64 (result * 10 + digit_val c)))"

definition parseInt :: "string \<Rightarrow> IntConversionError + int" where
  "parseInt s =
     (if s = '''' then Inr 0
      else
        let negative = (s ! 0 = CHR ''-'');
            start = (if s ! 0 = CHR ''-'' then 1 else if s ! 0 = CHR ''+'' then 1 else 0)
        in case parseInt_loop s (drop start s) 0 of
             Inl e \<Rightarrow> Inl e
           | Inr result \<Rightarrow> Inr (if negative then wrap64 (- result) else result))"

text \<open>The digit loop of \<open>intToString\<close> produces the least significant digit first.\<close>

function digits_loop :: "int \<Rightarrow> string \<Rightarrow> string" where
  "digits_loop n digits =
     (if n > 0 then digits_loop (n div 10) (digits @ [digit_char (nat (n mod 10))]) else digits)"
  by pat_completeness auto
termination
  by (relation "measure (\<lambda>(n, digits). nat n)") auto

declare digits_loop.simps [simp del]

text \<open>The in-place reversal by swapping \<open>i\<close> with \<open>len-1-i\<close> for \<open>i < len/2\<close>.\<close>

function swap_loop :: "nat \<Rightarrow> 'a list \<Rightarrow> 'a list" where
  "swap_loop i xs =
     (if i < length xs div 2
      then swap_loop (Suc i) (xs[i := xs ! (length xs - 1 - i), length xs - 1 - i := xs ! i])
      else xs)"
  by pat_completeness auto
termination
  by (relation "measure (\<lambda>(i, xs). length xs div 2 - i)") auto

declare swap_loop.simps [simp del]

definition intToString :: "int \<Rightarrow> string" where
  "intToString n =
     (if n = 0 then ''0''
      else
        let negative = n < 0;
            n = (if negative then wrap64 (- n) else n);
            digits = swap_loop 0 (digits_loop n [])
        in if negative then ''-'' @ digits else digits)"

section \<open>Hash operations\<close>

type_synonym Hash = "string gomap"

definition NewHash :: Hash where
  "NewHash = fmempty"

definition HSet :: "string \<Rightarrow> string \<Rightarrow> Hash \<Rightarrow> Hash \<times> bool" where
  "HSet field value h = (fmupd field value h, fmlookup h field = None)"

definition HGet :: "string \<Rightarrow> Hash \<Rightarrow> string option" where
  "HGet field h = fmlookup h field"

fun hdel_loop :: "string list \<Rightarrow> Hash \<Rightarrow> int \<Rightarrow> Hash \<times> int" where
  "hdel_loop [] h deleted = (h, deleted)"
| "hdel_loop (f # fs) h deleted =
     (if fmlookup h f \<noteq> None then hdel_loop fs (fmdrop f h) (deleted + 1)
      else hdel_loop fs h deleted)"

definition HDel :: "string list \<Rightarrow> Hash \<Rightarrow> Hash \<times> int" where
  "HDel fields h = hdel_loop fields h 0"

definition HExists :: "string \<Rightarrow> Hash \<Rightarrow> bool" where
  "HExists field h \<longleftrightarrow> fmlookup h field \<noteq> None"

definition HGetAll :: "order \<Rightarrow> Hash \<Rightarrow> string gomap" where
  "HGetAll iter h = fold (\<lambda>(k, v) r. fmupd k v r) (range_map iter h) fmempty"

definition HKeys :: "order \<Rightarrow> Hash \<Rightarrow> string list" where
  "HKeys iter h = range_keys iter h"

definition HVals :: "order \<Rightarrow> Hash \<Rightarrow> string list" where
  "HVals iter h = map snd (range_map iter h)"

definition HLen :: "Hash \<Rightarrow> int" where
  "HLen h = int (maplen h)"

definition HMSet :: "order \<Rightarrow> string gomap \<Rightarrow> Hash \<Rightarrow> Hash" where
  "HMSet iter pairs h = fold (\<lambda>(f, v) h. fmupd f v h) (range_map iter pairs) h"

definition HMGet :: "string list \<Rightarrow> Hash \<Rightarrow> string list" where
  "HMGet fields h = map (\<lambda>f. case fmlookup h f of Some v \<Rightarrow> v | None \<Rightarrow> '''') fields"

definition HIncrBy :: "string \<Rightarrow> int \<Rightarrow> Hash \<Rightarrow> Hash \<times> (IntConversionError + int)" where
  "HIncrBy field increment h =
     (case (case fmlookup h field of Some v \<Rightarrow> parseInt v | None \<Rightarrow> Inr 0) of
        Inl e \<Rightarrow> (h, Inl e)
      | Inr current \<Rightarrow>
          let newValue = wrap64 (current + increment)
          in (fmupd field (intToString newValue) h, Inr newValue))"

section \<open>The conversions are correct\<close>

lemma not_digit_iff: "c < CHR ''0'' \<or> c > CHR ''9'' \<longleftrightarrow> \<not> is_digit c"
  by (auto simp: is_digit_def)

lemma parseInt_loop_eq:
  "parseInt_loop s cs (wrap64 r) =
     (if list_all is_digit cs then Inr (wrap64 (dec_val r cs)) else Inl (IntConversionError s))"
  by (induction s cs "wrap64 r" arbitrary: r rule: parseInt_loop.induct)
    (auto simp: not_digit_iff wrap64_horner)

lemma parseInt_eq:
  "parseInt s =
     (case split_sign s of (neg, ds) \<Rightarrow>
        if list_all is_digit ds then Inr (wrap64 (if neg then - dec_val 0 ds else dec_val 0 ds))
        else Inl (IntConversionError s))"
proof -
  have 0: "parseInt_loop t cs 0 =
      (if list_all is_digit cs then Inr (wrap64 (dec_val 0 cs)) else Inl (IntConversionError t))" for t cs
    using parseInt_loop_eq [of t cs 0] by (simp add: wrap64_def)
  show ?thesis
    by (cases s) (auto simp: parseInt_def split_sign_def Let_def 0 wrap64_uminus wrap64_id int64_def)
qed

text \<open>Wherever \<open>strconv.Atoi\<close> succeeds, the hand-written parser returns the same number.\<close>

lemma parseInt_Atoi: "Atoi s = Inr n \<Longrightarrow> parseInt s = Inr n"
  by (auto simp: parseInt_eq Atoi_def Let_def wrap64_id split: prod.splits if_splits)

lemma int64_parseInt: "parseInt s = Inr n \<Longrightarrow> int64 n"
  by (auto simp: parseInt_eq split: prod.splits if_splits)

text \<open>\<open>rev_between i xs j\<close>: element \<open>j\<close> of \<open>xs\<close> with everything but the outer \<open>i\<close> elements reversed.\<close>

definition rev_between :: "nat \<Rightarrow> 'a list \<Rightarrow> nat \<Rightarrow> 'a" where
  "rev_between i xs j = (if i \<le> j \<and> j < length xs - i then xs ! (length xs - 1 - j) else xs ! j)"

lemma rev_between_swap:
  assumes "i < length xs div 2" and "j < length xs"
  shows "rev_between (Suc i) (xs[i := xs ! (length xs - 1 - i), length xs - 1 - i := xs ! i]) j = rev_between i xs j"
proof -
  let ?n = "length xs"
  have i: "i < ?n" "i < ?n - 1 - i" "?n - 1 - i < ?n" "?n - 1 - (?n - 1 - i) = i" using assms(1) by linarith+
  consider "j = i" | "j = ?n - 1 - i" | "j < i \<or> ?n - 1 - i < j" | "i < j" "j < ?n - 1 - i" by linarith
  then show ?thesis
  proof cases
    case 4
    then have "?n - 1 - j \<noteq> i" "?n - 1 - j \<noteq> ?n - 1 - i" "Suc i \<le> j" "j < ?n - Suc i" "j < ?n - i" by linarith+
    then show ?thesis by (simp add: rev_between_def)
  qed (use i in \<open>auto simp: rev_between_def nth_list_update\<close>)
qed

lemma rev_between_middle: "\<not> i < length xs div 2 \<Longrightarrow> rev_between i xs j = xs ! j"
proof -
  assume "\<not> i < length xs div 2"
  then have "length xs - 1 - j = j" if "i \<le> j" "j < length xs - i" using that by linarith
  then show ?thesis by (simp add: rev_between_def)
qed

lemma swap_loop_nth:
  "length (swap_loop i xs) = length xs \<and> (\<forall>j < length xs. swap_loop i xs ! j = rev_between i xs j)"
proof (induction i xs rule: swap_loop.induct)
  case (1 i xs)
  then show ?case
    by (cases "i < length xs div 2") (simp_all add: swap_loop.simps [of i xs] Let_def rev_between_swap [simplified] rev_between_middle)
qed

lemma swap_loop_rev: "swap_loop 0 xs = rev xs"
  using swap_loop_nth [of 0 xs] by (auto intro!: nth_equalityI simp: rev_nth rev_between_def)

lemma digits_loop_eq: "0 < n \<Longrightarrow> digits_loop n ds = ds @ rev (itoa_digits (nat n))"
proof (induction n ds rule: digits_loop.induct)
  case (1 n ds)
  note step = digits_loop.simps [of n ds] itoa_digits.simps [of "nat n"]
  show ?case
  proof (cases "n < 10")
    case True
    then have "n div 10 = 0" "n mod 10 = n" using "1.prems" by auto
    then show ?thesis using True "1.prems" by (simp add: step digits_loop.simps [of 0])
  next
    case False
    then have "0 < n div 10" by simp
    then show ?thesis using False 1 by (simp add: step nat_div_distrib nat_mod_distrib)
  qed
qed

lemma intToString_Itoa: "int64 n \<Longrightarrow> n \<noteq> min_int \<Longrightarrow> intToString n = Itoa n"
proof -
  assume n: "int64 n" "n \<noteq> min_int"
  then have "wrap64 (- n) = - n" by (simp add: wrap64_id int64_def min_int_def)
  moreover have "itoa_digits 0 = ''0''" by code_simp
  ultimately show ?thesis
    by (simp add: intToString_def Itoa_def Let_def swap_loop_rev digits_loop_eq)
qed

text \<open>The most negative integer has no positive counterpart: its digits are lost.\<close>

lemma intToString_min_int: "intToString min_int = ''-''"
proof -
  have "wrap64 (- min_int) = min_int" by (simp add: wrap64_def min_int_def)
  moreover have "digits_loop min_int [] = []" by (simp add: digits_loop.simps min_int_def)
  ultimately show ?thesis
    by (simp add: intToString_def Let_def swap_loop_rev min_int_def [symmetric])
      (simp add: min_int_def)
qed

lemma parseInt_intToString: "int64 n \<Longrightarrow> n \<noteq> min_int \<Longrightarrow> parseInt (intToString n) = Inr n"
  by (simp add: intToString_Itoa parseInt_Atoi)

section \<open>Functional behaviour of the hash operations\<close>

lemma HMSet_eq: "fair iter \<Longrightarrow> HMSet iter pairs h = h ++\<^sub>f pairs"
  by (simp add: HMSet_def fold_fmupd_range_map)

lemma HGetAll_eq: "fair iter \<Longrightarrow> HGetAll iter h = h"
  by (simp add: HGetAll_def fold_fmupd_range_map)

lemma hdel_loop_eq:
  "hdel_loop fs h n =
     (fmdrop_fset (fset_of_list fs) h, n + int (fcard (fset_of_list fs |\<inter>| fmdom h)))"
proof (induction fs h n rule: hdel_loop.induct)
  case (2 f fs h n)
  show ?case
  proof (cases "fmlookup h f")
    case None
    then have "fmdrop f (fmdrop_fset (fset_of_list fs) h) = fmdrop_fset (fset_of_list fs) h"
      "f |\<notin>| fmdom h"
      by (auto intro!: fmdrop_absent simp: fmlookup_dom_iff)
    then show ?thesis using 2 None by simp
  next
    case (Some v)
    then have f: "f |\<in>| fmdom h" by (simp add: fmlookup_dom_iff)
    then have "fset_of_list (f # fs) |\<inter>| fmdom h =
        finsert f (fset_of_list fs |\<inter>| (fmdom h |-| {|f|}))" by auto
    then show ?thesis using 2 Some by (simp add: fcard_finsert_disjoint)
  qed
qed simp

lemma HDel_eq:
  "HDel fs h = (fmdrop_fset (fset_of_list fs) h, int (fcard (fset_of_list fs |\<inter>| fmdom h)))"
  by (simp add: HDel_def hdel_loop_eq)

lemma HSet_HGet:
  "HGet f' (fst (HSet f v h)) = (if f' = f then Some v else HGet f' h)"
  by (simp add: HSet_def HGet_def)

lemma HLen_HSet: "HLen (fst (HSet f v h)) = HLen h + (if snd (HSet f v h) then 1 else 0)"
  by (simp add: HSet_def HLen_def maplen_fmupd)

lemma HIncrBy_value:
  assumes "HIncrBy f d h = (h', Inr n)" and "n \<noteq> min_int"
  shows "HGet f h' = Some (Itoa n)" and "int64 n"
  using assms
  by (auto simp: HIncrBy_def HGet_def Let_def intToString_Itoa split: sum.splits option.splits)

lemma HIncrBy_error: "HIncrBy f d h = (h', Inl e) \<Longrightarrow> h' = h"
  by (auto simp: HIncrBy_def Let_def split: sum.splits)

lemma HIncrBy_nonempty: "HIncrBy f d h = (h', Inr n) \<Longrightarrow> h' \<noteq> fmempty"
  by (auto simp: HIncrBy_def Let_def split: sum.splits dest: arg_cong [where f = "\<lambda>m. fmlookup m f"])

section \<open>Properties of the hash methods\<close>


text \<open>
  The hand-written integer conversions.  On every 64-bit integer but the smallest \<open>intToString\<close> prints what
  \<open>strconv.Itoa\<close> prints and \<open>parseInt\<close> reads it back; the smallest prints as a lone minus sign, which is
  read as zero.  Wherever \<open>strconv.Atoi\<close> accepts a string, \<open>parseInt\<close> returns the same number.
\<close>

lemma integer_conversions:
  assumes "int64 n" and "Atoi s = Inr m"
  shows "intToString n = (if n = min_int then ''-'' else Itoa n) \<and>
    parseInt (intToString n) = Inr (if n = min_int then 0 else n) \<and> parseInt s = Inr m"
proof -
  have "parseInt ''-'' = Inr 0" by code_simp
  then show ?thesis
    using assms intToString_Itoa [of n] intToString_min_int parseInt_intToString [of n] parseInt_Atoi by auto
qed

end
