(* ===== verification/Keyspace.thy ===== *)
theory Keyspace
  imports ListType SetType HashType
begin

text \<open>
  One logical database (\<open>commands.Database\<close>, pkg/commands/database.go): a string store, three maps
  of containers and the expiry times.  The maps of pointers to containers become maps of container
  values; a method call through the pointer obtained for a key is the update of that key's entry.
  A time is a number of nanoseconds; every operation that reads the clock takes the instant
  \<open>now\<close> at which it runs, so one command runs at one instant.  The mutex and the condition
  variable of the struct are not part of the state.
\<close>

section \<open>The environment of a command\<close>

text \<open>
  What a command handler reads beside its arguments and the database: the clock, the order in
  which this run ranges over maps, \<open>filepath.Match\<close> of a pattern and a name, and
  \<open>strconv.ParseFloat\<close> of a timeout (floating point is not modelled: the reading says whether the
  number is negative, positive with so many nanoseconds, or neither), and \<open>strings.ToUpper\<close> and
  \<open>strings.ToLower\<close> of a string that is not all ASCII (the Unicode tables are not modelled).
\<close>

datatype float_reading = Negative | ZeroOrNaN | Positive int

record env =
  now :: int
  map_order :: order
  filepath_Match :: "string \<Rightarrow> string \<Rightarrow> bool"
  ParseFloat :: "string \<Rightarrow> float_reading option"
  unicode_ToUpper :: "string \<Rightarrow> string"
  unicode_ToLower :: "string \<Rightarrow> string"

text \<open>An environment for examples: the clock at \<open>t\<close>, nothing matches, no float parses.\<close>

abbreviation env_at :: "int \<Rightarrow> env" where
  "env_at t \<equiv> \<lparr>now = t, map_order = (\<lambda>ks. ks), filepath_Match = (\<lambda>_ _. False), ParseFloat = (\<lambda>_. None),
     unicode_ToUpper = (\<lambda>s. s), unicode_ToLower = (\<lambda>s. s)\<rparr>"

section \<open>State\<close>

record Database =
  Store :: "string gomap"
  Lists :: "List gomap"
  Sets :: "Set gomap"
  Hashes :: "Hash gomap"
  Expires :: "int gomap"

definition newDatabase :: Database where
  "newDatabase = \<lparr>Store = fmempty, Lists = fmempty, Sets = fmempty, Hashes = fmempty, Expires = fmempty\<rparr>"

definition NumDatabases :: nat where
  "NumDatabases = 16"

section \<open>Expiry\<close>

definition evict :: "string \<Rightarrow> Database \<Rightarrow> Database" where
  "evict key db =
     db\<lparr>Store := fmdrop key (Store db), Lists := fmdrop key (Lists db), Sets := fmdrop key (Sets db),
        Hashes := fmdrop key (Hashes db), Expires := fmdrop key (Expires db)\<rparr>"

definition expireIfNeeded :: "int \<Rightarrow> string \<Rightarrow> Database \<Rightarrow> Database" where
  "expireIfNeeded t key db =
     (case fmlookup (Expires db) key of
        None \<Rightarrow> db
      | Some exp \<Rightarrow> if t < exp then db else evict key db)"

definition SweepExpired :: "env \<Rightarrow> Database \<Rightarrow> Database" where
  "SweepExpired e db =
     (let expired = map fst (filter (\<lambda>(k, exp). now e > exp) (range_map (map_order e) (Expires db)))
      in fold (expireIfNeeded (now e)) expired db)"

section \<open>Access to the containers\<close>

definition GetOrCreateList :: "int \<Rightarrow> string \<Rightarrow> Database \<Rightarrow> Database \<times> List" where
  "GetOrCreateList t key db =
     (let db = expireIfNeeded t key db in
      case fmlookup (Lists db) key of
        Some l \<Rightarrow> (db, l)
      | None \<Rightarrow> (db\<lparr>Lists := fmupd key NewList (Lists db)\<rparr>, NewList))"

definition GetList :: "int \<Rightarrow> string \<Rightarrow> Database \<Rightarrow> Database \<times> List option" where
  "GetList t key db = (let db = expireIfNeeded t key db in (db, fmlookup (Lists db) key))"

definition GetOrCreateSet :: "int \<Rightarrow> string \<Rightarrow> Database \<Rightarrow> Database \<times> Set" where
  "GetOrCreateSet t key db =
     (let db = expireIfNeeded t key db in
      case fmlookup (Sets db) key of
        Some s \<Rightarrow> (db, s)
      | None \<Rightarrow> (db\<lparr>Sets := fmupd key NewSet (Sets db)\<rparr>, NewSet))"

definition GetSet :: "int \<Rightarrow> string \<Rightarrow> Database \<Rightarrow> Database \<times> Set option" where
  "GetSet t key db = (let db = expireIfNeeded t key db in (db, fmlookup (Sets db) key))"

definition GetOrCreateHash :: "int \<Rightarrow> string \<Rightarrow> Database \<Rightarrow> Database \<times> Hash" where
  "GetOrCreateHash t key db =
     (let db = expireIfNeeded t key db in
      case fmlookup (Hashes db) key of
        Some h \<Rightarrow> (db, h)
      | None \<Rightarrow> (db\<lparr>Hashes := fmupd key NewHash (Hashes db)\<rparr>, NewHash))"

definition GetHash :: "int \<Rightarrow> string \<Rightarrow> Database \<Rightarrow> Database \<times> Hash option" where
  "GetHash t key db = (let db = expireIfNeeded t key db in (db, fmlookup (Hashes db) key))"

text \<open>A mutation through the pointer to a key's container, and \<open>delete(db.Lists, key)\<close> and its
  siblings.\<close>

abbreviation put_list :: "string \<Rightarrow> List \<Rightarrow> Database \<Rightarrow> Database" where
  "put_list key l db \<equiv> db\<lparr>Lists := fmupd key l (Lists db)\<rparr>"

abbreviation put_set :: "string \<Rightarrow> Set \<Rightarrow> Database \<Rightarrow> Database" where
  "put_set key s db \<equiv> db\<lparr>Sets := fmupd key s (Sets db)\<rparr>"

abbreviation put_hash :: "string \<Rightarrow> Hash \<Rightarrow> Database \<Rightarrow> Database" where
  "put_hash key h db \<equiv> db\<lparr>Hashes := fmupd key h (Hashes db)\<rparr>"

abbreviation drop_list :: "string \<Rightarrow> Database \<Rightarrow> Database" where
  "drop_list key db \<equiv> db\<lparr>Lists := fmdrop key (Lists db)\<rparr>"

abbreviation drop_set :: "string \<Rightarrow> Database \<Rightarrow> Database" where
  "drop_set key db \<equiv> db\<lparr>Sets := fmdrop key (Sets db)\<rparr>"

abbreviation drop_hash :: "string \<Rightarrow> Database \<Rightarrow> Database" where
  "drop_hash key db \<equiv> db\<lparr>Hashes := fmdrop key (Hashes db)\<rparr>"

section \<open>Keys of any type\<close>

definition DeleteKey :: "int \<Rightarrow> string \<Rightarrow> Database \<Rightarrow> Database \<times> int" where
  "DeleteKey t key db =
     (let db = expireIfNeeded t key db;
          deleted = 0;
          (db, deleted) = (if fmlookup (Store db) key \<noteq> None
                           then (db\<lparr>Store := fmdrop key (Store db)\<rparr>, deleted + 1) else (db, deleted));
          (db, deleted) = (if fmlookup (Lists db) key \<noteq> None
                           then (db\<lparr>Lists := fmdrop key (Lists db)\<rparr>, deleted + 1) else (db, deleted));
          (db, deleted) = (if fmlookup (Sets db) key \<noteq> None
                           then (db\<lparr>Sets := fmdrop key (Sets db)\<rparr>, deleted + 1) else (db, deleted));
          (db, deleted) = (if fmlookup (Hashes db) key \<noteq> None
                           then (db\<lparr>Hashes := fmdrop key (Hashes db)\<rparr>, deleted + 1) else (db, deleted))
      in (db\<lparr>Expires := fmdrop key (Expires db)\<rparr>, deleted))"

definition KeyExists :: "int \<Rightarrow> string \<Rightarrow> Database \<Rightarrow> Database \<times> bool" where
  "KeyExists t key db =
     (let db = expireIfNeeded t key db in
      (db, if fmlookup (Store db) key \<noteq> None then True
           else if fmlookup (Lists db) key \<noteq> None then True
           else if fmlookup (Sets db) key \<noteq> None then True
           else if fmlookup (Hashes db) key \<noteq> None then True
           else False))"

definition GetKeyType :: "int \<Rightarrow> string \<Rightarrow> Database \<Rightarrow> Database \<times> string" where
  "GetKeyType t key db =
     (let db = expireIfNeeded t key db in
      (db, if fmlookup (Store db) key \<noteq> None then ''string''
           else if fmlookup (Lists db) key \<noteq> None then ''list''
           else if fmlookup (Sets db) key \<noteq> None then ''set''
           else if fmlookup (Hashes db) key \<noteq> None then ''hash''
           else ''none''))"

section \<open>Lazy expiry\<close>

definition expired :: "int \<Rightarrow> string \<Rightarrow> Database \<Rightarrow> bool" where
  "expired t key db \<longleftrightarrow> (case fmlookup (Expires db) key of None \<Rightarrow> False | Some exp \<Rightarrow> exp \<le> t)"

lemma expireIfNeeded_eq: "expireIfNeeded t key db = (if expired t key db then evict key db else db)"
  by (auto simp: expireIfNeeded_def expired_def split: option.splits)

lemma evict_sel [simp]:
  "Store (evict key db) = fmdrop key (Store db)"
  "Lists (evict key db) = fmdrop key (Lists db)"
  "Sets (evict key db) = fmdrop key (Sets db)"
  "Hashes (evict key db) = fmdrop key (Hashes db)"
  "Expires (evict key db) = fmdrop key (Expires db)"
  by (simp_all add: evict_def)

lemma expired_no_ttl: "fmlookup (Expires db) key = None \<Longrightarrow> \<not> expired t key db"
  by (simp add: expired_def)

lemma expired_evict: "expired t k' (evict key db) \<longleftrightarrow> k' \<noteq> key \<and> expired t k' db"
  by (auto simp: expired_def split: option.splits)

lemma expired_expireIfNeeded: "expired t k' (expireIfNeeded t key db) \<longleftrightarrow> k' \<noteq> key \<and> expired t k' db"
  by (auto simp: expireIfNeeded_eq expired_evict)

lemma not_expired_expireIfNeeded [simp]: "\<not> expired t key (expireIfNeeded t key db)"
  by (simp add: expired_expireIfNeeded)

lemma expireIfNeeded_idem [simp]:
  "expireIfNeeded t key (expireIfNeeded t key db) = expireIfNeeded t key db"
  by (simp add: expireIfNeeded_eq expired_evict)

lemma expireIfNeeded_no_ttl [simp]: "Expires db = fmempty \<Longrightarrow> expireIfNeeded t key db = db"
  by (simp add: expireIfNeeded_def)

lemma expired_upd [simp]:
  "expired t key (db\<lparr>Store := a\<rparr>) = expired t key db"
  "expired t key (db\<lparr>Lists := b\<rparr>) = expired t key db"
  "expired t key (db\<lparr>Sets := c\<rparr>) = expired t key db"
  "expired t key (db\<lparr>Hashes := d\<rparr>) = expired t key db"
  by (simp_all add: expired_def)

lemma Expires_expireIfNeeded:
  "Expires (expireIfNeeded t key db) = (if expired t key db then fmdrop key (Expires db) else Expires db)"
  by (simp add: expireIfNeeded_eq)

text \<open>
  The database a client sees at time \<open>t\<close>: every key whose time has come is gone.  This is the
  abstract state; the concrete one may still hold expired keys.
\<close>

definition live :: "int \<Rightarrow> Database \<Rightarrow> Database" where
  "live t db =
     \<lparr>Store = fmfilter (\<lambda>k. \<not> expired t k db) (Store db),
      Lists = fmfilter (\<lambda>k. \<not> expired t k db) (Lists db),
      Sets = fmfilter (\<lambda>k. \<not> expired t k db) (Sets db),
      Hashes = fmfilter (\<lambda>k. \<not> expired t k db) (Hashes db),
      Expires = fmfilter (\<lambda>k. \<not> expired t k db) (Expires db)\<rparr>"

lemma live_sel [simp]:
  "fmlookup (Store (live t db)) k = (if expired t k db then None else fmlookup (Store db) k)"
  "fmlookup (Lists (live t db)) k = (if expired t k db then None else fmlookup (Lists db) k)"
  "fmlookup (Sets (live t db)) k = (if expired t k db then None else fmlookup (Sets db) k)"
  "fmlookup (Hashes (live t db)) k = (if expired t k db then None else fmlookup (Hashes db) k)"
  "fmlookup (Expires (live t db)) k = (if expired t k db then None else fmlookup (Expires db) k)"
  by (simp_all add: live_def)

lemma Database_eqI:
  assumes "\<And>k. fmlookup (Store d) k = fmlookup (Store d') k"
    and "\<And>k. fmlookup (Lists d) k = fmlookup (Lists d') k"
    and "\<And>k. fmlookup (Sets d) k = fmlookup (Sets d') k"
    and "\<And>k. fmlookup (Hashes d) k = fmlookup (Hashes d') k"
    and "\<And>k. fmlookup (Expires d) k = fmlookup (Expires d') k"
  shows "d = (d' :: Database)"
  using assms by (intro Database.equality fmap_ext) simp_all

lemma live_evict: "expired t key db \<Longrightarrow> live t (evict key db) = live t db"
  by (rule Database_eqI) (auto simp: expired_evict)

lemma live_expireIfNeeded [simp]: "live t (expireIfNeeded t key db) = live t db"
  by (simp add: expireIfNeeded_eq live_evict)

lemma live_fold_expireIfNeeded [simp]: "live t (fold (expireIfNeeded t) ks db) = live t db"
  by (induction ks arbitrary: db) simp_all

lemma live_SweepExpired: "live (now e) (SweepExpired e db) = live (now e) db"
  by (simp add: SweepExpired_def Let_def)

lemma live_no_ttl: "Expires db = fmempty \<Longrightarrow> live t db = db"
  by (rule Database_eqI) (simp_all add: expired_def)

lemma fold_expireIfNeeded_lookup:
  "fmlookup (Expires (fold (expireIfNeeded t) ks db)) k =
     (if k \<in> set ks \<and> expired t k db then None else fmlookup (Expires db) k)"
  by (induction ks arbitrary: db)
    (auto simp: expireIfNeeded_eq expired_evict)

text \<open>A sweep removes exactly the keys whose time lies strictly in the past.\<close>

lemma SweepExpired_Expires:
  "fair (map_order e) \<Longrightarrow>
   fmlookup (Expires (SweepExpired e db)) k =
     (case fmlookup (Expires db) k of
        None \<Rightarrow> None | Some exp \<Rightarrow> if exp < now e then None else Some exp)"
  by (auto simp: SweepExpired_def Let_def fold_expireIfNeeded_lookup expired_def image_iff
      set_range_map split: option.splits)

section \<open>The typed maps of a database\<close>

text \<open>
  What the commands of one data type rely on: a component of the database that can be read and
  replaced, that no other component depends on and that eviction clears.
\<close>

locale keyspace =
  fixes get :: "Database \<Rightarrow> 'v gomap"
    and put :: "'v gomap \<Rightarrow> Database \<Rightarrow> Database"
  assumes get_put: "get (put m d) = m"
    and put_put: "put m (put m' d) = put m d"
    and put_get: "put (get d) d = d"
    and Expires_put: "Expires (put m d) = Expires d"
    and get_Expires: "get (d\<lparr>Expires := x\<rparr>) = get d"
    and get_evict: "get (evict k d) = fmdrop k (get d)"
begin

lemma expired_put: "expired t k (put m d) \<longleftrightarrow> expired t k d"
  by (simp add: expired_def Expires_put)

lemma fold_put: "fold (\<lambda>x d. put (F x (get d)) d) xs d = put (fold F xs (get d)) d"
  by (induction xs arbitrary: d) (simp_all add: put_get get_put put_put)

lemma lookup_expireIfNeeded:
  "fmlookup (get (expireIfNeeded t k d)) k' =
     (if k' = k \<and> expired t k d then None else fmlookup (get d) k')"
  by (simp add: expireIfNeeded_eq get_evict)

lemma fmpred_expireIfNeeded: "fmpred P (get d) \<Longrightarrow> fmpred P (get (expireIfNeeded t k d))"
  by (auto simp: expireIfNeeded_eq get_evict)

lemma get_fold_expireIfNeeded:
  "fmlookup (get (fold (expireIfNeeded t) ks d)) k =
     (if k \<in> set ks \<and> expired t k d then None else fmlookup (get d) k)"
  by (induction ks arbitrary: d) (auto simp: lookup_expireIfNeeded expired_expireIfNeeded)

lemma fmpred_fold_expireIfNeeded:
  "fmpred P (get d) \<Longrightarrow> fmpred P (get (fold (expireIfNeeded t) ks d))"
  by (auto simp: fmpred_iff get_fold_expireIfNeeded split: if_splits)

end

text \<open>A keyspace of containers: \<open>look\<close> is the \<open>Get\<close> method of the type, \<open>create\<close> its
  \<open>GetOrCreate\<close> method and \<open>fresh\<close> the empty container.\<close>

locale container = keyspace get put
  for get :: "Database \<Rightarrow> 'v gomap" and put :: "'v gomap \<Rightarrow> Database \<Rightarrow> Database" +
  fixes look :: "int \<Rightarrow> string \<Rightarrow> Database \<Rightarrow> Database \<times> 'v option"
    and create :: "int \<Rightarrow> string \<Rightarrow> Database \<Rightarrow> Database \<times> 'v"
    and fresh :: 'v
  assumes look: "look t k d = (expireIfNeeded t k d, fmlookup (get (expireIfNeeded t k d)) k)"
    and create: "create t k d =
      (let d' = expireIfNeeded t k d in
       case fmlookup (get d') k of
         Some c \<Rightarrow> (d', c)
       | None \<Rightarrow> (put (fmupd k fresh (get d')) d', fresh))"
begin

lemma look_value: "snd (look t k d) = (if expired t k d then None else fmlookup (get d) k)"
  by (simp add: look lookup_expireIfNeeded)

lemma look_present: "\<not> expired t k d \<Longrightarrow> look t k d = (d, fmlookup (get d) k)"
  by (simp add: look expireIfNeeded_eq)

lemma create_value: "snd (create t k d) = (case snd (look t k d) of Some c \<Rightarrow> c | None \<Rightarrow> fresh)"
  by (simp add: create look Let_def split: option.splits)

lemma create_stored:
  "fmlookup (get (fst (create t k d))) k = Some (snd (create t k d))"
  by (auto simp: create Let_def get_put split: option.splits)

lemma create_other:
  "k' \<noteq> k \<Longrightarrow> fmlookup (get (fst (create t k d))) k' = fmlookup (get d) k'"
  by (auto simp: create Let_def get_put lookup_expireIfNeeded split: option.splits)

lemma look_after_create:
  "snd (look t k (fst (create t k d))) = Some (snd (create t k d))"
proof -
  have "\<not> expired t k (fst (create t k d))"
    by (simp add: create Let_def expired_put split: option.splits)
  then show ?thesis by (simp add: look_value create_stored)
qed

lemma put_create:
  "put (fmupd k c (get (fst (create t k d)))) (fst (create t k d)) =
     put (fmupd k c (get (expireIfNeeded t k d))) (expireIfNeeded t k d)"
  by (simp add: create Let_def get_put put_put split: option.splits)

lemma look_after_store:
  "\<not> expired t k d \<Longrightarrow> look t k (put (fmupd k c (get d)) d) = (put (fmupd k c (get d)) d, Some c)"
  by (simp add: look_present expired_put get_put)

end

interpretation strings: keyspace Store "\<lambda>m d. d\<lparr>Store := m\<rparr>"
  by unfold_locales simp_all

interpretation lists: container Lists "\<lambda>m d. d\<lparr>Lists := m\<rparr>" GetList GetOrCreateList NewList
  by unfold_locales (simp_all add: GetList_def GetOrCreateList_def Let_def)

interpretation sets: container Sets "\<lambda>m d. d\<lparr>Sets := m\<rparr>" GetSet GetOrCreateSet NewSet
  by unfold_locales (simp_all add: GetSet_def GetOrCreateSet_def Let_def)

interpretation hashes: container Hashes "\<lambda>m d. d\<lparr>Hashes := m\<rparr>" GetHash GetOrCreateHash NewHash
  by unfold_locales (simp_all add: GetHash_def GetOrCreateHash_def Let_def)

section \<open>Invariant\<close>

text \<open>
  No key holds an empty container.  The handlers keep this by deleting a key with its last element,
  so \<open>KeyExists\<close>, \<open>GetKeyType\<close> and the key counts never see an empty list, set or hash.
\<close>

definition db_wf :: "Database \<Rightarrow> bool" where
  "db_wf db \<longleftrightarrow>
     fmpred (\<lambda>_ l. l \<noteq> []) (Lists db) \<and>
     fmpred (\<lambda>_ s. s \<noteq> {||}) (Sets db) \<and>
     fmpred (\<lambda>_ h. h \<noteq> fmempty) (Hashes db)"

lemma db_wf_newDatabase [db_inv]: "db_wf newDatabase"
  by (simp add: db_wf_def newDatabase_def)

lemma db_wf_expireIfNeeded [db_inv]: "db_wf db \<Longrightarrow> db_wf (expireIfNeeded t k db)"
  by (auto simp: db_wf_def intro: lists.fmpred_expireIfNeeded sets.fmpred_expireIfNeeded
      hashes.fmpred_expireIfNeeded)

lemma db_wf_SweepExpired [db_inv]: "db_wf db \<Longrightarrow> db_wf (SweepExpired e db)"
  by (auto simp: db_wf_def SweepExpired_def Let_def intro: lists.fmpred_fold_expireIfNeeded
      sets.fmpred_fold_expireIfNeeded hashes.fmpred_fold_expireIfNeeded)

lemma db_wf_upd [db_inv]:
  "db_wf db \<Longrightarrow> db_wf (db\<lparr>Store := a\<rparr>)"
  "db_wf db \<Longrightarrow> db_wf (db\<lparr>Expires := x\<rparr>)"
  "db_wf db \<Longrightarrow> l \<noteq> [] \<Longrightarrow> db_wf (put_list k l db)"
  "db_wf db \<Longrightarrow> s \<noteq> {||} \<Longrightarrow> db_wf (put_set k s db)"
  "db_wf db \<Longrightarrow> h \<noteq> fmempty \<Longrightarrow> db_wf (put_hash k h db)"
  "db_wf db \<Longrightarrow> db_wf (drop_list k db)"
  "db_wf db \<Longrightarrow> db_wf (drop_set k db)"
  "db_wf db \<Longrightarrow> db_wf (drop_hash k db)"
  by (auto simp: db_wf_def)

section \<open>Property of the sweep\<close>

text \<open>
  A background sweep is invisible and exact: no client can see a difference, exactly the keys whose time lies
  strictly in the past lose their expiry time, and exactly those disappear from the four maps.
\<close>

lemma sweep_exact:
  assumes "fair (map_order e)"
  shows "live (now e) (SweepExpired e db) = live (now e) db \<and>
    fmlookup (Expires (SweepExpired e db)) k =
      (case fmlookup (Expires db) k of None \<Rightarrow> None | Some exp \<Rightarrow> if exp < now e then None else Some exp) \<and>
    (case fmlookup (Expires db) k of
       Some exp \<Rightarrow> if exp < now e
         then fmlookup (Store (SweepExpired e db)) k = None \<and> fmlookup (Lists (SweepExpired e db)) k = None \<and>
              fmlookup (Sets (SweepExpired e db)) k = None \<and> fmlookup (Hashes (SweepExpired e db)) k = None
         else fmlookup (Store (SweepExpired e db)) k = fmlookup (Store db) k \<and>
              fmlookup (Lists (SweepExpired e db)) k = fmlookup (Lists db) k \<and>
              fmlookup (Sets (SweepExpired e db)) k = fmlookup (Sets db) k \<and>
              fmlookup (Hashes (SweepExpired e db)) k = fmlookup (Hashes db) k
     | None \<Rightarrow> fmlookup (Store (SweepExpired e db)) k = fmlookup (Store db) k)"
proof -
  let ?ks = "map fst (filter (\<lambda>(k, exp). now e > exp) (range_map (map_order e) (Expires db)))"
  have sw: "SweepExpired e db = fold (expireIfNeeded (now e)) ?ks db" by (simp add: SweepExpired_def Let_def)
  have in_iff: "k \<in> set ?ks \<longleftrightarrow> (case fmlookup (Expires db) k of None \<Rightarrow> False | Some exp \<Rightarrow> exp < now e)"
    using assms by (auto simp: image_iff set_range_map split: option.splits)
  show ?thesis
    unfolding live_SweepExpired SweepExpired_Expires [OF assms]
    unfolding sw strings.get_fold_expireIfNeeded lists.get_fold_expireIfNeeded sets.get_fold_expireIfNeeded
      hashes.get_fold_expireIfNeeded in_iff
    by (auto simp: expired_def split: option.splits)
qed

end
