(* ===== verification/Resp.thy ===== *)
theory Resp
  imports GoNum
begin

text \<open>
  The RESP2 codec of pkg/resp/parser.go.  A \<open>Value\<close> keeps the four fields of the Go struct (the
  unused ones hold Go's zero values).  The parser reads from the bytes still to come on its
  \<open>bufio.Reader\<close> and returns the value with the bytes left over, an error, or a run-time panic:
  \<open>make\<close> panics on a negative length and on one whose size exceeds the address space.  The writer
  returns the bytes it hands to its buffered writer and whether it met only known types; write
  errors of the underlying connection are not modelled.
\<close>

section \<open>Values\<close>

datatype Value = Value (Type: char) (Str: string) (Num: int) (Array: "Value list")

abbreviation SimpleString :: char where "SimpleString \<equiv> CHR ''+''"
abbreviation BulkString :: char where "BulkString \<equiv> CHR ''$''"
abbreviation ArrayType :: char where "ArrayType \<equiv> CHR ''*''"
abbreviation Integer :: char where "Integer \<equiv> CHR '':''"
abbreviation SimpleError :: char where "SimpleError \<equiv> CHR ''-''"
abbreviation NullType :: char where "NullType \<equiv> CHR ''_''"

abbreviation simple :: "string \<Rightarrow> Value" where "simple s \<equiv> Value SimpleString s 0 []"
abbreviation bulk :: "string \<Rightarrow> Value" where "bulk s \<equiv> Value BulkString s 0 []"
abbreviation integer :: "int \<Rightarrow> Value" where "integer n \<equiv> Value Integer [] n []"
abbreviation err :: "string \<Rightarrow> Value" where "err s \<equiv> Value SimpleError s 0 []"
abbreviation null :: Value where "null \<equiv> Value NullType [] 0 []"
abbreviation array :: "Value list \<Rightarrow> Value" where "array vs \<equiv> Value ArrayType [] 0 vs"

abbreviation CR :: char where "CR \<equiv> CHR 0x0D"
abbreviation LF :: char where "LF \<equiv> CHR 0x0A"
abbreviation CRLF :: string where "CRLF \<equiv> [CR, LF]"

section \<open>Parser\<close>

datatype read_error = EOF | UnexpectedEOF | TooShort | UnknownType char
  | InvalidInteger num_error | InvalidBulkLength num_error | InvalidArrayLength num_error

datatype 'a parsed = Ok 'a string | Err read_error | Panic

text \<open>\<open>makeslice\<close> of the Go runtime on a 64-bit machine: the length is not negative and the
  memory does not exceed the 48-bit address space.\<close>

definition makeslice_ok :: "int \<Rightarrow> int \<Rightarrow> bool" where
  "makeslice_ok elem_size n \<longleftrightarrow> 0 \<le> n \<and> elem_size * n \<le> 2 ^ 48"

definition value_size :: int where
  "value_size = 56"

text \<open>\<open>bufio.Reader.ReadBytes\<close> returns the bytes up to and including the delimiter.\<close>

fun ReadBytes :: "char \<Rightarrow> string \<Rightarrow> string parsed" where
  "ReadBytes delim [] = Err EOF"
| "ReadBytes delim (c # s) =
     (if c = delim then Ok [c] s
      else case ReadBytes delim s of
        Ok line rest \<Rightarrow> Ok (c # line) rest | Err e \<Rightarrow> Err e | Panic \<Rightarrow> Panic)"

text \<open>\<open>io.ReadFull\<close> fills a buffer of the given size.\<close>

definition ReadFull :: "nat \<Rightarrow> string \<Rightarrow> string parsed" where
  "ReadFull n s =
     (if n \<le> length s then Ok (take n s) (drop n s)
      else if s = [] then Err EOF else Err UnexpectedEOF)"

definition readLine :: "string \<Rightarrow> string parsed" where
  "readLine s =
     (case ReadBytes LF s of
        Err e \<Rightarrow> Err e
      | Panic \<Rightarrow> Panic
      | Ok line rest \<Rightarrow>
          if length line < 2 then Err TooShort else Ok (take (length line - 2) line) rest)"

definition readInt :: "string \<Rightarrow> Value parsed" where
  "readInt s =
     (case readLine s of
        Err e \<Rightarrow> Err e
      | Panic \<Rightarrow> Panic
      | Ok line rest \<Rightarrow>
          (case Atoi line of
             Inl e \<Rightarrow> Err (InvalidInteger e)
           | Inr num \<Rightarrow> Ok (integer num) rest))"

definition readSimpleString :: "string \<Rightarrow> Value parsed" where
  "readSimpleString s =
     (case readLine s of Err e \<Rightarrow> Err e | Panic \<Rightarrow> Panic | Ok line rest \<Rightarrow> Ok (simple line) rest)"

definition readError :: "string \<Rightarrow> Value parsed" where
  "readError s =
     (case readLine s of Err e \<Rightarrow> Err e | Panic \<Rightarrow> Panic | Ok line rest \<Rightarrow> Ok (err line) rest)"

definition readBulkString :: "string \<Rightarrow> Value parsed" where
  "readBulkString s =
     (case readLine s of
        Err e \<Rightarrow> Err e
      | Panic \<Rightarrow> Panic
      | Ok line rest \<Rightarrow>
          (case Atoi line of
             Inl e \<Rightarrow> Err (InvalidBulkLength e)
           | Inr sz \<Rightarrow>
               if sz = -1 then Ok null rest
               else if \<not> makeslice_ok 1 sz then Panic
               else (case ReadFull (nat sz) rest of
                       Err e \<Rightarrow> Err e
                     | Panic \<Rightarrow> Panic
                     | Ok buf rest' \<Rightarrow>
                         (case ReadBytes LF rest' of
                            Err e \<Rightarrow> Err e
                          | Panic \<Rightarrow> Panic
                          | Ok _ rest'' \<Rightarrow> Ok (bulk buf) rest''))))"

text \<open>
  \<open>Parse\<close>, \<open>readArray\<close> and the element loop of \<open>readArray\<close> call each other.  Every call of
  \<open>Parse\<close> consumes its prefix byte, which bounds the recursion.
\<close>

function (sequential) Parse :: "string \<Rightarrow> Value parsed"
  and readArray :: "string \<Rightarrow> Value parsed"
  and readElems :: "nat \<Rightarrow> string \<Rightarrow> Value list parsed" where
  "Parse [] = Err EOF"
| "Parse (prefix # s) =
     (if prefix = SimpleString then readSimpleString s
      else if prefix = BulkString then readBulkString s
      else if prefix = ArrayType then readArray s
      else if prefix = Integer then readInt s
      else if prefix = SimpleError then readError s
      else Err (UnknownType prefix))"
| "readArray s =
     (case readLine s of
        Err e \<Rightarrow> Err e
      | Panic \<Rightarrow> Panic
      | Ok line rest \<Rightarrow>
          (case Atoi line of
             Inl e \<Rightarrow> Err (InvalidArrayLength e)
           | Inr n \<Rightarrow>
               if n = -1 then Ok null rest
               else if \<not> makeslice_ok value_size n then Panic
               else (case readElems (nat n) rest of
                       Err e \<Rightarrow> Err e
                     | Panic \<Rightarrow> Panic
                     | Ok arr rest' \<Rightarrow> Ok (array arr) rest')))"
| "readElems 0 s = Ok [] s"
| "readElems (Suc n) s =
     (case Parse s of
        Err e \<Rightarrow> Err e
      | Panic \<Rightarrow> Panic
      | Ok v rest \<Rightarrow>
          (case readElems n rest of
             Err e \<Rightarrow> Err e
           | Panic \<Rightarrow> Panic
           | Ok vs rest' \<Rightarrow> Ok (v # vs) rest'))"
  by pat_completeness auto

lemma ReadBytes_length: "ReadBytes d s = Ok line rest \<Longrightarrow> length s = length line + length rest"
  by (induction d s arbitrary: line rule: ReadBytes.induct) (auto split: if_splits parsed.splits)

lemma ReadBytes_nonempty: "ReadBytes d s = Ok line rest \<Longrightarrow> line \<noteq> []"
  by (induction d s arbitrary: line rule: ReadBytes.induct) (auto split: if_splits parsed.splits)

lemma readLine_length: "readLine s = Ok line rest \<Longrightarrow> length rest < length s"
  using ReadBytes_length [of LF s] by (fastforce simp: readLine_def split: parsed.splits if_splits)

lemma ReadFull_length: "ReadFull n s = Ok buf rest \<Longrightarrow> length rest \<le> length s"
  by (auto simp: ReadFull_def split: if_splits)

lemma readBulkString_length: "readBulkString s = Ok v rest \<Longrightarrow> length rest < length s"
  by (auto simp: readBulkString_def split: parsed.splits sum.splits if_splits
      dest!: readLine_length ReadBytes_length ReadFull_length)

lemma readInt_length: "readInt s = Ok v rest \<Longrightarrow> length rest < length s"
  by (auto simp: readInt_def split: parsed.splits sum.splits dest!: readLine_length)

lemma readLine_values_length:
  "readSimpleString s = Ok v rest \<Longrightarrow> length rest < length s"
  "readError s = Ok v rest \<Longrightarrow> length rest < length s"
  by (auto simp: readSimpleString_def readError_def split: parsed.splits dest!: readLine_length)

lemmas read_length = readBulkString_length readInt_length readLine_values_length readLine_length

lemma Parse_consumes_partial:
  "Parse_readArray_readElems_dom (Inl s) \<Longrightarrow> Parse s = Ok v rest \<Longrightarrow> length rest < length s"
  "Parse_readArray_readElems_dom (Inr (Inl s)) \<Longrightarrow> readArray s = Ok v rest \<Longrightarrow> length rest < length s"
  "Parse_readArray_readElems_dom (Inr (Inr (n, s))) \<Longrightarrow> readElems n s = Ok vs rest \<Longrightarrow>
    length rest \<le> length s"
proof (induction s and s and n s arbitrary: v rest and v rest and vs rest
    rule: Parse_readArray_readElems.pinduct)
  case 1
  then show ?case by (simp add: Parse.psimps)
next
  case (2 prefix s)
  then show ?case by (auto simp: Parse.psimps split: if_splits dest!: read_length)
next
  case (3 s)
  from "3.prems" obtain line rest1 where line: "readLine s = Ok line rest1"
    by (auto simp: readArray.psimps [OF "3.hyps"] split: parsed.splits)
  then have "length rest1 < length s" by (rule readLine_length)
  moreover have "length rest \<le> length rest1"
    using "3.prems" line "3.IH" [OF line]
    by (auto simp: readArray.psimps [OF "3.hyps"] split: parsed.splits sum.splits if_splits)
  ultimately show ?case by simp
next
  case (4 s)
  then show ?case by (simp add: readElems.psimps)
next
  case (5 n s)
  from "5.prems" obtain v rest1 vs' where
    "Parse s = Ok v rest1" "readElems n rest1 = Ok vs' rest"
    by (auto simp: readElems.psimps(2) [OF "5.hyps"] split: parsed.splits)
  then show ?case using "5.IH"(1) [of v rest1] "5.IH"(2) [of v rest1 vs' rest] by simp
qed

lemma Parse_total: "All Parse_readArray_readElems_dom"
  by (relation "measure (\<lambda>x. case x of
        Inl s \<Rightarrow> 2 * length s | Inr (Inl s) \<Rightarrow> 2 * length s + 1 | Inr (Inr (n, s)) \<Rightarrow> 2 * length s + 1)")
    (auto dest: read_length Parse_consumes_partial)

termination Parse
  by (rule Parse_total)

declare readArray.simps [simp del]

section \<open>Writer\<close>

definition writeSimpleString :: "string \<Rightarrow> string" where
  "writeSimpleString s = [SimpleString] @ s @ CRLF"

definition writeInt :: "int \<Rightarrow> string" where
  "writeInt i = [Integer] @ Itoa i @ CRLF"

definition writeBulkString :: "string \<Rightarrow> string" where
  "writeBulkString s = [BulkString] @ Itoa (int (length s)) @ CRLF @ s @ CRLF"

definition writeSimpleError :: "string \<Rightarrow> string" where
  "writeSimpleError s = [SimpleError] @ s @ CRLF"

definition writeNull :: string where
  "writeNull = ''$-1'' @ CRLF"

text \<open>
  \<open>Write\<close> and \<open>writeArray\<close>: the bytes handed to the buffered writer, and \<open>True\<close> unless a value of
  unknown type stopped the writing.
\<close>

fun Write :: "Value \<Rightarrow> string \<times> bool"
  and writeArray :: "Value list \<Rightarrow> string \<times> bool"
  and writeElems :: "Value list \<Rightarrow> string \<times> bool" where
  "Write (Value t s n vs) =
     (if t = SimpleString then (writeSimpleString s, True)
      else if t = SimpleError then (writeSimpleError s, True)
      else if t = Integer then (writeInt n, True)
      else if t = BulkString then (writeBulkString s, True)
      else if t = ArrayType then writeArray vs
      else if t = NullType then (writeNull, True)
      else ([], False))"
| "writeArray arr =
     (case writeElems arr of
        (out, ok) \<Rightarrow> ([ArrayType] @ Itoa (int (length arr)) @ CRLF @ out, ok))"
| "writeElems [] = ([], True)"
| "writeElems (v # vs) =
     (case Write v of
        (out, False) \<Rightarrow> (out, False)
      | (out, True) \<Rightarrow> (case writeElems vs of (out', ok) \<Rightarrow> (out @ out', ok)))"

text \<open>
  The values a parser can return, which are also the ones that survive a write and a read: every
  field the type does not use is Go's zero value, lines hold no line feed, numbers fit in an
  \<open>int\<close> and lengths can be allocated.
\<close>

fun wf_value :: "Value \<Rightarrow> bool" where
  "wf_value (Value t s n vs) \<longleftrightarrow>
     (if t = SimpleString \<or> t = SimpleError then LF \<notin> set s \<and> n = 0 \<and> vs = []
      else if t = Integer then s = [] \<and> int64 n \<and> vs = []
      else if t = BulkString then n = 0 \<and> vs = [] \<and> makeslice_ok 1 (int (length s))
      else if t = ArrayType then s = [] \<and> n = 0 \<and> makeslice_ok value_size (int (length vs)) \<and> list_all wf_value vs
      else t = NullType \<and> s = [] \<and> n = 0 \<and> vs = [])"

section \<open>Round trips\<close>

lemma ReadBytes_append: "d \<notin> set s \<Longrightarrow> ReadBytes d (s @ d # rest) = Ok (s @ [d]) rest"
  by (induction s) auto

lemma readLine_CRLF [simp]: "LF \<notin> set s \<Longrightarrow> readLine (s @ CR # LF # rest) = Ok s rest"
  using ReadBytes_append [of LF "s @ [CR]" rest] by (simp add: readLine_def)

lemma ReadFull_append [simp]: "ReadFull (length s) (s @ rest) = Ok s rest"
  by (simp add: ReadFull_def)

lemma makeslice_int64: "makeslice_ok e n \<Longrightarrow> 1 \<le> e \<Longrightarrow> int64 n"
proof -
  assume ok: "makeslice_ok e n" and e: "1 \<le> e"
  then have "n \<le> e * n" by (simp add: makeslice_ok_def mult_le_cancel_right1)
  then show ?thesis using ok by (simp add: makeslice_ok_def int64_def)
qed

lemma readBulkString_write:
  "makeslice_ok 1 (int (length s)) \<Longrightarrow>
   readBulkString (Itoa (int (length s)) @ CR # LF # s @ CR # LF # rest) = Ok (bulk s) rest"
  using makeslice_int64 [of 1 "int (length s)"] ReadBytes_append [of LF "[CR]" rest]
  by (simp add: readBulkString_def)

lemma Atoi_minus_one: "Atoi ''-1'' = Inr (-1)"
  by code_simp

lemma readBulkString_null: "readBulkString (CHR ''-'' # CHR ''1'' # CR # LF # rest) = Ok null rest"
  using readLine_CRLF [of "''-1''" rest] by (simp add: readBulkString_def Atoi_minus_one)

lemma writeElems_ok: "list_all (\<lambda>v. snd (Write v)) vs \<Longrightarrow>
  writeElems vs = (concat (map (\<lambda>v. fst (Write v)) vs), True)"
  by (induction vs) (auto split: prod.splits bool.splits)

lemma Write_wf: "wf_value v \<Longrightarrow> snd (Write v)"
proof (induction v)
  case (Value t s n vs)
  then have "t = ArrayType \<Longrightarrow> list_all (\<lambda>v. snd (Write v)) vs" by (auto simp: list_all_iff)
  then show ?case using Value.prems by (auto simp: writeElems_ok split: if_splits)
qed

lemma readElems_concat:
  assumes "\<And>v rest. v \<in> set vs \<Longrightarrow> Parse (f v @ rest) = Ok v rest"
  shows "readElems (length vs) (concat (map f vs) @ rest) = Ok vs rest"
  using assms by (induction vs) simp_all

lemma Parse_Write: "wf_value v \<Longrightarrow> Parse (fst (Write v) @ rest) = Ok v rest"
proof (induction v arbitrary: rest)
  case (Value t s n vs)
  show ?case
  proof (cases "t = ArrayType")
    case True
    with Value.prems have vs: "list_all wf_value vs" "makeslice_ok value_size (int (length vs))"
      and eq: "Value t s n vs = array vs" by simp_all
    then have "writeElems vs = (concat (map (\<lambda>v. fst (Write v)) vs), True)"
      by (intro writeElems_ok) (simp add: list_all_iff Write_wf)
    moreover have "readElems (length vs) (concat (map (\<lambda>v. fst (Write v)) vs) @ rest) = Ok vs rest"
      using Value.IH vs(1) by (intro readElems_concat) (simp add: list_all_iff)
    ultimately show ?thesis
      using vs(2) makeslice_int64 [OF vs(2)]
      unfolding eq by (simp add: readArray.simps value_size_def)
  next
    case False
    with Value.prems show ?thesis
      by (auto simp: writeSimpleString_def writeSimpleError_def writeInt_def writeBulkString_def
          writeNull_def readSimpleString_def readError_def readInt_def readBulkString_write
          readBulkString_null split: if_splits)
  qed
qed

lemma ReadBytes_prefix: "ReadBytes d s = Ok line rest \<Longrightarrow> d \<notin> set (butlast line)"
  by (induction d s arbitrary: line rule: ReadBytes.induct)
    (auto split: if_splits parsed.splits dest: ReadBytes_nonempty)

lemma readLine_no_LF: "readLine s = Ok line rest \<Longrightarrow> LF \<notin> set line"
proof -
  assume "readLine s = Ok line rest"
  then obtain l where l: "ReadBytes LF s = Ok l rest" and line: "line = take (length l - 2) l"
    by (auto simp: readLine_def split: parsed.splits if_splits)
  have "set line \<subseteq> set (butlast l)"
    unfolding line butlast_conv_take by (rule set_take_subset_set_take) simp
  then show ?thesis using ReadBytes_prefix [OF l] by blast
qed

lemma read_wf:
  "readSimpleString s = Ok v rest \<Longrightarrow> wf_value v"
  "readError s = Ok v rest \<Longrightarrow> wf_value v"
  "readInt s = Ok v rest \<Longrightarrow> wf_value v"
  "readBulkString s = Ok v rest \<Longrightarrow> wf_value v"
  by (auto simp: readSimpleString_def readError_def readInt_def readBulkString_def ReadFull_def
      makeslice_ok_def split: parsed.splits sum.splits if_splits
      dest: readLine_no_LF Atoi_int64)

lemma Parse_wf_all:
  "Parse s = Ok v rest \<Longrightarrow> wf_value v"
  "readArray s = Ok v rest \<Longrightarrow> wf_value v"
  "readElems n s = Ok vs rest \<Longrightarrow> list_all wf_value vs \<and> length vs = n"
proof (induction s and s and n s arbitrary: v rest and v rest and vs rest
    rule: Parse_readArray_readElems.induct)
  case (2 prefix s)
  then show ?case by (auto split: if_splits dest: read_wf)
next
  case (3 s)
  then show ?case
    by (auto simp: readArray.simps makeslice_ok_def value_size_def
        split: parsed.splits sum.splits if_splits)
next
  case (5 n s)
  then show ?case by (auto split: parsed.splits)
qed simp_all

text \<open>A parsed value written out and parsed again is the same value.\<close>

lemma Parse_reencode:
  "Parse s = Ok v rest \<Longrightarrow> Parse (fst (Write v) @ rest') = Ok v rest'"
  by (intro Parse_Write Parse_wf_all(1))

lemma Parse_consumes: "Parse s = Ok v rest \<Longrightarrow> length rest < length s"
  by (rule Parse_consumes_partial(1)) (simp add: Parse_total [rule_format])

section \<open>Properties of the codec\<close>

text \<open>
  C8.  Round trip of the wire format: a well-formed value is written without an error, and parsing
  the bytes, whatever follows them on the connection, gives the value back and leaves exactly what
  follows.
\<close>

theorem resp_roundtrip:
  assumes "wf_value v"
  shows "snd (Write v) \<and> Parse (fst (Write v) @ rest) = Ok v rest"
  using Write_wf [OF assms] Parse_Write [OF assms] by blast

theorem resp_roundtrip_witness:
  "Parse (fst (Write (array [bulk ''GET'', integer (-7), null, array []])) @ ''+x'') =
     Ok (array [bulk ''GET'', integer (-7), null, array []]) ''+x''"
  using resp_roundtrip [of "array [bulk ''GET'', integer (-7), null, array []]" "''+x''"]
  by (simp add: makeslice_ok_def value_size_def int64_def)

text \<open>
  Whatever bytes a client sends, a value the parser returns is well-formed, the parser has
  consumed at least one byte, and the value is stable: encoded again (as the append-only file does)
  it parses to itself.
\<close>

lemma parsed_values_canonical:
  assumes "Parse s = Ok v rest"
  shows "wf_value v \<and> length rest < length s \<and> Parse (fst (Write v) @ more) = Ok v more"
  using assms Parse_wf_all(1) Parse_consumes Parse_reencode by blast


end
