(* ===== verification/Contract.thy ===== *)
theory Contract
  imports Keyspace Resp
begin

text \<open>
  The contracts of the command handlers (\<open>CommandHandler\<close>, pkg/commands/handler.go).  A handler
  takes the environment, the arguments and the database it runs on and returns the database with
  the reply.  \<open>command\<close> is what the dispatcher relies on for every handler; \<open>ttl_free_command\<close>
  adds that the handler sets no expiry time; \<open>lazy_command\<close> adds that a handler cannot tell an
  expired key from an absent one, whether or not the background sweep has already removed it.
\<close>

type_synonym handler = "env \<Rightarrow> Value list \<Rightarrow> Database \<Rightarrow> Database \<times> Value"

abbreviation is_error :: "Value \<Rightarrow> bool" where
  "is_error v \<equiv> Type v = SimpleError"

locale command =
  fixes h :: handler
  assumes keeps_wf: "fair (map_order e) \<Longrightarrow> db_wf db \<Longrightarrow> db_wf (fst (h e args db))"
    and error_unchanged: "is_error (snd (h e args db)) \<Longrightarrow> live (now e) (fst (h e args db)) = live (now e) db"

locale ttl_free_command = command +
  assumes no_ttl: "Expires db = fmempty \<Longrightarrow> Expires (fst (h e args db)) = fmempty"
begin

text \<open>Without expiry times an error reply means that nothing happened.\<close>

lemma error_fixed: "Expires db = fmempty \<Longrightarrow> is_error (snd (h e args db)) \<Longrightarrow> fst (h e args db) = db"
  by (metis error_unchanged live_no_ttl no_ttl)

end

section \<open>Facts about the visible database\<close>

lemma live_live: "t' \<le> t \<Longrightarrow> live t (live t' db) = live t db"
  by (rule Database_eqI) (auto simp: expired_def split: option.splits)

lemma expired_live [simp]: "expired t k (live t db) \<longleftrightarrow> False"
  by (auto simp: expired_def split: option.splits)

lemma live_idem [simp]: "live t (live t db) = live t db"
  by (simp add: live_live)

lemma expireIfNeeded_live [simp]: "expireIfNeeded t k (live t db) = live t db"
  by (simp add: expireIfNeeded_eq)

lemma live_upd [simp]:
  "\<not> expired t k d \<Longrightarrow> live t (d\<lparr>Store := fmupd k v (Store d)\<rparr>) = (live t d)\<lparr>Store := fmupd k v (Store (live t d))\<rparr>"
  "\<not> expired t k d \<Longrightarrow> live t (put_list k l d) = put_list k l (live t d)"
  "\<not> expired t k d \<Longrightarrow> live t (put_set k s d) = put_set k s (live t d)"
  "\<not> expired t k d \<Longrightarrow> live t (put_hash k hh d) = put_hash k hh (live t d)"
  "live t (drop_list k d) = drop_list k (live t d)"
  "live t (drop_set k d) = drop_set k (live t d)"
  "live t (drop_hash k d) = drop_hash k (live t d)"
  by (auto intro!: Database_eqI)

lemma live_drop_ttl:
  "\<not> expired t k d \<Longrightarrow>
   live t (d\<lparr>Expires := fmdrop k (Expires d)\<rparr>) = (live t d)\<lparr>Expires := fmdrop k (Expires (live t d))\<rparr>"
  by (rule Database_eqI) (auto simp: expired_def split: option.splits)

lemma live_lookup_expireIfNeeded:
  "fmlookup (Store (expireIfNeeded t k d)) k = fmlookup (Store (live t d)) k"
  "fmlookup (Lists (expireIfNeeded t k d)) k = fmlookup (Lists (live t d)) k"
  "fmlookup (Sets (expireIfNeeded t k d)) k = fmlookup (Sets (live t d)) k"
  "fmlookup (Hashes (expireIfNeeded t k d)) k = fmlookup (Hashes (live t d)) k"
  "fmlookup (Expires (expireIfNeeded t k d)) k = fmlookup (Expires (live t d)) k"
  by (simp_all add: expireIfNeeded_eq)

section \<open>Handlers that do not see expired keys\<close>

locale lazy_command = command +
  assumes lazy_reply: "snd (h e args db) = snd (h e args (live (now e) db))"
    and lazy_state: "live (now e) (fst (h e args db)) = live (now e) (fst (h e args (live (now e) db)))"
begin

text \<open>Databases that look the same to a client give the same reply and again look the same.\<close>

lemma lazy_cong:
  assumes "live (now e) db = live (now e) db'"
  shows "snd (h e args db) = snd (h e args db')"
    and "live (now e) (fst (h e args db)) = live (now e) (fst (h e args db'))"
  using assms lazy_reply lazy_state by metis+

text \<open>A background sweep before the command is invisible.\<close>

lemma sweep_invisible:
  assumes "now e' \<le> now e"
  shows "snd (h e args (SweepExpired e' db)) = snd (h e args db)"
    and "live (now e) (fst (h e args (SweepExpired e' db))) = live (now e) (fst (h e args db))"
proof -
  have "live (now e) (SweepExpired e' db) = live (now e) db"
    by (metis assms live_SweepExpired live_live)
  then show "snd (h e args (SweepExpired e' db)) = snd (h e args db)"
    and "live (now e) (fst (h e args (SweepExpired e' db))) = live (now e) (fst (h e args db))"
    by (rule lazy_cong)+
qed

end

text \<open>The usual command on data: both contracts.\<close>

locale data_command = lazy_command h + ttl_free_command h for h

lemma Expires_empty_expireIfNeeded [simp]:
  "Expires db = fmempty \<Longrightarrow> Expires (expireIfNeeded t k db) = fmempty"
  by simp

lemma db_wf_evict [db_inv]: "db_wf db \<Longrightarrow> db_wf (evict k db)"
  by (auto simp: db_wf_def)

lemmas container_simps =
  lists.look lists.create sets.look sets.create hashes.look hashes.create Let_def

end
