(* ===== verification/StringCommands.thy ===== *)
theory StringCommands
  imports Contract
begin

text \<open>
  The handlers of pkg/commands/string_commands.go on one logical database: a handler takes the
  environment, the arguments and the database and returns the database with the reply.
  (\<open>SAVE\<close>, \<open>BGSAVE\<close> and \<open>LASTSAVE\<close>, which act on the snapshot file, are not here.)
\<close>

section \<open>Handlers\<close>

definition not_an_integer :: Value where
  "not_an_integer = err ''ERR value is not an integer or out of range''"

definition ping :: handler where
  "ping e args db =
     (if length args = 0 then (db, simple ''PONG'') else (db, bulk (Str (args ! 0))))"

definition set_cmd :: handler where
  "set_cmd e args db =
     (if length args \<noteq> 2 then (db, err ''ERR wrong number of arguments for 'set' command'')
      else
        let key = Str (args ! 0); v = Str (args ! 1)
        in (db\<lparr>Store := fmupd key v (Store db), Expires := fmdrop key (Expires db)\<rparr>, simple ''OK''))"

definition get :: handler where
  "get e args db =
     (if length args \<noteq> 1 then (db, err ''ERR wrong number of arguments for 'get' command'')
      else
        let key = Str (args ! 0); db = expireIfNeeded (now e) key db
        in case fmlookup (Store db) key of
             None \<Rightarrow> (db, null)
           | Some v \<Rightarrow> (db, bulk v))"

fun del_loop :: "int \<Rightarrow> Value list \<Rightarrow> Database \<Rightarrow> int \<Rightarrow> Database \<times> int" where
  "del_loop t [] db deleted = (db, deleted)"
| "del_loop t (arg # args) db deleted =
     (case DeleteKey t (Str arg) db of (db, n) \<Rightarrow> del_loop t args db (deleted + n))"

definition del :: handler where
  "del e args db =
     (if length args < 1 then (db, err ''ERR wrong number of arguments for 'del' command'')
      else case del_loop (now e) args db 0 of (db, deleted) \<Rightarrow> (db, integer deleted))"

fun exists_loop :: "int \<Rightarrow> Value list \<Rightarrow> Database \<Rightarrow> int \<Rightarrow> Database \<times> int" where
  "exists_loop t [] db n = (db, n)"
| "exists_loop t (arg # args) db n =
     (case KeyExists t (Str arg) db of (db, found) \<Rightarrow> exists_loop t args db (if found then n + 1 else n))"

definition exists :: handler where
  "exists e args db =
     (if length args < 1 then (db, err ''ERR wrong number of arguments for 'exists' command'')
      else case exists_loop (now e) args db 0 of (db, n) \<Rightarrow> (db, integer n))"

text \<open>The loop over \<open>i += 2\<close> reads pairs; the argument count is even when it runs.\<close>

fun mset_loop :: "Value list \<Rightarrow> Database \<Rightarrow> Database" where
  "mset_loop (k # v # args) db =
     mset_loop args (db\<lparr>Store := fmupd (Str k) (Str v) (Store db), Expires := fmdrop (Str k) (Expires db)\<rparr>)"
| "mset_loop args db = db"

definition mset_cmd :: handler where
  "mset_cmd e args db =
     (if length args < 2 \<or> length args mod 2 \<noteq> 0
      then (db, err ''ERR wrong number of arguments for 'mset' command'')
      else (mset_loop args db, simple ''OK''))"

definition mget :: handler where
  "mget e args db =
     (if length args < 1 then (db, err ''ERR wrong number of arguments for 'mget' command'')
      else
        let db = fold (\<lambda>arg. expireIfNeeded (now e) (Str arg)) args db
        in (db, array (map (\<lambda>arg. case fmlookup (Store db) (Str arg) of Some v \<Rightarrow> bulk v | None \<Rightarrow> null) args)))"

definition typeCmd :: handler where
  "typeCmd e args db =
     (if length args \<noteq> 1 then (db, err ''ERR wrong number of arguments for 'type' command'')
      else case GetKeyType (now e) (Str (args ! 0)) db of (db, keyType) \<Rightarrow> (db, simple keyType))"

definition increment :: "int \<Rightarrow> Database \<Rightarrow> string \<Rightarrow> int \<Rightarrow> Database \<times> Value" where
  "increment t db key amount =
     (let db = expireIfNeeded t key db;
          val = (case fmlookup (Store db) key of None \<Rightarrow> ''0'' | Some v \<Rightarrow> v)
      in case Atoi val of
           Inl _ \<Rightarrow> (db, not_an_integer)
         | Inr n \<Rightarrow>
             let newVal = wrap64 (n + amount)
             in (db\<lparr>Store := fmupd key (Itoa newVal) (Store db)\<rparr>, integer newVal))"

definition incr :: handler where
  "incr e args db =
     (if length args \<noteq> 1 then (db, err ''ERR wrong number of arguments for 'incr' command'')
      else increment (now e) db (Str (args ! 0)) 1)"

definition decr :: handler where
  "decr e args db =
     (if length args \<noteq> 1 then (db, err ''ERR wrong number of arguments for 'decr' command'')
      else increment (now e) db (Str (args ! 0)) (-1))"

definition incrby :: handler where
  "incrby e args db =
     (if length args \<noteq> 2 then (db, err ''ERR wrong number of arguments for 'incrby' command'')
      else case Atoi (Str (args ! 1)) of
        Inl _ \<Rightarrow> (db, not_an_integer)
      | Inr n \<Rightarrow> increment (now e) db (Str (args ! 0)) n)"

definition decrby :: handler where
  "decrby e args db =
     (if length args \<noteq> 2 then (db, err ''ERR wrong number of arguments for 'decrby' command'')
      else case Atoi (Str (args ! 1)) of
        Inl _ \<Rightarrow> (db, not_an_integer)
      | Inr n \<Rightarrow> increment (now e) db (Str (args ! 0)) (wrap64 (- n)))"

section \<open>Deleting keys\<close>

text \<open>The number of maps that hold a key.\<close>

definition copies :: "string \<Rightarrow> Database \<Rightarrow> int" where
  "copies key db =
     of_bool (fmlookup (Store db) key \<noteq> None) + of_bool (fmlookup (Lists db) key \<noteq> None) +
     of_bool (fmlookup (Sets db) key \<noteq> None) + of_bool (fmlookup (Hashes db) key \<noteq> None)"

lemma DeleteKey_eq:
  "DeleteKey t key db =
     (evict key (expireIfNeeded t key db), copies key (expireIfNeeded t key db))"
proof -
  define d where "d = expireIfNeeded t key db"
  have "DeleteKey t key db = (evict key d, copies key d)"
    unfolding DeleteKey_def d_def [symmetric] Let_def
    by (auto simp: copies_def evict_def fmdrop_absent intro!: Database.equality)
  then show ?thesis by (simp add: d_def)
qed

lemma live_DeleteKey: "live t (fst (DeleteKey t key db)) = evict key (live t db)"
  by (rule Database_eqI) (auto simp: DeleteKey_eq expired_evict expired_expireIfNeeded expireIfNeeded_eq)

lemma DeleteKey_count: "snd (DeleteKey t key db) = copies key (live t db)"
  by (simp add: DeleteKey_eq copies_def strings.lookup_expireIfNeeded lists.lookup_expireIfNeeded
      sets.lookup_expireIfNeeded hashes.lookup_expireIfNeeded)

lemma db_wf_DeleteKey [db_inv]: "db_wf db \<Longrightarrow> db_wf (fst (DeleteKey t k db))"
  by (simp add: DeleteKey_eq db_inv)

lemma DeleteKey_live [simp]: "DeleteKey t k (live t db) = (evict k (live t db), copies k (live t db))"
  by (simp add: DeleteKey_eq)

lemma del_loop_lazy:
  "snd (del_loop t args db n) = snd (del_loop t args (live t db) n) \<and>
   live t (fst (del_loop t args db n)) = live t (fst (del_loop t args (live t db) n))"
proof (induction args arbitrary: db n)
  case (Cons a args)
  define d1 where "d1 = fst (DeleteKey t (Str a) db)"
  have d1: "DeleteKey t (Str a) db = (d1, copies (Str a) (live t db))"
    by (simp add: d1_def DeleteKey_count prod_eq_iff)
  have "live t d1 = evict (Str a) (live t db)" by (simp add: d1_def live_DeleteKey)
  then show ?case using Cons [of d1] by (simp add: d1)
qed simp

lemma del_loop_wf: "db_wf db \<Longrightarrow> db_wf (fst (del_loop t args db n))"
  by (induction args arbitrary: db n) (auto simp: DeleteKey_eq db_inv)

lemma del_loop_ttl: "Expires db = fmempty \<Longrightarrow> Expires (fst (del_loop t args db n)) = fmempty"
  by (induction args arbitrary: db n) (auto simp: DeleteKey_eq)

lemma KeyExists_eq: "KeyExists t k db = (expireIfNeeded t k db, 0 < copies k (live t db))"
  by (simp add: KeyExists_def Let_def live_lookup_expireIfNeeded copies_def)

lemma exists_loop_lazy:
  "snd (exists_loop t args db n) = snd (exists_loop t args (live t db) n) \<and>
   live t (fst (exists_loop t args db n)) = live t db"
proof (induction args arbitrary: db n)
  case (Cons a args)
  from Cons [of "expireIfNeeded t (Str a) db"] show ?case by (simp add: KeyExists_eq)
qed simp

lemma exists_loop_wf: "db_wf db \<Longrightarrow> db_wf (fst (exists_loop t args db n))"
  by (induction args arbitrary: db n) (auto simp: KeyExists_eq db_inv)

lemma exists_loop_ttl: "Expires db = fmempty \<Longrightarrow> fst (exists_loop t args db n) = db"
  by (induction args arbitrary: db n) (auto simp: KeyExists_eq)

lemma mset_loop_wf: "db_wf db \<Longrightarrow> db_wf (mset_loop args db)"
  by (induction args db rule: mset_loop.induct) (auto intro: db_inv)

lemma mset_loop_ttl: "Expires db = fmempty \<Longrightarrow> Expires (mset_loop args db) = fmempty"
  by (induction args db rule: mset_loop.induct) auto

section \<open>The handlers meet their contracts\<close>

interpretation ping: data_command ping
  by unfold_locales (auto simp: ping_def)

interpretation get: data_command get
  by unfold_locales
    (auto simp: get_def Let_def live_lookup_expireIfNeeded intro: db_inv split: option.splits)

interpretation typeCmd: data_command typeCmd
  by unfold_locales
    (auto simp: typeCmd_def GetKeyType_def Let_def live_lookup_expireIfNeeded intro: db_inv)

interpretation del: data_command del
  by unfold_locales
    (use del_loop_lazy del_loop_wf del_loop_ttl in
      \<open>auto simp: del_def case_prod_unfold\<close>)

interpretation exists: data_command exists
  by unfold_locales
    (use exists_loop_lazy exists_loop_wf exists_loop_ttl in
      \<open>auto simp: exists_def case_prod_unfold\<close>)

interpretation set_cmd: ttl_free_command set_cmd
  by unfold_locales (auto simp: set_cmd_def Let_def db_wf_def)

interpretation mset_cmd: ttl_free_command mset_cmd
  by unfold_locales (auto simp: mset_cmd_def intro: mset_loop_wf mset_loop_ttl)

lemma mget_expiry:
  "live t (fold (\<lambda>arg. expireIfNeeded t (Str arg)) args db) = live t db"
  "db_wf db \<Longrightarrow> db_wf (fold (\<lambda>arg. expireIfNeeded t (Str arg)) args db)"
  "Expires db = fmempty \<Longrightarrow> fold (\<lambda>arg. expireIfNeeded t (Str arg)) args db = db"
  by (induction args arbitrary: db) (auto intro: db_inv)

lemma fold_expireIfNeeded_args:
  "fold (\<lambda>arg. expireIfNeeded t (Str arg)) args db = fold (expireIfNeeded t) (map Str args) db"
  by (simp add: fold_map o_def)

lemma mget_reply:
  "args \<noteq> [] \<Longrightarrow> snd (mget e args db) =
     array (map (\<lambda>a. case fmlookup (Store (live (now e) db)) (Str a) of Some v \<Rightarrow> bulk v | None \<Rightarrow> null) args)"
  by (auto simp: mget_def Let_def fold_expireIfNeeded_args strings.get_fold_expireIfNeeded
      intro!: arg_cong [where f = "case_option _ _"] split: option.splits)

interpretation mget: data_command mget
proof unfold_locales
  show "snd (mget e args db) = snd (mget e args (live (now e) db))" for e args db
    by (cases "args = []") (simp_all add: mget_reply, simp add: mget_def)
qed (auto simp: mget_def Let_def mget_expiry)

lemma increment_live:
  "snd (increment t db k n) = snd (increment t (live t db) k n) \<and>
   live t (fst (increment t db k n)) = live t (fst (increment t (live t db) k n))"
  by (auto simp: increment_def Let_def live_lookup_expireIfNeeded split: sum.splits option.splits)

lemma increment_command:
  "db_wf db \<Longrightarrow> db_wf (fst (increment t db k n))"
  "Expires db = fmempty \<Longrightarrow> Expires (fst (increment t db k n)) = fmempty"
  "is_error (snd (increment t db k n)) \<Longrightarrow> live t (fst (increment t db k n)) = live t db"
  by (auto simp: increment_def Let_def intro: db_inv split: sum.splits)

lemmas counter_simps = incr_def decr_def incrby_def decrby_def not_an_integer_def

interpretation incr: data_command incr
  by unfold_locales (use increment_live in \<open>auto simp: counter_simps increment_command\<close>)

interpretation decr: data_command decr
  by unfold_locales (use increment_live in \<open>auto simp: counter_simps increment_command\<close>)

interpretation incrby: data_command incrby
  by unfold_locales
    (use increment_live in \<open>auto simp: counter_simps increment_command split: sum.splits\<close>)

interpretation decrby: data_command decrby
  by unfold_locales
    (use increment_live in \<open>auto simp: counter_simps increment_command split: sum.splits\<close>)

section \<open>Properties of the string commands\<close>

lemma exists_loop_count:
  "snd (exists_loop t args db n) = n + (\<Sum>a\<leftarrow>args. of_bool (0 < copies (Str a) (live t db)))"
proof (induction args arbitrary: db n)
  case (Cons a args)
  from Cons [of "expireIfNeeded t (Str a) db"] show ?case by (simp add: KeyExists_eq)
qed simp

lemma live_del_loop: "live t (fst (del_loop t args db n)) = fold (\<lambda>a. evict (Str a)) args (live t db)"
proof (induction args arbitrary: db n)
  case (Cons a args)
  define d1 where "d1 = fst (DeleteKey t (Str a) db)"
  have "DeleteKey t (Str a) db = (d1, copies (Str a) (live t db))"
    by (simp add: d1_def DeleteKey_count prod_eq_iff)
  moreover have "live t d1 = evict (Str a) (live t db)" by (simp add: d1_def live_DeleteKey)
  ultimately show ?case using Cons [of d1] by simp
qed simp

lemma copies_fold_evict: "copies k (fold (\<lambda>a. evict (Str a)) args db) = (if k \<in> Str ` set args then 0 else copies k db)"
  by (induction args arbitrary: db) (auto simp: copies_def)

text \<open>
  C28.  Counters.  Increasing a key that holds an integer by \<open>a\<close> and then decreasing it by \<open>b\<close>, at the
  same instant or before it expires, replies with the sum wrapped to 64 bits, stores it in decimal and changes no
  other key; a value that is not an integer gives an error and no change that a client can see.
\<close>

theorem counter_arithmetic:
  assumes "Atoi (Str a) = Inr m" and "Atoi (Str b) = Inr n"
    and "Atoi (case fmlookup (Store (live (now e) db)) (Str k) of None \<Rightarrow> ''0'' | Some v \<Rightarrow> v) = Inr x"
  shows "let (db1, r1) = incrby e [k, a] db; (db2, r2) = decrby e [k, b] db1
    in r1 = integer (wrap64 (x + m)) \<and> r2 = integer (wrap64 (x + m - n)) \<and>
       live (now e) db2 = (live (now e) db)\<lparr>Store := fmupd (Str k) (Itoa (wrap64 (x + m - n))) (Store (live (now e) db))\<rparr>"
proof -
  let ?t = "now e" and ?k = "Str k"
  let ?d = "expireIfNeeded ?t ?k db"
  let ?db1 = "?d\<lparr>Store := fmupd ?k (Itoa (wrap64 (x + m))) (Store ?d)\<rparr>"
  have one: "incrby e [k, a] db = (?db1, integer (wrap64 (x + m)))"
    using assms(1,3) by (simp add: incrby_def increment_def Let_def live_lookup_expireIfNeeded del: live_sel)
  have "expired ?t ?k ?db1 = expired ?t ?k ?d" by (simp add: expired_def)
  then have same: "expireIfNeeded ?t ?k ?db1 = ?db1"
    by (simp add: expireIfNeeded_eq [of ?t ?k ?db1] expired_expireIfNeeded)
  have w: "wrap64 (wrap64 (x + m) + wrap64 (- n)) = wrap64 (x + m - n)"
    by (simp add: wrap64_word)
  have "decrby e [k, b] ?db1 = (?db1\<lparr>Store := fmupd ?k (Itoa (wrap64 (x + m - n))) (Store ?db1)\<rparr>, integer (wrap64 (x + m - n)))"
    using assms(2) by (simp add: decrby_def increment_def Let_def same w)
  then show ?thesis by (simp add: one)
qed

theorem counter_arithmetic_witness:
  "let e = (env_at 0);
       (db1, r1) = incrby e [bulk ''k'', bulk ''9223372036854775807''] newDatabase; (db2, r2) = decrby e [bulk ''k'', bulk ''-1''] db1
   in r1 = integer 9223372036854775807 \<and> r2 = integer (-9223372036854775808)"
proof -
  let ?e = "env_at 0"
  have "Atoi ''9223372036854775807'' = Inr 9223372036854775807" "Atoi ''-1'' = Inr (-1)" "Atoi ''0'' = Inr 0"
    by code_simp+
  moreover have "fmlookup (Store (live (now ?e) newDatabase)) ''k'' = None" by (simp add: newDatabase_def)
  moreover have "wrap64 9223372036854775807 = 9223372036854775807" "wrap64 9223372036854775808 = -9223372036854775808"
    by code_simp+
  ultimately show ?thesis
    using counter_arithmetic [of "bulk ''9223372036854775807''" 9223372036854775807 "bulk ''-1''" "-1" ?e newDatabase "bulk ''k''" 0]
    by (simp add: case_prod_unfold Let_def)
qed

text \<open>
  \<open>DEL\<close> removes its keys, from every type, and only those: to a client the database afterwards is the
  one before with these keys evicted, no \<open>EXISTS\<close> finds them, and for one key the reply counts the
  types under which the key was stored.
\<close>

lemma del_removes:
  assumes "args \<noteq> []"
  shows "live (now e) (fst (del e args db)) = fold (\<lambda>a. evict (Str a)) args (live (now e) db) \<and>
    snd (exists e args (fst (del e args db))) = integer 0 \<and>
    snd (del e [k] db) = integer (copies (Str k) (live (now e) db))"
proof -
  have 1: "live (now e) (fst (del e args db)) = fold (\<lambda>a. evict (Str a)) args (live (now e) db)"
    using assms by (simp add: del_def case_prod_unfold live_del_loop Suc_le_eq)
  then have "copies (Str a) (live (now e) (fst (del e args db))) = 0" if "a \<in> set args" for a
    using that by (simp add: copies_fold_evict)
  then have "(\<Sum>a\<leftarrow>args. of_bool (0 < copies (Str a) (live (now e) (fst (del e args db)))) :: int) = 0"
    by (simp add: sum_list_0 cong: map_cong)
  then have "snd (exists e args (fst (del e args db))) = integer 0"
    using assms by (simp add: exists_def case_prod_unfold exists_loop_count Suc_le_eq)
  moreover have "snd (del e [k] db) = integer (copies (Str k) (live (now e) db))"
    by (simp add: del_def case_prod_unfold DeleteKey_count)
  ultimately show ?thesis using 1 by blast
qed

text \<open>
  Read your writes.  After \<open>SET\<close> the key reads as the new value, whatever it was and even if it had
  expired, and it no longer expires; every other key reads as before.
\<close>

lemma set_then_get:
  "snd (get e [k'] (fst (set_cmd e [k, v] db))) = (if Str k' = Str k then bulk (Str v) else snd (get e [k'] db)) \<and>
   fmlookup (Expires (fst (set_cmd e [k, v] db))) (Str k) = None"
  by (auto simp: get_def set_cmd_def Let_def expireIfNeeded_def evict_def split: option.splits)

text \<open>
  \<open>SET\<close> on a key that has expired but has not been evicted yet clears the expiry time without evicting the
  key: an old list at that key comes back to life.  At time 10 the list, whose time was 5, is invisible
  to \<open>LLEN\<close>; after a \<open>SET\<close> of the key it has its element again, and \<open>DEL\<close> counts two keys.
\<close>

lemma set_revives_expired_list:
  "let e = (env_at 10);
       db = newDatabase\<lparr>Lists := fmupd ''k'' [''old''] fmempty, Expires := fmupd ''k'' 5 fmempty\<rparr>
   in live (now e) db = newDatabase \<and>
      fmlookup (Lists (live (now e) (fst (set_cmd e [bulk ''k'', bulk ''v''] db)))) ''k'' = Some [''old''] \<and>
      snd (del e [bulk ''k''] (fst (set_cmd e [bulk ''k'', bulk ''v''] db))) = integer 2"
  by (auto simp: Let_def set_cmd_def del_def DeleteKey_count case_prod_unfold copies_def newDatabase_def expired_def
      intro!: Database_eqI)

end
