(* ===== verification/ListCommands.thy ===== *)
theory ListCommands
  imports StringCommands
begin

text \<open>
  The handlers of pkg/commands/list_commands.go.  The broadcast that wakes blocked poppers
  (\<open>signalListPush\<close>) changes no data and is not visible here.  A blocking pop runs one pass over
  its keys at a time: \<open>block_iter\<close> is one turn of the \<open>for\<close> loop of \<open>blockingPop\<close>, which either
  replies or parks the caller in \<open>waitForListSignal\<close> until the next turn.
\<close>

section \<open>Handlers\<close>

definition lpush :: handler where
  "lpush e args db =
     (if length args < 2 then (db, err ''ERR wrong number of arguments for 'lpush' command'')
      else
        let key = Str (args ! 0); values = map Str (drop 1 args);
            (db, l) = GetOrCreateList (now e) key db;
            (l, len) = LPush values l
        in (put_list key l db, integer len))"

definition rpush :: handler where
  "rpush e args db =
     (if length args < 2 then (db, err ''ERR wrong number of arguments for 'rpush' command'')
      else
        let key = Str (args ! 0); values = map Str (drop 1 args);
            (db, l) = GetOrCreateList (now e) key db;
            (l, len) = RPush values l
        in (put_list key l db, integer len))"

definition lpop :: handler where
  "lpop e args db =
     (if length args \<noteq> 1 then (db, err ''ERR wrong number of arguments for 'lpop' command'')
      else
        let key = Str (args ! 0) in
        case GetList (now e) key db of
          (db, None) \<Rightarrow> (db, null)
        | (db, Some l) \<Rightarrow>
            (case LPop l of
               (l, None) \<Rightarrow> (db, null)
             | (l, Some v) \<Rightarrow>
                 let db = put_list key l db;
                     db = (if LLen l = 0 then drop_list key db else db)
                 in (db, bulk v)))"

definition rpop :: handler where
  "rpop e args db =
     (if length args \<noteq> 1 then (db, err ''ERR wrong number of arguments for 'rpop' command'')
      else
        let key = Str (args ! 0) in
        case GetList (now e) key db of
          (db, None) \<Rightarrow> (db, null)
        | (db, Some l) \<Rightarrow>
            (case RPop l of
               (l, None) \<Rightarrow> (db, null)
             | (l, Some v) \<Rightarrow>
                 let db = put_list key l db;
                     db = (if LLen l = 0 then drop_list key db else db)
                 in (db, bulk v)))"

definition lrange :: handler where
  "lrange e args db =
     (if length args \<noteq> 3 then (db, err ''ERR wrong number of arguments for 'lrange' command'')
      else
        let key = Str (args ! 0) in
        case (Atoi (Str (args ! 1)), Atoi (Str (args ! 2))) of
          (Inr start, Inr stop) \<Rightarrow>
            (case GetList (now e) key db of
               (db, None) \<Rightarrow> (db, array [])
             | (db, Some l) \<Rightarrow> (db, array (map bulk (LRange start stop l))))
        | _ \<Rightarrow> (db, not_an_integer))"

definition llen :: handler where
  "llen e args db =
     (if length args \<noteq> 1 then (db, err ''ERR wrong number of arguments for 'llen' command'')
      else case GetList (now e) (Str (args ! 0)) db of
        (db, None) \<Rightarrow> (db, integer 0)
      | (db, Some l) \<Rightarrow> (db, integer (LLen l)))"

definition lindex :: handler where
  "lindex e args db =
     (if length args \<noteq> 2 then (db, err ''ERR wrong number of arguments for 'lindex' command'')
      else
        let key = Str (args ! 0) in
        case Atoi (Str (args ! 1)) of
          Inl _ \<Rightarrow> (db, not_an_integer)
        | Inr index \<Rightarrow>
            (case GetList (now e) key db of
               (db, None) \<Rightarrow> (db, null)
             | (db, Some l) \<Rightarrow>
                 (case LIndex index l of None \<Rightarrow> (db, null) | Some v \<Rightarrow> (db, bulk v))))"

definition lset :: handler where
  "lset e args db =
     (if length args \<noteq> 3 then (db, err ''ERR wrong number of arguments for 'lset' command'')
      else
        let key = Str (args ! 0) in
        case Atoi (Str (args ! 1)) of
          Inl _ \<Rightarrow> (db, not_an_integer)
        | Inr index \<Rightarrow>
            let v = Str (args ! 2) in
            (case GetList (now e) key db of
               (db, None) \<Rightarrow> (db, err ''ERR no such key'')
             | (db, Some l) \<Rightarrow>
                 (case LSet index v l of
                    (l, False) \<Rightarrow> (db, err ''ERR index out of range'')
                  | (l, True) \<Rightarrow> (put_list key l db, simple ''OK''))))"

definition lrem :: handler where
  "lrem e args db =
     (if length args \<noteq> 3 then (db, err ''ERR wrong number of arguments for 'lrem' command'')
      else
        let key = Str (args ! 0) in
        case Atoi (Str (args ! 1)) of
          Inl _ \<Rightarrow> (db, not_an_integer)
        | Inr cnt \<Rightarrow>
            let v = Str (args ! 2) in
            (case GetList (now e) key db of
               (db, None) \<Rightarrow> (db, integer 0)
             | (db, Some l) \<Rightarrow>
                 let (l, removed) = LRem cnt v l;
                     db = put_list key l db;
                     db = (if LLen l = 0 then drop_list key db else db)
                 in (db, integer removed)))"

section \<open>Blocking pops\<close>

fun pop_first :: "bool \<Rightarrow> int \<Rightarrow> string list \<Rightarrow> Database \<Rightarrow> Database \<times> (string \<times> string) option" where
  "pop_first left t [] db = (db, None)"
| "pop_first left t (key # keys) db =
     (case GetList t key db of
        (db, None) \<Rightarrow> pop_first left t keys db
      | (db, Some l) \<Rightarrow>
          (case (if left then LPop l else RPop l) of
             (l, None) \<Rightarrow> pop_first left t keys db
           | (l, Some v) \<Rightarrow>
               let db = put_list key l db;
                   db = (if LLen l = 0 then drop_list key db else db)
               in (db, Some (key, v))))"

datatype blocking = Replied Database Value | Parked Database "int option"

definition block_iter :: "bool \<Rightarrow> int \<Rightarrow> string list \<Rightarrow> int option \<Rightarrow> Database \<Rightarrow> blocking" where
  "block_iter left t keys deadline db =
     (case pop_first left t keys db of
        (db, Some (key, v)) \<Rightarrow> Replied db (array [bulk key, bulk v])
      | (db, None) \<Rightarrow>
          (case deadline of
             Some dl \<Rightarrow> if t > dl then Replied db null else Parked db deadline
           | None \<Rightarrow> Parked db deadline))"

definition blockingPop :: "env \<Rightarrow> Value list \<Rightarrow> Database \<Rightarrow> bool \<Rightarrow> blocking" where
  "blockingPop e args db left =
     (if length args < 2 then Replied db (err ''ERR wrong number of arguments for 'blpop' command'')
      else
        let keys = map Str (take (length args - 1) args) in
        case ParseFloat e (Str (args ! (length args - 1))) of
          None \<Rightarrow> Replied db (err ''ERR timeout is not a float or out of range'')
        | Some Negative \<Rightarrow> Replied db (err ''ERR timeout is not a float or out of range'')
        | Some ZeroOrNaN \<Rightarrow> block_iter left (now e) keys None db
        | Some (Positive ns) \<Rightarrow> block_iter left (now e) keys (Some (now e + ns)) db)"

definition blpop :: "env \<Rightarrow> Value list \<Rightarrow> Database \<Rightarrow> blocking" where
  "blpop e args db = blockingPop e args db True"

definition brpop :: "env \<Rightarrow> Value list \<Rightarrow> Database \<Rightarrow> blocking" where
  "brpop e args db = blockingPop e args db False"

section \<open>The handlers meet their contracts\<close>

text \<open>The pops and \<open>LREM\<close> store what is left of the list and delete the key when nothing is.\<close>

lemma store_list_cases:
  "(if LLen l = 0 then drop_list k (put_list k l db) else put_list k l db) =
   (if l = [] then drop_list k db else put_list k l db)"
  by (simp add: LLen_def fmdrop_fmupd_same)

lemma db_wf_store_list [db_inv]:
  "db_wf db \<Longrightarrow> db_wf (if l = [] then drop_list k db else put_list k l db)"
  by (simp add: db_inv)

lemma put_fresh_list [simp]:
  "put_list k l (put_list k l' db) = put_list k l db"
  by simp

lemmas list_defs = Let_def lists.look lists.create store_list_cases live_lookup_expireIfNeeded case_prod_unfold

interpretation lpush: data_command lpush
  by unfold_locales
    (auto simp: lpush_def list_defs left.push_Nil_iff intro!: db_inv split: option.splits)

interpretation rpush: data_command rpush
  by unfold_locales
    (auto simp: rpush_def list_defs right.push_Nil_iff intro!: db_inv split: option.splits)

interpretation lpop: data_command lpop
  by unfold_locales
    (auto simp: lpop_def list_defs intro!: db_inv split: option.splits)

interpretation rpop: data_command rpop
  by unfold_locales
    (auto simp: rpop_def list_defs intro!: db_inv split: option.splits)

interpretation lrange: data_command lrange
  by unfold_locales
    (auto simp: lrange_def list_defs not_an_integer_def intro!: db_inv split: option.splits sum.splits)

interpretation llen: data_command llen
  by unfold_locales
    (auto simp: llen_def list_defs intro!: db_inv split: option.splits)

interpretation lindex: data_command lindex
  by unfold_locales
    (auto simp: lindex_def list_defs not_an_integer_def intro!: db_inv split: option.splits sum.splits)

interpretation lrem: data_command lrem
  by unfold_locales
    (auto simp: lrem_def list_defs not_an_integer_def intro!: db_inv split: option.splits sum.splits)

lemma LSet_Nil_iff [simp]: "fst (LSet i v l) = [] \<longleftrightarrow> l = []"
  by (metis length_0_conv length_LSet)

lemma LSet_on_Nil [simp]: "\<not> snd (LSet i v [])"
  by (simp add: LSet_def Let_def)

interpretation lset: data_command lset
  by unfold_locales
    (auto simp: lset_def list_defs not_an_integer_def intro!: db_inv split: option.splits sum.splits bool.splits)

section \<open>Pushing and popping\<close>

abbreviation list_at :: "int \<Rightarrow> string \<Rightarrow> Database \<Rightarrow> List option" where
  "list_at t k db \<equiv> fmlookup (Lists (live t db)) k"

definition list_of :: "List option \<Rightarrow> List" where
  "list_of l = (case l of None \<Rightarrow> [] | Some l \<Rightarrow> l)"

lemma push_eq:
  "vs \<noteq> [] \<Longrightarrow> lpush e (k # vs) db =
     (let d = expireIfNeeded (now e) (Str k) db; l = rev (map Str vs) @ list_of (list_at (now e) (Str k) db)
      in (put_list (Str k) l d, integer (int (length l))))"
  "vs \<noteq> [] \<Longrightarrow> rpush e (k # vs) db =
     (let d = expireIfNeeded (now e) (Str k) db; l = list_of (list_at (now e) (Str k) db) @ map Str vs
      in (put_list (Str k) l d, integer (int (length l))))"
  by (cases vs; auto simp: lpush_def rpush_def list_defs LPush_def RPush_def list_of_def NewList_def split: option.splits)+

lemma list_at_present [simp]: "\<not> expired t k d \<Longrightarrow> fmlookup (Lists d) k = Some l \<Longrightarrow> list_at t k d = Some l"
  by simp

lemma pop_reply:
  "db_wf db \<Longrightarrow> snd (lpop e [k] db) = (case list_at (now e) (Str k) db of None \<Rightarrow> null | Some l \<Rightarrow> bulk (hd l))"
  "db_wf db \<Longrightarrow> snd (rpop e [k] db) = (case list_at (now e) (Str k) db of None \<Rightarrow> null | Some l \<Rightarrow> bulk (last l))"
  by (auto simp: lpop_def rpop_def list_defs LPop_def RPop_def db_wf_def hd_conv_nth last_conv_nth
      dest!: fmpredD split: option.splits)

lemma pop_list:
  "db_wf db \<Longrightarrow> list_of (list_at (now e) (Str k) (fst (lpop e [k] db))) = tl (list_of (list_at (now e) (Str k) db))"
  "db_wf db \<Longrightarrow> list_of (list_at (now e) (Str k) (fst (rpop e [k] db))) = butlast (list_of (list_at (now e) (Str k) db))"
  by (auto simp: lpop_def rpop_def list_defs LPop_def RPop_def db_wf_def list_of_def drop_Suc butlast_conv_take
     split: option.splits)

section \<open>Blocking pops\<close>

lemma list_at_nonempty: "db_wf db \<Longrightarrow> list_at t k db \<noteq> Some []"
  by (auto simp: db_wf_def)

text \<open>One pass pops from the first key that holds a list, exactly as the plain pop would.\<close>

definition pop_pass :: "bool \<Rightarrow> int \<Rightarrow> string list \<Rightarrow> Database \<Rightarrow> Database \<times> (string \<times> string) option \<Rightarrow> bool" where
  "pop_pass left t keys db r \<longleftrightarrow>
     (case r of
        (d, None) \<Rightarrow> live t d = live t db \<and> db_wf d \<and> (\<forall>k\<in>set keys. list_at t k db = None)
      | (d, Some (k, v)) \<Rightarrow>
          \<exists>pre post d0. keys = pre @ k # post \<and> (\<forall>k'\<in>set pre. list_at t k' db = None) \<and>
            db_wf d0 \<and> live t d0 = live t db \<and>
            (\<forall>e. now e = t \<longrightarrow> (d, bulk v) = (if left then lpop else rpop) e [bulk k] d0))"

lemma pop_pass_SomeI:
  assumes "\<forall>k'\<in>set pre. list_at t k' db = None" and "db_wf d0" and "live t d0 = live t db"
    and "\<And>e. now e = t \<Longrightarrow> (d, bulk v) = (if left then lpop else rpop) e [bulk k] d0"
  shows "pop_pass left t (pre @ k # post) db (d, Some (k, v))"
  unfolding pop_pass_def prod.case option.case using assms by blast

lemma pop_pass_skip:
  assumes "list_at t key db = None" and "live t d = live t db" and "pop_pass left t keys d r"
  shows "pop_pass left t (key # keys) db r"
proof (cases r)
  case (Pair d' res)
  show ?thesis
  proof (cases res)
    case None
    then show ?thesis using assms Pair by (simp add: pop_pass_def)
  next
    case (Some kv)
    then obtain k v where kv: "res = Some (k, v)" by (cases kv) auto
    with Pair assms(3) obtain pre post d0 where "keys = pre @ k # post"
      "\<forall>k'\<in>set pre. list_at t k' d = None" "db_wf d0" "live t d0 = live t d"
      "\<forall>e. now e = t \<longrightarrow> (d', bulk v) = (if left then lpop else rpop) e [bulk k] d0"
      by (auto simp: pop_pass_def)
    then show ?thesis using assms(1,2) Pair kv
      pop_pass_SomeI [of "key # pre" t db d0 d' v left k post] by simp
  qed
qed

lemma pop_first_hit:
  assumes "list_at t key db = Some l" and "l \<noteq> []" and "now e = t"
  shows "\<exists>d v. pop_first left t (key # keys) db = (d, Some (key, v)) \<and>
    (if left then lpop else rpop) e [bulk key] db = (d, bulk v)"
  using assms
  by (cases left) (simp_all add: list_defs lpop_def rpop_def LPop_def RPop_def del: live_sel)

lemma pop_first_spec: "db_wf db \<Longrightarrow> pop_pass left t keys db (pop_first left t keys db)"
proof (induction keys arbitrary: db)
  case Nil
  then show ?case by (simp add: pop_pass_def)
next
  case (Cons key keys)
  define d where "d = expireIfNeeded t key db"
  have d: "db_wf d" "live t d = live t db" using Cons.prems by (simp_all add: d_def db_inv)
  show ?case
  proof (cases "list_at t key db")
    case None
    then have "pop_first left t (key # keys) db = pop_first left t keys d"
      by (simp add: list_defs d_def)
    with None d Cons.IH [of d] show ?thesis by (simp add: pop_pass_skip)
  next
    case (Some l)
    then have l: "l \<noteq> []" using list_at_nonempty Cons.prems by blast
    from pop_first_hit [OF Some l, of _ left keys]
    have hit: "now e = t \<Longrightarrow> \<exists>d v. pop_first left t (key # keys) db = (d, Some (key, v)) \<and>
      (if left then lpop else rpop) e [bulk key] db = (d, bulk v)" for e by simp
    obtain d' v where r: "pop_first left t (key # keys) db = (d', Some (key, v))"
      using hit [of "(env_at t)"]
      by auto
    with hit show ?thesis
      using pop_pass_SomeI [of "[]" t db db d' v left key keys] Cons.prems by fastforce
  qed
qed

text \<open>A turn of the loop parks the caller only when none of the keys holds a list.\<close>

lemma block_iter_parks:
  assumes "db_wf db"
  shows "block_iter left t keys dl db = Parked d dl' \<Longrightarrow>
      dl' = dl \<and> live t d = live t db \<and> (\<forall>k\<in>set keys. list_at t k db = None)"
    and "(\<exists>k\<in>set keys. list_at t k db \<noteq> None) \<Longrightarrow> \<exists>d k v. block_iter left t keys dl db = Replied d (array [bulk k, bulk v])"
  using pop_first_spec [OF assms, of left t keys]
  by (auto simp: block_iter_def pop_pass_def split: prod.splits option.splits if_splits)

text \<open>Once the deadline has passed a turn always replies.\<close>

lemma block_iter_deadline: "dl < t \<Longrightarrow> \<exists>d v. block_iter left t keys (Some dl) db = Replied d v"
  by (auto simp: block_iter_def split: prod.splits option.splits)

section \<open>Properties of the list commands\<close>

text \<open>
  A list is a queue.  \<open>RPUSH\<close> of values to a key and then an \<open>LPOP\<close> returns the oldest element of the
  list, and the list keeps the rest in order: the elements come out in the order they went in.  The push
  reports the new length, and no element is lost or duplicated.
\<close>

lemma rpush_lpop_fifo:
  assumes "db_wf db" and "vs \<noteq> []" and "now e' = now e"
  shows "let old = list_of (list_at (now e) (Str k) db); (db1, n) = rpush e (k # vs) db; (db2, r) = lpop e' [k] db1
    in n = integer (int (length old + length vs)) \<and> r = bulk (hd (old @ map Str vs)) \<and>
       list_of (list_at (now e) (Str k) db2) = tl (old @ map Str vs)"
proof -
  let ?old = "list_of (list_at (now e) (Str k) db)"
  obtain db1 n where push: "rpush e (k # vs) db = (db1, n)" by force
  have wf: "db_wf db1" and at: "list_at (now e) (Str k) db1 = Some (?old @ map Str vs)"
    and n: "n = integer (int (length ?old + length vs))"
    using push assms(1,2) by (auto simp: push_eq Let_def db_inv)
  have "snd (lpop e' [k] db1) = bulk (hd (?old @ map Str vs))"
    using pop_reply(1) [OF wf, of e' k] at assms(3) by (simp del: live_sel)
  moreover have "list_of (list_at (now e) (Str k) (fst (lpop e' [k] db1))) = tl (?old @ map Str vs)"
    using pop_list(1) [OF wf, of e' k] at assms(3) by (simp add: list_of_def del: live_sel)
  ultimately show ?thesis using n by (simp add: push case_prod_unfold Let_def del: live_sel)
qed

text \<open>
  A list is a stack at either end.  \<open>LPUSH\<close> followed by \<open>LPOP\<close>, and \<open>RPUSH\<close> followed by \<open>RPOP\<close>,
  return the value pushed last and leave the list as pushing the others would have.
\<close>

lemma push_pop_lifo:
  "LPop (fst (LPush (vs @ [v]) l)) = (fst (LPush vs l), Some v) \<and>
   RPop (fst (RPush (vs @ [v]) l)) = (fst (RPush vs l), Some v) \<and>
   (snd (LPop l) = None \<longleftrightarrow> l = []) \<and> (snd (RPop l) = None \<longleftrightarrow> l = [])"
  using left.pop_push right.pop_push left.pop_None_iff right.pop_None_iff by simp

text \<open>
  C20.  A turn of a blocking pop serves the first key that has data.  If some of its keys holds a list the turn
  replies with a key and a value; that key is the first one with a list, and the value and the new
  database are those of a plain \<open>LPOP\<close> or \<open>RPOP\<close> of that key.
\<close>

theorem blocking_pop_serves_first_key:
  assumes "db_wf db" and "k \<in> set keys" and "list_at (now e) k db \<noteq> None"
  shows "\<exists>pre k' post v d d0. keys = pre @ k' # post \<and> (list_all (\<lambda>k. list_at (now e) k db = None) pre) \<and>
    block_iter left (now e) keys dl db = Replied d (array [bulk k', bulk v]) \<and>
    live (now e) d0 = live (now e) db \<and> (if left then lpop else rpop) e [bulk k'] d0 = (d, bulk v)"
proof -
  have spec: "pop_pass left (now e) keys db (pop_first left (now e) keys db)"
    using assms(1) by (rule pop_first_spec)
  obtain d r where pf: "pop_first left (now e) keys db = (d, r)" by force
  have "r \<noteq> None"
    using spec assms(2,3) unfolding pf pop_pass_def by (cases r) (auto simp del: live_sel)
  then obtain k' v where r: "r = Some (k', v)" by auto
  obtain pre post d0 where "keys = pre @ k' # post" "\<forall>k''\<in>set pre. list_at (now e) k'' db = None"
    "live (now e) d0 = live (now e) db" "(d, bulk v) = (if left then lpop else rpop) e [bulk k'] d0"
    using spec unfolding pf r pop_pass_def prod.case option.case by blast
  moreover have "block_iter left (now e) keys dl db = Replied d (array [bulk k', bulk v])"
    by (simp add: block_iter_def pf r)
  ultimately show ?thesis unfolding list_all_iff by fastforce
qed

theorem blocking_pop_serves_first_key_witness:
  "\<exists>d k v. k \<in> set [''x'', ''q''] \<and>
     block_iter True 0 [''x'', ''q''] None (newDatabase\<lparr>Lists := fmupd ''q'' [''a'', ''b''] fmempty\<rparr>) =
     Replied d (array [bulk k, bulk v])"
proof -
  let ?db = "newDatabase\<lparr>Lists := fmupd ''q'' [''a'', ''b''] fmempty\<rparr>"
  let ?e = "env_at 0"
  have "db_wf ?db" "list_at (now ?e) ''q'' ?db \<noteq> None" "list_at (now ?e) ''x'' ?db = None"
    by (auto simp: db_wf_def newDatabase_def expired_def)
  with blocking_pop_serves_first_key [of ?db "''q''" "[''x'', ''q'']" ?e True None]
  show ?thesis by (fastforce simp del: live_sel)
qed

text \<open>
  A blocking pop parks its caller only when none of its keys holds a list and the deadline, if
  there is one, has not passed; parking changes nothing a client can see.  After the deadline the turn
  always replies, with null if there is still no data.
\<close>

lemma blocking_pop_parks:
  assumes "db_wf db"
  shows "case block_iter left t keys dl db of
      Parked d dl' \<Rightarrow> dl' = dl \<and> live t d = live t db \<and> list_all (\<lambda>k. list_at t k db = None) keys \<and>
        (case dl of None \<Rightarrow> True | Some x \<Rightarrow> t \<le> x)
    | Replied d v \<Rightarrow> v = null \<and> live t d = live t db \<and> (case dl of None \<Rightarrow> False | Some x \<Rightarrow> x < t) \<or>
        (\<exists>k x. k \<in> set keys \<and> v = array [bulk k, bulk x])"
  using pop_first_spec [OF assms, of left t keys]
  by (auto simp: block_iter_def pop_pass_def list_all_iff split: prod.splits option.splits if_splits)

end
