(* ===== verification/SetCommands.thy ===== *)
theory SetCommands
  imports ListCommands
begin

text \<open>
  The handlers of pkg/commands/set_commands.go.  The loops that collect the further operands of
  \<open>SINTER\<close>, \<open>SUNION\<close> and \<open>SDIFF\<close> look every key up in turn, so each look-up may evict its key;
  \<open>SINTER\<close> returns at the first key that is missing.
\<close>

section \<open>Handlers\<close>

definition sadd :: handler where
  "sadd e args db =
     (if length args < 2 then (db, err ''ERR wrong number of arguments for 'sadd' command'')
      else
        let key = Str (args ! 0); members = map Str (drop 1 args);
            (db, s) = GetOrCreateSet (now e) key db;
            (s, added) = SAdd members s
        in (put_set key s db, integer added))"

definition srem :: handler where
  "srem e args db =
     (if length args < 2 then (db, err ''ERR wrong number of arguments for 'srem' command'')
      else
        let key = Str (args ! 0) in
        case GetSet (now e) key db of
          (db, None) \<Rightarrow> (db, integer 0)
        | (db, Some s) \<Rightarrow>
            let members = map Str (drop 1 args);
                (s, removed) = SRem members s;
                db = put_set key s db;
                db = (if SCard s = 0 then drop_set key db else db)
            in (db, integer removed))"

definition sismember :: handler where
  "sismember e args db =
     (if length args \<noteq> 2 then (db, err ''ERR wrong number of arguments for 'sismember' command'')
      else
        let key = Str (args ! 0); member = Str (args ! 1) in
        case GetSet (now e) key db of
          (db, None) \<Rightarrow> (db, integer 0)
        | (db, Some s) \<Rightarrow> if SIsMember member s then (db, integer 1) else (db, integer 0))"

definition smembers :: handler where
  "smembers e args db =
     (if length args \<noteq> 1 then (db, err ''ERR wrong number of arguments for 'smembers' command'')
      else case GetSet (now e) (Str (args ! 0)) db of
        (db, None) \<Rightarrow> (db, array [])
      | (db, Some s) \<Rightarrow> (db, array (map bulk (SMembers (map_order e) s))))"

definition scard :: handler where
  "scard e args db =
     (if length args \<noteq> 1 then (db, err ''ERR wrong number of arguments for 'scard' command'')
      else case GetSet (now e) (Str (args ! 0)) db of
        (db, None) \<Rightarrow> (db, integer 0)
      | (db, Some s) \<Rightarrow> (db, integer (SCard s)))"

definition spop :: handler where
  "spop e args db =
     (if length args \<noteq> 1 then (db, err ''ERR wrong number of arguments for 'spop' command'')
      else
        let key = Str (args ! 0) in
        case GetSet (now e) key db of
          (db, None) \<Rightarrow> (db, null)
        | (db, Some s) \<Rightarrow>
            (case SPop (map_order e) s of
               (s, None) \<Rightarrow> (db, null)
             | (s, Some member) \<Rightarrow>
                 let db = put_set key s db;
                     db = (if SCard s = 0 then drop_set key db else db)
                 in (db, bulk member)))"

fun inter_sets :: "int \<Rightarrow> Value list \<Rightarrow> Database \<Rightarrow> Set list \<Rightarrow> Database \<times> Set list option" where
  "inter_sets t [] db otherSets = (db, Some otherSets)"
| "inter_sets t (arg # args) db otherSets =
     (case GetSet t (Str arg) db of
        (db, None) \<Rightarrow> (db, None)
      | (db, Some s) \<Rightarrow> inter_sets t args db (otherSets @ [s]))"

fun other_sets :: "int \<Rightarrow> Value list \<Rightarrow> Database \<Rightarrow> Set list \<Rightarrow> Database \<times> Set list" where
  "other_sets t [] db otherSets = (db, otherSets)"
| "other_sets t (arg # args) db otherSets =
     (case GetSet t (Str arg) db of
        (db, None) \<Rightarrow> other_sets t args db otherSets
      | (db, Some s) \<Rightarrow> other_sets t args db (otherSets @ [s]))"

definition sinter :: handler where
  "sinter e args db =
     (if length args < 1 then (db, err ''ERR wrong number of arguments for 'sinter' command'')
      else case GetSet (now e) (Str (args ! 0)) db of
        (db, None) \<Rightarrow> (db, array [])
      | (db, Some firstSet) \<Rightarrow>
          (case inter_sets (now e) (drop 1 args) db [] of
             (db, None) \<Rightarrow> (db, array [])
           | (db, Some otherSets) \<Rightarrow> (db, array (map bulk (SInter (map_order e) firstSet otherSets)))))"

definition sunion :: handler where
  "sunion e args db =
     (if length args < 1 then (db, err ''ERR wrong number of arguments for 'sunion' command'')
      else case GetSet (now e) (Str (args ! 0)) db of
        (db, found) \<Rightarrow>
          let firstSet = (case found of Some s \<Rightarrow> s | None \<Rightarrow> NewSet);
              (db, otherSets) = other_sets (now e) (drop 1 args) db []
          in (db, array (map bulk (SUnion (map_order e) firstSet otherSets))))"

definition sdiff :: handler where
  "sdiff e args db =
     (if length args < 1 then (db, err ''ERR wrong number of arguments for 'sdiff' command'')
      else case GetSet (now e) (Str (args ! 0)) db of
        (db, None) \<Rightarrow> (db, array [])
      | (db, Some firstSet) \<Rightarrow>
          let (db, otherSets) = other_sets (now e) (drop 1 args) db []
          in (db, array (map bulk (SDiff (map_order e) firstSet otherSets))))"

section \<open>The handlers meet their contracts\<close>

lemma store_set_cases:
  "(if SCard s = 0 then drop_set k (put_set k s db) else put_set k s db) =
   (if s = {||} then drop_set k db else put_set k s db)"
  by (simp add: SCard_def fmdrop_fmupd_same)

lemma db_wf_store_set [db_inv]:
  "db_wf db \<Longrightarrow> db_wf (if s = {||} then drop_set k db else put_set k s db)"
  by (simp add: db_inv)

lemmas set_defs = Let_def sets.look sets.create store_set_cases live_lookup_expireIfNeeded case_prod_unfold

abbreviation set_at :: "int \<Rightarrow> string \<Rightarrow> Database \<Rightarrow> Set option" where
  "set_at t k db \<equiv> fmlookup (Sets (live t db)) k"

text \<open>What the collecting loops return, in terms of the visible database.\<close>

lemma inter_sets_eq:
  "snd (inter_sets t args db acc) =
     map_option ((@) acc) (those (map (\<lambda>a. set_at t (Str a) db) args))"
  "live t (fst (inter_sets t args db acc)) = live t db"
  "db_wf db \<Longrightarrow> db_wf (fst (inter_sets t args db acc))"
  "Expires db = fmempty \<Longrightarrow> fst (inter_sets t args db acc) = db"
  by (induction t args db acc rule: inter_sets.induct)
    (auto simp: set_defs db_inv option.map_comp o_def fun_eq_iff simp del: live_sel
      intro!: arg_cong2 [where f = map_option] split: option.splits)

lemma other_sets_eq:
  "snd (other_sets t args db acc) = acc @ List.map_filter (\<lambda>a. set_at t (Str a) db) args"
  "live t (fst (other_sets t args db acc)) = live t db"
  "db_wf db \<Longrightarrow> db_wf (fst (other_sets t args db acc))"
  "Expires db = fmempty \<Longrightarrow> fst (other_sets t args db acc) = db"
  by (induction t args db acc rule: other_sets.induct)
    (auto simp: set_defs db_inv List.map_filter_simps simp del: live_sel split: option.splits)

interpretation sadd: data_command sadd
proof unfold_locales
  show "db_wf (fst (sadd e args db))" if "fair (map_order e)" "db_wf db" for e args db
    using that by (cases args; cases "tl args")
      (auto simp: sadd_def set_defs SAdd_eq intro!: db_inv split: option.splits)
qed (auto simp: sadd_def set_defs split: option.splits)

interpretation srem: data_command srem
  by unfold_locales (auto simp: srem_def set_defs intro!: db_inv split: option.splits)

interpretation sismember: data_command sismember
  by unfold_locales (auto simp: sismember_def set_defs intro!: db_inv split: option.splits)

interpretation smembers: data_command smembers
  by unfold_locales (auto simp: smembers_def set_defs intro!: db_inv split: option.splits)

interpretation scard: data_command scard
  by unfold_locales (auto simp: scard_def set_defs intro!: db_inv split: option.splits)

interpretation spop: data_command spop
  by unfold_locales (auto simp: spop_def set_defs intro!: db_inv split: option.splits)

interpretation sinter: data_command sinter
  by unfold_locales
    (auto simp: sinter_def set_defs inter_sets_eq db_inv simp del: live_sel split: option.splits)

interpretation sunion: data_command sunion
  by unfold_locales (auto simp: sunion_def set_defs other_sets_eq db_inv simp del: live_sel)

interpretation sdiff: data_command sdiff
  by unfold_locales (auto simp: sdiff_def set_defs other_sets_eq db_inv simp del: live_sel split: option.splits)

section \<open>Set algebra of the replies\<close>

definition set_of :: "Set option \<Rightarrow> string set" where
  "set_of s = (case s of None \<Rightarrow> {} | Some s \<Rightarrow> fset s)"

abbreviation members :: "env \<Rightarrow> Database \<Rightarrow> Value \<Rightarrow> string set" where
  "members e db a \<equiv> set_of (set_at (now e) (Str a) db)"

lemma those_Some_iff: "those xs = Some ys \<longleftrightarrow> xs = map Some ys"
  by (induction xs arbitrary: ys) (auto split: option.splits)

lemma those_None_iff: "those xs = None \<longleftrightarrow> None \<in> set xs"
  by (induction xs) (auto split: option.splits)

lemma UN_map_filter_set_of: "(\<Union>s\<in>set (List.map_filter f xs). fset s) = (\<Union>x\<in>set xs. set_of (f x))"
  by (induction xs) (auto simp: List.map_filter_simps set_of_def split: option.splits)

lemma set_of_simps [simp]: "set_of None = {}" "set_of (Some s) = fset s"
  by (simp_all add: set_of_def)

lemma INT_map_Some: "map f xs = map Some ys \<Longrightarrow> (\<Inter>x\<in>set xs. set_of (f x)) = (\<Inter>s\<in>set ys. fset s)"
proof -
  assume "map f xs = map Some ys"
  then have "f ` set xs = Some ` set ys" by (metis list.set_map)
  moreover have "(\<Inter>x\<in>set xs. set_of (f x)) = (\<Inter>r\<in>f ` set xs. set_of r)" by simp
  ultimately show ?thesis by simp
qed

lemma sdiff_reply:
  assumes "fair (map_order e)"
  shows "\<exists>ms. snd (sdiff e (a # args) db) = array (map bulk ms) \<and> distinct ms \<and>
    set ms = members e db a - (\<Union>b\<in>set args. members e db b)"
proof (cases "set_at (now e) (Str a) db")
  case None
  then show ?thesis
    by (intro exI [of _ "[]"]) (simp add: sdiff_def set_defs set_of_def del: live_sel)
next
  case (Some s)
  let ?others = "List.map_filter (\<lambda>b. set_at (now e) (Str b) db) args"
  have "snd (sdiff e (a # args) db) = array (map bulk (SDiff (map_order e) s ?others))"
    using Some by (simp add: sdiff_def set_defs other_sets_eq del: live_sel)
  moreover have "set (SDiff (map_order e) s ?others) = members e db a - (\<Union>b\<in>set args. members e db b)"
    using assms Some by (simp add: SDiff_set UN_map_filter_set_of del: live_sel)
  ultimately show ?thesis using assms by (blast intro: set_algebra_distinct)
qed

lemma sunion_reply:
  assumes "fair (map_order e)"
  shows "\<exists>ms. snd (sunion e (a # args) db) = array (map bulk ms) \<and> distinct ms \<and>
    set ms = (\<Union>b\<in>set (a # args). members e db b)"
proof -
  let ?others = "List.map_filter (\<lambda>b. set_at (now e) (Str b) db) args"
  define s where "s = (case set_at (now e) (Str a) db of Some s \<Rightarrow> s | None \<Rightarrow> NewSet)"
  have s: "fset s = members e db a" by (simp add: s_def set_of_def NewSet_def del: live_sel split: option.splits)
  have "snd (sunion e (a # args) db) = array (map bulk (SUnion (map_order e) s ?others))"
    by (simp add: sunion_def set_defs other_sets_eq s_def del: live_sel)
  moreover have "set (SUnion (map_order e) s ?others) = (\<Union>b\<in>set (a # args). members e db b)"
    using assms by (simp add: SUnion_set s UN_map_filter_set_of del: live_sel)
  ultimately show ?thesis using assms by (blast intro: set_algebra_distinct)
qed

lemma sinter_reply:
  assumes "fair (map_order e)"
  shows "\<exists>ms. snd (sinter e (a # args) db) = array (map bulk ms) \<and> distinct ms \<and>
    set ms = (\<Inter>b\<in>set (a # args). members e db b)"
proof (cases "those (map (\<lambda>b. set_at (now e) (Str b) db) (a # args))")
  case None
  then obtain b where "b \<in> set (a # args)" "set_at (now e) (Str b) db = None"
    unfolding those_None_iff by (metis (no_types, lifting) imageE list.set_map)
  then have "(\<Inter>b\<in>set (a # args). members e db b) = {}"
    by (fastforce simp: set_of_def simp del: live_sel)
  moreover have "snd (sinter e (a # args) db) = array []"
    using None by (auto simp: sinter_def set_defs inter_sets_eq simp del: live_sel split: option.splits)
  ultimately show ?thesis by (metis distinct.simps(1) empty_set list.map_disc_iff)
next
  case (Some ss)
  then obtain s others where ss: "ss = s # others" "set_at (now e) (Str a) db = Some s"
    "those (map (\<lambda>b. set_at (now e) (Str b) db) args) = Some others"
    by (auto simp del: live_sel split: option.splits)
  have "snd (sinter e (a # args) db) = array (map bulk (SInter (map_order e) s others))"
    using ss by (simp add: sinter_def set_defs inter_sets_eq del: live_sel)
  moreover have "set (SInter (map_order e) s others) = (\<Inter>b\<in>set (a # args). members e db b)"
    using assms INT_map_Some [OF Some [unfolded those_Some_iff]] ss(1)
    by (auto simp: SInter_set simp del: live_sel)
  ultimately show ?thesis using assms by (blast intro: set_algebra_distinct)
qed

section \<open>Properties of the set commands\<close>

text \<open>
  C22.  \<open>SINTER\<close>, \<open>SUNION\<close> and \<open>SDIFF\<close> reply with the intersection, the union and the difference of the
  sets at the given keys, a missing or expired key being the empty set, each member once, in whatever
  order the maps are visited.
\<close>

theorem set_algebra_replies:
  assumes "fair (map_order e)"
  shows "\<exists>is us ds. snd (sinter e (a # args) db) = array (map bulk is) \<and>
    snd (sunion e (a # args) db) = array (map bulk us) \<and> snd (sdiff e (a # args) db) = array (map bulk ds) \<and>
    distinct is \<and> distinct us \<and> distinct ds \<and>
    set is = (\<Inter>b\<in>set (a # args). members e db b) \<and> set us = (\<Union>b\<in>set (a # args). members e db b) \<and>
    set ds = members e db a - (\<Union>b\<in>set args. members e db b)"
  using sinter_reply [OF assms, of a args db] sunion_reply [OF assms, of a args db] sdiff_reply [OF assms, of a args db]
  by metis

theorem set_algebra_replies_witness:
  "\<exists>is. set is = {''b''} \<and> snd (sinter ((env_at 0)\<lparr>map_order := rev\<rparr>) [bulk ''x'', bulk ''y'']
     (newDatabase\<lparr>Sets := fmupd ''x'' {|''a'', ''b''|} (fmupd ''y'' {|''b'', ''c''|} fmempty)\<rparr>)) = array (map bulk is)"
proof -
  let ?e = "((env_at 0)\<lparr>map_order := rev\<rparr>)"
  let ?db = "newDatabase\<lparr>Sets := fmupd ''x'' {|''a'', ''b''|} (fmupd ''y'' {|''b'', ''c''|} fmempty)\<rparr>"
  have "(\<Inter>b\<in>set [bulk ''x'', bulk ''y'']. members ?e ?db b) = {''b''}"
    by (auto simp: expired_def newDatabase_def)
  then show ?thesis using set_algebra_replies [of ?e "bulk ''x''" "[bulk ''y'']" ?db] by auto
qed

text \<open>
  \<open>SPOP\<close> replies null exactly when the key has no set; otherwise it replies with a member, and
  that member, and nothing else, leaves the set.
\<close>

lemma spop_removes_member:
  assumes "fair (map_order e)" and "db_wf db"
  shows "case set_at (now e) (Str k) db of
      None \<Rightarrow> snd (spop e [k] db) = null \<and> live (now e) (fst (spop e [k] db)) = live (now e) db
    | Some s \<Rightarrow> \<exists>m. m |\<in>| s \<and> snd (spop e [k] db) = bulk m \<and>
        set_of (set_at (now e) (Str k) (fst (spop e [k] db))) = fset s - {m}"
proof (cases "set_at (now e) (Str k) db")
  case None
  then show ?thesis by (simp add: spop_def set_defs del: live_sel)
next
  case (Some s)
  then have "s \<noteq> {||}" using assms(2) by (auto simp: db_wf_def split: if_splits)
  then obtain m where m: "snd (SPop (map_order e) s) = Some m"
    using SPop_None_iff [OF assms(1)] by (metis not_Some_eq)
  then have "m |\<in>| s" "fst (SPop (map_order e) s) = s |-| {|m|}" using SPop_Some [OF assms(1)] by auto
  then show ?thesis using Some m
    by (auto simp: spop_def set_defs)
qed

end
