(* ===== verification/HashCommands.thy ===== *)
theory HashCommands
  imports SetCommands
begin

text \<open>The handlers of pkg/commands/hash_commands.go.\<close>

section \<open>Handlers\<close>

definition hset :: handler where
  "hset e args db =
     (if length args \<noteq> 3 then (db, err ''ERR wrong number of arguments for 'hset' command'')
      else
        let key = Str (args ! 0); field = Str (args ! 1); v = Str (args ! 2);
            (db, h) = GetOrCreateHash (now e) key db;
            (h, isNew) = HSet field v h;
            db = put_hash key h db
        in if isNew then (db, integer 1) else (db, integer 0))"

definition hget :: handler where
  "hget e args db =
     (if length args \<noteq> 2 then (db, err ''ERR wrong number of arguments for 'hget' command'')
      else
        let key = Str (args ! 0); field = Str (args ! 1) in
        case GetHash (now e) key db of
          (db, None) \<Rightarrow> (db, null)
        | (db, Some h) \<Rightarrow> (case HGet field h of None \<Rightarrow> (db, null) | Some v \<Rightarrow> (db, bulk v)))"

definition hdel :: handler where
  "hdel e args db =
     (if length args < 2 then (db, err ''ERR wrong number of arguments for 'hdel' command'')
      else
        let key = Str (args ! 0) in
        case GetHash (now e) key db of
          (db, None) \<Rightarrow> (db, integer 0)
        | (db, Some h) \<Rightarrow>
            let fields = map Str (drop 1 args);
                (h, deleted) = HDel fields h;
                db = put_hash key h db;
                db = (if HLen h = 0 then drop_hash key db else db)
            in (db, integer deleted))"

definition hexists :: handler where
  "hexists e args db =
     (if length args \<noteq> 2 then (db, err ''ERR wrong number of arguments for 'hexists' command'')
      else
        let key = Str (args ! 0); field = Str (args ! 1) in
        case GetHash (now e) key db of
          (db, None) \<Rightarrow> (db, integer 0)
        | (db, Some h) \<Rightarrow> if HExists field h then (db, integer 1) else (db, integer 0))"

definition hgetall :: handler where
  "hgetall e args db =
     (if length args \<noteq> 1 then (db, err ''ERR wrong number of arguments for 'hgetall' command'')
      else case GetHash (now e) (Str (args ! 0)) db of
        (db, None) \<Rightarrow> (db, array [])
      | (db, Some h) \<Rightarrow>
          let fields = HGetAll (map_order e) h
          in (db, array (concat (map (\<lambda>(field, v). [bulk field, bulk v]) (range_map (map_order e) fields)))))"

definition hkeys :: handler where
  "hkeys e args db =
     (if length args \<noteq> 1 then (db, err ''ERR wrong number of arguments for 'hkeys' command'')
      else case GetHash (now e) (Str (args ! 0)) db of
        (db, None) \<Rightarrow> (db, array [])
      | (db, Some h) \<Rightarrow> (db, array (map bulk (HKeys (map_order e) h))))"

definition hvals :: handler where
  "hvals e args db =
     (if length args \<noteq> 1 then (db, err ''ERR wrong number of arguments for 'hvals' command'')
      else case GetHash (now e) (Str (args ! 0)) db of
        (db, None) \<Rightarrow> (db, array [])
      | (db, Some h) \<Rightarrow> (db, array (map bulk (HVals (map_order e) h))))"

definition hlen :: handler where
  "hlen e args db =
     (if length args \<noteq> 1 then (db, err ''ERR wrong number of arguments for 'hlen' command'')
      else case GetHash (now e) (Str (args ! 0)) db of
        (db, None) \<Rightarrow> (db, integer 0)
      | (db, Some h) \<Rightarrow> (db, integer (HLen h)))"

fun pairs_loop :: "Value list \<Rightarrow> string gomap \<Rightarrow> string gomap" where
  "pairs_loop (field # v # args) pairs = pairs_loop args (fmupd (Str field) (Str v) pairs)"
| "pairs_loop args pairs = pairs"

definition hmset :: handler where
  "hmset e args db =
     (if length args < 3 \<or> length args mod 2 = 0
      then (db, err ''ERR wrong number of arguments for 'hmset' command'')
      else
        let key = Str (args ! 0);
            (db, h) = GetOrCreateHash (now e) key db;
            pairs = pairs_loop (drop 1 args) fmempty;
            h = HMSet (map_order e) pairs h
        in (put_hash key h db, simple ''OK''))"

definition hmget :: handler where
  "hmget e args db =
     (if length args < 2 then (db, err ''ERR wrong number of arguments for 'hmget' command'')
      else
        let key = Str (args ! 0) in
        case GetHash (now e) key db of
          (db, found) \<Rightarrow>
            let fields = map Str (drop 1 args);
                values = (case found of Some h \<Rightarrow> HMGet fields h | None \<Rightarrow> map (\<lambda>_. '''') fields);
                missing = (\<lambda>field. case found of None \<Rightarrow> True | Some h \<Rightarrow> \<not> HExists field h)
            in (db, array (map (\<lambda>(v, field). if v = '''' \<and> missing field then null else bulk v)
                              (zip values fields))))"

definition hincrby :: handler where
  "hincrby e args db =
     (if length args \<noteq> 3 then (db, err ''ERR wrong number of arguments for 'hincrby' command'')
      else
        let key = Str (args ! 0); field = Str (args ! 1) in
        case Atoi (Str (args ! 2)) of
          Inl _ \<Rightarrow> (db, not_an_integer)
        | Inr n \<Rightarrow>
            let (db, h) = GetOrCreateHash (now e) key db in
            (case HIncrBy field n h of
               (h, Inl _) \<Rightarrow> (put_hash key h db, err (''ERR '' @ ''hash value is not an integer''))
             | (h, Inr newValue) \<Rightarrow> (put_hash key h db, integer newValue)))"

section \<open>The handlers meet their contracts\<close>

lemma store_hash_cases:
  "(if HLen h = 0 then drop_hash k (put_hash k h db) else put_hash k h db) =
   (if h = fmempty then drop_hash k db else put_hash k h db)"
  by (simp add: HLen_def fmdrop_fmupd_same)

lemma db_wf_store_hash [db_inv]:
  "db_wf db \<Longrightarrow> db_wf (if h = fmempty then drop_hash k db else put_hash k h db)"
  by (simp add: db_inv)

lemmas hash_defs = Let_def hashes.look hashes.create store_hash_cases live_lookup_expireIfNeeded case_prod_unfold

abbreviation hash_at :: "int \<Rightarrow> string \<Rightarrow> Database \<Rightarrow> Hash option" where
  "hash_at t k db \<equiv> fmlookup (Hashes (live t db)) k"

lemma fmupd_not_empty [simp]: "fmupd k v m \<noteq> fmempty"
  by (metis fmempty_lookup fmupd_lookup option.distinct(1))

lemma pairs_loop_nonempty: "m \<noteq> fmempty \<Longrightarrow> pairs_loop args m \<noteq> fmempty"
  by (induction args m rule: pairs_loop.induct) simp_all

lemma fmadd_empty_iff: "m ++\<^sub>f n = fmempty \<longleftrightarrow> m = fmempty \<and> n = fmempty"
proof
  assume "m ++\<^sub>f n = fmempty"
  then have "fmdom (m ++\<^sub>f n) = {||}" by simp
  then have "fmdom m = {||}" "fmdom n = {||}" by auto
  then show "m = fmempty \<and> n = fmempty" by (simp add: fmap_ext fmdom_notD)
qed simp

lemma hmset_pairs_nonempty: "3 \<le> length args \<Longrightarrow> pairs_loop (drop 1 args) fmempty \<noteq> fmempty"
  by (cases args; cases "tl args"; cases "tl (tl args)") (auto simp: pairs_loop_nonempty)

definition hash_of :: "Hash option \<Rightarrow> Hash" where
  "hash_of h = (case h of None \<Rightarrow> fmempty | Some h \<Rightarrow> h)"

lemma hset_eq:
  "length args = 3 \<Longrightarrow> hset e args db =
     (let key = Str (args ! 0); field = Str (args ! 1); h = hash_of (hash_at (now e) key db)
      in (put_hash key (fmupd field (Str (args ! 2)) h) (expireIfNeeded (now e) key db),
          integer (of_bool (fmlookup h field = None))))"
  by (cases "hash_at (now e) (Str (args ! 0)) db")
    (simp_all add: hset_def hash_defs HSet_def hash_of_def NewHash_def del: live_sel)

interpretation hset: data_command hset
proof unfold_locales
  fix e args db
  show "live (now e) (fst (hset e args db)) = live (now e) db" if "is_error (snd (hset e args db))"
    using that by (cases "length args = 3") (simp add: hset_eq Let_def, simp add: hset_def)
qed (auto simp: hset_def hash_defs HSet_def intro!: db_inv split: option.splits)

interpretation hget: data_command hget
  by unfold_locales (auto simp: hget_def hash_defs intro!: db_inv split: option.splits)

interpretation hdel: data_command hdel
  by unfold_locales (auto simp: hdel_def hash_defs intro!: db_inv split: option.splits)

interpretation hexists: data_command hexists
  by unfold_locales (auto simp: hexists_def hash_defs intro!: db_inv split: option.splits)

interpretation hgetall: data_command hgetall
  by unfold_locales (auto simp: hgetall_def hash_defs intro!: db_inv split: option.splits)

interpretation hkeys: data_command hkeys
  by unfold_locales (auto simp: hkeys_def hash_defs intro!: db_inv split: option.splits)

interpretation hvals: data_command hvals
  by unfold_locales (auto simp: hvals_def hash_defs intro!: db_inv split: option.splits)

interpretation hlen: data_command hlen
  by unfold_locales (auto simp: hlen_def hash_defs intro!: db_inv split: option.splits)

interpretation hmset: data_command hmset
proof unfold_locales
  show "db_wf (fst (hmset e args db))" if "fair (map_order e)" "db_wf db" for e args db
    using that hmset_pairs_nonempty [of args]
    by (auto simp: hmset_def hash_defs HMSet_eq fmadd_empty_iff intro!: db_inv split: option.splits)
qed (auto simp: hmset_def hash_defs split: option.splits)

interpretation hmget: data_command hmget
  by unfold_locales (auto simp: hmget_def hash_defs intro!: db_inv split: option.splits)

lemma hincrby_eq:
  "length args = 3 \<Longrightarrow> Atoi (Str (args ! 2)) = Inr n \<Longrightarrow> hincrby e args db =
     (let key = Str (args ! 0); field = Str (args ! 1); r = HIncrBy field n (hash_of (hash_at (now e) key db))
      in (put_hash key (fst r) (expireIfNeeded (now e) key db),
          case snd r of Inl _ \<Rightarrow> err ''ERR hash value is not an integer'' | Inr m \<Rightarrow> integer m))"
  by (cases "hash_at (now e) (Str (args ! 0)) db")
    (simp_all add: hincrby_def hash_defs hash_of_def NewHash_def del: live_sel split: sum.splits)

lemma HIncrBy_not_empty [simp]: "fst (HIncrBy f d h) \<noteq> fmempty"
  by (auto simp: HIncrBy_def Let_def split: sum.splits option.splits)

lemma hincrby_bad: "length args \<noteq> 3 \<or> Atoi (Str (args ! 2)) = Inl er \<Longrightarrow> fst (hincrby e args db) = db"
  by (auto simp: hincrby_def Let_def)

lemma hincrby_error_state:
  assumes "is_error (snd (hincrby e args db))"
  shows "live (now e) (fst (hincrby e args db)) = live (now e) db"
proof (cases "length args = 3 \<and> (\<exists>n. Atoi (Str (args ! 2)) = Inr n)")
  case True
  let ?k = "Str (args ! 0)"
  obtain n where n: "length args = 3" "Atoi (Str (args ! 2)) = Inr n" using True by blast
  from assms obtain h where h: "hash_at (now e) ?k db = Some h"
    "fst (HIncrBy (Str (args ! 1)) n h) = h"
    by (cases "hash_at (now e) ?k db")
      (auto simp: hincrby_eq [OF n] Let_def hash_of_def HIncrBy_def simp del: live_sel
        split: sum.splits option.splits)
  then have "fst (hincrby e args db) = put_hash ?k h (expireIfNeeded (now e) ?k db)"
    by (simp add: hincrby_eq [OF n] Let_def hash_of_def del: live_sel)
  with h show ?thesis by (simp add: fmupd_same)
next
  case False
  then show ?thesis using hincrby_bad by (metis sumE)
qed

interpretation hincrby: data_command hincrby
proof unfold_locales
  show "live (now e) (fst (hincrby e args db)) = live (now e) db"
    if "is_error (snd (hincrby e args db))" for e args db
    using that by (rule hincrby_error_state)
qed (auto simp: hincrby_def hash_defs not_an_integer_def intro!: db_inv split: option.splits sum.splits)

section \<open>Reading back what was written\<close>

lemma hget_reply:
  "snd (hget e [k, f] db) =
     (case fmlookup (hash_of (hash_at (now e) (Str k) db)) (Str f) of None \<Rightarrow> null | Some v \<Rightarrow> bulk v)"
  by (cases "hash_at (now e) (Str k) db")
    (simp_all add: hget_def hash_defs HGet_def hash_of_def del: live_sel split: option.splits)

text \<open>The test \<open>v == "" && ...\<close> of \<open>HMGET\<close> tells an empty value from a missing field.\<close>

lemma hmget_reply:
  "fs \<noteq> [] \<Longrightarrow> snd (hmget e (k # fs) db) =
     array (map (\<lambda>f. case fmlookup (hash_of (hash_at (now e) (Str k) db)) (Str f) of None \<Rightarrow> null | Some v \<Rightarrow> bulk v) fs)"
  by (cases "hash_at (now e) (Str k) db"; cases fs)
    (auto simp: hmget_def hash_defs HMGet_def HExists_def hash_of_def zip_map_map zip_same_conv_map
      simp del: live_sel split: option.splits)

lemma hash_at_put [simp]:
  "\<not> expired t k d \<Longrightarrow> hash_at t k (put_hash k h d) = Some h"
  by simp

lemma hset_hash:
  "hash_at (now e) (Str k) (fst (hset e [k, f, v] db)) =
     Some (fmupd (Str f) (Str v) (hash_of (hash_at (now e) (Str k) db)))"
  by (simp add: hset_eq Let_def)

lemma hmset_hash:
  "fair (map_order e) \<Longrightarrow> even (length fvs) \<Longrightarrow> fvs \<noteq> [] \<Longrightarrow>
   hash_at (now e) (Str k) (fst (hmset e (k # fvs) db)) =
     Some (hash_of (hash_at (now e) (Str k) db) ++\<^sub>f pairs_loop fvs fmempty)"
  by (cases "hash_at (now e) (Str k) db"; cases fvs; cases "tl fvs")
    (auto simp: hmset_def hash_defs HMSet_eq hash_of_def NewHash_def even_iff_mod_2_eq_zero)

section \<open>Property of the hash commands\<close>

text \<open>
  Hashes are read back as written.  After \<open>HSET\<close> the field has the new value and every other field of the
  key is as before, for \<open>HGET\<close>; \<open>HSET\<close> reports whether the field was new; and \<open>HMGET\<close> replies with what
  \<open>HGET\<close> of each field replies, so that an empty value and a missing field stay apart.
\<close>

lemma hash_read_back:
  "snd (hget e [k, f'] (fst (hset e [k, f, v] db))) = (if Str f' = Str f then bulk (Str v) else snd (hget e [k, f'] db)) \<and>
   snd (hset e [k, f, v] db) = integer (of_bool (snd (hget e [k, f] db) = null)) \<and>
   snd (hmget e (k # f # fs) db) = array (map (\<lambda>f. snd (hget e [k, f] db)) (f # fs))"
proof (intro conjI)
  show "snd (hget e [k, f'] (fst (hset e [k, f, v] db))) = (if Str f' = Str f then bulk (Str v) else snd (hget e [k, f'] db))"
    unfolding hget_reply hset_hash by (simp add: hash_of_def)
  show "snd (hset e [k, f, v] db) = integer (of_bool (snd (hget e [k, f] db) = null))"
    unfolding hget_reply by (simp add: hset_eq Let_def split: option.splits)
  show "snd (hmget e (k # f # fs) db) = array (map (\<lambda>f. snd (hget e [k, f] db)) (f # fs))"
    using hmget_reply [of "f # fs" e k db] by (simp add: hget_reply)
qed

end
