(* ===== verification/ExpireCommands.thy ===== *)
theory ExpireCommands
  imports HashCommands
begin

text \<open>
  The handlers of pkg/commands/expire_commands.go.  A \<open>time.Duration\<close> is a 64-bit number of
  nanoseconds: \<open>time.Duration(amount) * unit\<close> wraps, and \<open>time.Until\<close> saturates.
\<close>

section \<open>Handlers\<close>

definition Second :: int where "Second = 1000000000"
definition Millisecond :: int where "Millisecond = 1000000"

definition keyExistsLocked :: "Database \<Rightarrow> string \<Rightarrow> bool" where
  "keyExistsLocked db key =
     (if fmlookup (Store db) key \<noteq> None then True
      else if fmlookup (Lists db) key \<noteq> None then True
      else if fmlookup (Sets db) key \<noteq> None then True
      else if fmlookup (Hashes db) key \<noteq> None then True
      else False)"

definition setExpire :: "int \<Rightarrow> Database \<Rightarrow> string \<Rightarrow> string \<Rightarrow> int \<Rightarrow> Database \<times> Value" where
  "setExpire t db key amountStr unit =
     (case Atoi amountStr of
        Inl _ \<Rightarrow> (db, not_an_integer)
      | Inr amount \<Rightarrow>
          let db = expireIfNeeded t key db in
          if \<not> keyExistsLocked db key then (db, integer 0)
          else (db\<lparr>Expires := fmupd key (t + wrap64 (amount * unit)) (Expires db)\<rparr>, integer 1))"

definition expire :: handler where
  "expire e args db =
     (if length args \<noteq> 2 then (db, err ''ERR wrong number of arguments for 'expire' command'')
      else setExpire (now e) db (Str (args ! 0)) (Str (args ! 1)) Second)"

definition pexpire :: handler where
  "pexpire e args db =
     (if length args \<noteq> 2 then (db, err ''ERR wrong number of arguments for 'pexpire' command'')
      else setExpire (now e) db (Str (args ! 0)) (Str (args ! 1)) Millisecond)"

definition Until :: "int \<Rightarrow> int \<Rightarrow> int" where
  "Until t exp = max min_int (min max_int (exp - t))"

definition ttlValue :: "int \<Rightarrow> Database \<Rightarrow> string \<Rightarrow> int \<Rightarrow> Database \<times> Value" where
  "ttlValue t db key unit =
     (let db = expireIfNeeded t key db in
      if \<not> keyExistsLocked db key then (db, integer (-2))
      else case fmlookup (Expires db) key of
        None \<Rightarrow> (db, integer (-1))
      | Some exp \<Rightarrow>
          let remaining = Until t exp;
              remaining = (if remaining < 0 then 0 else remaining)
          in (db, integer (remaining div unit)))"

definition ttl :: handler where
  "ttl e args db =
     (if length args \<noteq> 1 then (db, err ''ERR wrong number of arguments for 'ttl' command'')
      else ttlValue (now e) db (Str (args ! 0)) Second)"

definition pttl :: handler where
  "pttl e args db =
     (if length args \<noteq> 1 then (db, err ''ERR wrong number of arguments for 'pttl' command'')
      else ttlValue (now e) db (Str (args ! 0)) Millisecond)"

definition persist :: handler where
  "persist e args db =
     (if length args \<noteq> 1 then (db, err ''ERR wrong number of arguments for 'persist' command'')
      else
        let key = Str (args ! 0); db = expireIfNeeded (now e) key db in
        if fmlookup (Expires db) key = None then (db, integer 0)
        else (db\<lparr>Expires := fmdrop key (Expires db)\<rparr>, integer 1))"

section \<open>The handlers meet their contracts\<close>

text \<open>\<open>EXPIRE\<close> and \<open>PEXPIRE\<close> are the only handlers that set an expiry time, so they meet the lazy
  contract but not \<open>ttl_free_command\<close>.\<close>

lemma keyExistsLocked_iff: "keyExistsLocked db key \<longleftrightarrow> 0 < copies key db"
  by (simp add: keyExistsLocked_def copies_def)

lemma copies_expireIfNeeded [simp]: "copies k (expireIfNeeded t k db) = copies k (live t db)"
  by (simp add: copies_def live_lookup_expireIfNeeded)

lemma expired_set_ttl:
  "expired t k' (d\<lparr>Expires := fmupd k x (Expires d)\<rparr>) \<longleftrightarrow> (if k' = k then x \<le> t else expired t k' d)"
  by (simp add: expired_def)

lemma live_set_ttl:
  "\<not> expired t k d \<Longrightarrow> live t (d\<lparr>Expires := fmupd k x (Expires d)\<rparr>) =
     (if x \<le> t then evict k (live t d)
      else (live t d)\<lparr>Expires := fmupd k x (Expires (live t d))\<rparr>)"
  by (rule Database_eqI) (simp_all add: expired_set_ttl)

lemma setExpire_lazy:
  "snd (setExpire t db k a u) = snd (setExpire t (live t db) k a u)"
  "live t (fst (setExpire t db k a u)) = live t (fst (setExpire t (live t db) k a u))"
  by (auto simp: setExpire_def Let_def keyExistsLocked_iff live_set_ttl split: sum.splits)

lemma setExpire_wf: "db_wf db \<Longrightarrow> db_wf (fst (setExpire t db k a u))"
  by (auto simp: setExpire_def Let_def intro!: db_inv split: sum.splits)

lemma setExpire_error: "is_error (snd (setExpire t db k a u)) \<Longrightarrow> fst (setExpire t db k a u) = db"
  by (auto simp: setExpire_def Let_def split: sum.splits if_splits)

interpretation expire: lazy_command expire
  by unfold_locales
    (auto simp: expire_def setExpire_wf setExpire_error setExpire_lazy [symmetric])

interpretation pexpire: lazy_command pexpire
  by unfold_locales
    (auto simp: pexpire_def setExpire_wf setExpire_error setExpire_lazy [symmetric])

lemma ttlValue_eq:
  "ttlValue t db k u = (expireIfNeeded t k db, snd (ttlValue t (live t db) k u))"
  by (auto simp: ttlValue_def Let_def keyExistsLocked_iff live_lookup_expireIfNeeded split: option.splits)

lemma ttlValue_data:
  "fst (ttlValue t db k u) = expireIfNeeded t k db"
  "snd (ttlValue t db k u) = snd (ttlValue t (live t db) k u)"
  by (metis fst_conv snd_conv ttlValue_eq)+

lemma ttlValue_no_error: "\<not> is_error (snd (ttlValue t db k u))"
  by (auto simp: ttlValue_def Let_def split: option.splits)

interpretation ttl: data_command ttl
  by unfold_locales
    (auto simp: ttl_def ttlValue_data(1) ttlValue_no_error db_inv simp flip: ttlValue_data(2))

interpretation pttl: data_command pttl
  by unfold_locales
    (auto simp: pttl_def ttlValue_data(1) ttlValue_no_error db_inv simp flip: ttlValue_data(2))

interpretation persist: data_command persist
  by unfold_locales
    (auto simp: persist_def Let_def live_lookup_expireIfNeeded live_drop_ttl intro!: db_inv)

section \<open>Setting and reading an expiry time\<close>

text \<open>Until its time comes, the remaining time of a key is what \<open>EXPIRE\<close> set minus the time gone by.\<close>

lemma copies_evict [simp]: "copies k (evict k db) = 0"
  by (simp add: copies_def)

lemma setExpire_reply:
  "Atoi a = Inr n \<Longrightarrow> snd (setExpire t db k a u) = integer (of_bool (0 < copies k (live t db)))"
  by (simp add: setExpire_def Let_def keyExistsLocked_iff)

lemma setExpire_Expires:
  assumes "Atoi a = Inr n" and "0 < copies k (live t db)"
  shows "fmlookup (Expires (fst (setExpire t db k a u))) k = Some (t + wrap64 (n * u))"
    and "copies k (fst (setExpire t db k a u)) = copies k (live t db)"
  using assms by (simp_all add: setExpire_def Let_def keyExistsLocked_iff, simp add: copies_def live_lookup_expireIfNeeded)

lemma ttlValue_after:
  assumes "fmlookup (Expires db) k = Some exp" and "0 < copies k db" and "t < exp" and "exp - t \<le> max_int"
  shows "snd (ttlValue t db k u) = integer ((exp - t) div u)"
  using assms
  by (simp add: ttlValue_def Let_def keyExistsLocked_iff expireIfNeeded_def Until_def min_int_def max_int_def)

lemma ttl_unexpired:
  assumes "fmlookup (Expires db) k = None" and "0 < copies k db"
  shows "snd (ttlValue t db k u) = integer (-1)"
  using assms by (simp add: ttlValue_def Let_def keyExistsLocked_iff expireIfNeeded_def)

lemma ttl_expired:
  assumes "fmlookup (Expires db) k = Some exp" and "exp \<le> t"
  shows "copies k (live t db) = 0" and "snd (ttlValue t db k u) = integer (-2)"
proof -
  show c: "copies k (live t db) = 0" using assms by (simp add: copies_def expired_def)
  then show "snd (ttlValue t db k u) = integer (-2)"
    unfolding ttlValue_def Let_def keyExistsLocked_iff copies_expireIfNeeded by simp
qed

text \<open>
  C31.  An expiry time counts down.  \<open>EXPIRE\<close> of an existing key with \<open>n\<close> seconds (in the range of a
  64-bit count of nanoseconds) replies 1; until then \<open>TTL\<close> and \<open>PTTL\<close> report what is left in
  seconds and milliseconds, rounded down; from that instant on the key does not exist and
  \<open>TTL\<close> replies -2; a \<open>PERSIST\<close> before it replies 1, after which the key never expires and \<open>TTL\<close> replies -1.
\<close>

theorem ttl_counts_down:
  assumes "Atoi (Str a) = Inr n" and "0 < n" and "n * Second \<le> max_int"
    and "0 < copies (Str k) (live (now e) db)"
    and "now e \<le> now e1" and "now e1 < now e + n * Second" and "now e + n * Second \<le> now e2"
  shows "let (db1, r) = expire e [k, a] db; (db2, p) = persist e1 [k] db1
    in r = integer 1 \<and>
       snd (ttl e1 [k] db1) = integer ((now e + n * Second - now e1) div Second) \<and>
       snd (pttl e1 [k] db1) = integer ((now e + n * Second - now e1) div Millisecond) \<and>
       copies (Str k) (live (now e2) db1) = 0 \<and> snd (ttl e2 [k] db1) = integer (-2) \<and>
       p = integer 1 \<and> copies (Str k) (live (now e2) db2) = copies (Str k) (live (now e) db) \<and>
       snd (ttl e2 [k] db2) = integer (-1)"
proof -
  let ?k = "Str k" and ?x = "now e + n * Second"
  define db1 where "db1 = fst (expire e [k, a] db)"
  define db2 where "db2 = fst (persist e1 [k] db1)"
  have w: "wrap64 (n * Second) = n * Second"
    using assms(2,3) by (intro wrap64_id) (simp add: Second_def int64_def max_int_def)
  have x: "fmlookup (Expires db1) ?k = Some ?x" and c: "copies ?k db1 = copies ?k (live (now e) db)"
    using setExpire_Expires [OF assms(1,4), of Second] w by (simp_all add: db1_def expire_def)
  have r: "snd (expire e [k, a] db) = integer 1"
    using setExpire_reply [OF assms(1), of "now e" db ?k Second] assms(4) by (simp add: expire_def)
  have left: "snd (ttlValue (now e1) db1 ?k u) = integer ((?x - now e1) div u)" for u
    using ttlValue_after [OF x] c assms(3-6) by simp
  have p: "persist e1 [k] db1 = (db1\<lparr>Expires := fmdrop ?k (Expires db1)\<rparr>, integer 1)"
    using x assms(6) by (simp add: persist_def expireIfNeeded_def)
  have "fmlookup (Expires db2) ?k = None" "copies ?k db2 = copies ?k db1"
    by (simp_all add: db2_def p copies_def)
  moreover from this have "copies ?k (live (now e2) db2) = copies ?k db2"
    by (simp add: copies_def expired_def)
  ultimately show ?thesis
    using r left ttl_expired [OF x assms(7)] c assms(4) ttl_unexpired [of db2 ?k "now e2" Second]
    by (simp add: case_prod_unfold Let_def ttl_def pttl_def p flip: db1_def db2_def del: live_sel)
      (simp add: db2_def p)
qed

theorem ttl_counts_down_witness:
  "let (db1, r) = expire (env_at 0) [bulk ''k'', bulk ''10''] (newDatabase\<lparr>Store := fmupd ''k'' ''v'' fmempty\<rparr>)
   in r = integer 1 \<and> snd (ttl (env_at 2500000000) [bulk ''k''] db1) = integer 7 \<and>
      snd (ttl (env_at 10000000000) [bulk ''k''] db1) = integer (-2)"
proof -
  have "Atoi ''10'' = Inr 10" by code_simp
  moreover have "copies ''k'' (live 0 (newDatabase\<lparr>Store := fmupd ''k'' ''v'' fmempty\<rparr>)) = 1"
    by (simp add: copies_def newDatabase_def expired_def)
  ultimately show ?thesis
    using ttl_counts_down [of "bulk ''10''" 10 "bulk ''k''" "env_at 0" "newDatabase\<lparr>Store := fmupd ''k'' ''v'' fmempty\<rparr>"
        "env_at 2500000000" "env_at 10000000000"]
    by (simp add: Second_def max_int_def case_prod_unfold Let_def)
qed

text \<open>
  C34.  An expiry time outlives its key.  When \<open>LPOP\<close> takes the last element of a list that has an expiry
  time, the key is gone but the time stays: a list created by a later \<open>RPUSH\<close> under the same name
  already has that time, and disappears with it, though nobody asked for the new list to expire.
\<close>

theorem stale_ttl_inherited:
  assumes "fmlookup (Lists (live (now e) db)) (Str k) = Some [x]" and "fmlookup (Expires db) (Str k) = Some exp"
    and "exp - now e \<le> max_int" and "vs \<noteq> []" and "exp \<le> now e2"
  shows "let db1 = fst (lpop e [k] db); db2 = fst (rpush e (k # vs) db1)
    in fmlookup (Lists (live (now e) db1)) (Str k) = None \<and>
       fmlookup (Lists (live (now e) db2)) (Str k) = Some (map Str vs) \<and>
       snd (ttl e [k] db2) = integer ((exp - now e) div Second) \<and>
       snd (llen e2 [k] db2) = integer 0"
proof -
  let ?k = "Str k" and ?t = "now e"
  have t: "\<not> expired ?t ?k db" and l: "fmlookup (Lists db) ?k = Some [x]"
    using assms(1) by (auto split: if_splits)
  have lt: "?t < exp" using t assms(2) by (simp add: expired_def)
  have db1: "fst (lpop e [k] db) = drop_list ?k (put_list ?k [] db)"
    using t l by (simp add: lpop_def list_defs LPop_def LLen_def expireIfNeeded_eq)
  let ?db1 = "drop_list ?k (put_list ?k [] db)"
  have x1: "fmlookup (Expires ?db1) ?k = Some exp" using assms(2) by simp
  then have e1: "expireIfNeeded ?t ?k ?db1 = ?db1" using lt by (simp add: expireIfNeeded_def)
  have db2: "fst (rpush e (k # vs) ?db1) = put_list ?k (map Str vs) (put_list ?k [] ?db1)"
    using assms(4) e1 by (simp add: rpush_def list_defs RPush_def NewList_def Suc_le_eq)
  let ?db2 = "put_list ?k (map Str vs) (put_list ?k [] ?db1)"
  have x2: "fmlookup (Expires ?db2) ?k = Some exp" and c2: "0 < copies ?k ?db2"
    using assms(2) by (simp_all add: copies_def)
  have ttl: "snd (ttlValue ?t ?db2 ?k Second) = integer ((exp - ?t) div Second)"
    by (rule ttlValue_after [OF x2 c2 lt assms(3)])
  have gone: "fmlookup (Lists (live (now e2) ?db2)) ?k = None" using x2 assms(5) by (simp add: expired_def)
  have llen: "snd (llen e2 [k] ?db2) = integer 0"
    unfolding llen_def lists.look using gone live_lookup_expireIfNeeded(2) [of "now e2" ?k ?db2] by (simp del: live_sel)
  have "\<not> expired ?t ?k ?db2" "\<not> expired ?t ?k ?db1" using x1 x2 lt by (simp_all add: expired_def)
  then show ?thesis unfolding Let_def db1 db2 using ttl llen by (simp add: ttl_def)
qed

theorem stale_ttl_inherited_witness:
  "let db = newDatabase\<lparr>Lists := fmupd ''k'' [''a''] fmempty, Expires := fmupd ''k'' 5000000000 fmempty\<rparr>;
       db2 = fst (rpush (env_at 0) [bulk ''k'', bulk ''b''] (fst (lpop (env_at 0) [bulk ''k''] db)))
   in snd (ttl (env_at 0) [bulk ''k''] db2) = integer 5 \<and> snd (llen (env_at 5000000000) [bulk ''k''] db2) = integer 0"
  using stale_ttl_inherited [of "env_at 0" "newDatabase\<lparr>Lists := fmupd ''k'' [''a''] fmempty, Expires := fmupd ''k'' 5000000000 fmempty\<rparr>"
      "bulk ''k''" "''a''" 5000000000 "[bulk ''b'']" "env_at 5000000000"]
  by (simp add: expired_def max_int_def Second_def Let_def)

text \<open>
  The multiplication \<open>time.Duration(amount) * unit\<close> wraps: \<open>EXPIRE\<close> with 9223372037 seconds, some 292
  years, replies 1 for an existing key, and the key is gone at once.
\<close>

lemma expire_overflow:
  assumes "0 < copies (Str k) (live (now e) db)"
  shows "snd (expire e [k, bulk ''9223372037''] db) = integer 1 \<and>
    live (now e) (fst (expire e [k, bulk ''9223372037''] db)) = evict (Str k) (live (now e) db)"
proof -
  have a: "Atoi ''9223372037'' = Inr 9223372037" by code_simp
  have w: "wrap64 (9223372037 * Second) = -9223372036709551616" unfolding Second_def by code_simp
  show ?thesis
    using assms by (simp add: expire_def setExpire_def a Let_def keyExistsLocked_iff live_set_ttl w)
qed

end
