(* ===== verification/GoStrings.thy ===== *)
theory GoStrings
  imports Prelude
begin

text \<open>
  The functions of Go's \<open>strings\<close> package the program uses on command names.  Go treats an all-ASCII string byte by byte; for other strings \<open>ToUpper\<close> and \<open>ToLower\<close>
  consult the Unicode tables, which are a parameter \<open>uni\<close> here.  \<open>EqualFold\<close> is modelled for an
  ASCII second argument, where the only non-ASCII runes that fold to a letter are the long s and
  the Kelvin sign.
\<close>

section \<open>Case mapping\<close>

definition is_ascii :: "char \<Rightarrow> bool" where
  "is_ascii c \<longleftrightarrow> (of_char c :: nat) < 128"

definition upper_char :: "char \<Rightarrow> char" where
  "upper_char c = (if CHR ''a'' \<le> c \<and> c \<le> CHR ''z'' then char_of (of_char c - 32 :: nat) else c)"

definition lower_char :: "char \<Rightarrow> char" where
  "lower_char c = (if CHR ''A'' \<le> c \<and> c \<le> CHR ''Z'' then char_of (of_char c + 32 :: nat) else c)"

definition ToUpper :: "(string \<Rightarrow> string) \<Rightarrow> string \<Rightarrow> string" where
  "ToUpper uni s = (if list_all is_ascii s then map upper_char s else uni s)"

definition ToLower :: "(string \<Rightarrow> string) \<Rightarrow> string \<Rightarrow> string" where
  "ToLower uni s = (if list_all is_ascii s then map lower_char s else uni s)"

fun EqualFold :: "string \<Rightarrow> string \<Rightarrow> bool" where
  "EqualFold [] [] = True"
| "EqualFold [] (t # ts) = False"
| "EqualFold (c # s) [] = False"
| "EqualFold (c # s) (t # ts) =
     (if is_ascii c then lower_char c = lower_char t \<and> EqualFold s ts
      else if lower_char t = CHR ''s'' \<and> c = CHR 0xC5 \<and> take 1 s = [CHR 0xBF]
        then EqualFold (drop 1 s) ts
      else if lower_char t = CHR ''k'' \<and> c = CHR 0xE2 \<and> take 2 s = [CHR 0x84, CHR 0xAA]
        then EqualFold (drop 2 s) ts
      else False)"

lemma EqualFold_refl: "list_all is_ascii s \<Longrightarrow> EqualFold s s"
  by (induction s) auto

end
