(* ===== verification/AdminCommands.thy ===== *)
theory AdminCommands
  imports ExpireCommands GoStrings
begin

text \<open>
  The handlers of pkg/commands/admin_commands.go: key listing, \<open>HELLO\<close> and the introspection
  command \<open>COMMAND\<close> with its table of command descriptions.
\<close>

section \<open>Listing keys\<close>

definition matching_keys :: "env \<Rightarrow> string \<Rightarrow> 'v gomap \<Rightarrow> Value list" where
  "matching_keys e pattern m = map bulk (filter (filepath_Match e pattern) (range_keys (map_order e) m))"

definition keysCmd :: handler where
  "keysCmd e args db =
     (if length args \<noteq> 1 then (db, err ''ERR wrong number of arguments for 'keys' command'')
      else
        let db = SweepExpired e db; pattern = Str (args ! 0);
            result = [];
            result = result @ matching_keys e pattern (Store db);
            result = result @ matching_keys e pattern (Lists db);
            result = result @ matching_keys e pattern (Sets db);
            result = result @ matching_keys e pattern (Hashes db)
        in (db, array result))"

definition dbsize :: handler where
  "dbsize e args db =
     (let db = SweepExpired e db;
          total = int (maplen (Store db)) + int (maplen (Lists db)) + int (maplen (Sets db)) + int (maplen (Hashes db))
      in (db, integer total))"

text \<open>The loop over \<open>i\<close> from 1 to \<open>len(args)-2\<close> looks at neighbouring arguments.\<close>

fun scan_pattern :: "Value list \<Rightarrow> string \<Rightarrow> string" where
  "scan_pattern (a # b # args) pattern =
     scan_pattern (b # args) (if Str a = ''MATCH'' \<or> Str a = ''match'' then Str b else pattern)"
| "scan_pattern args pattern = pattern"

definition scan :: handler where
  "scan e args db =
     (if length args < 1 then (db, err ''ERR wrong number of arguments for 'scan' command'')
      else case Atoi (Str (args ! 0)) of
        Inl _ \<Rightarrow> (db, err ''ERR invalid cursor'')
      | Inr _ \<Rightarrow>
          let pattern = scan_pattern (drop 1 args) ''*'';
              (db, keysResp) = keysCmd e [bulk pattern] db
          in (db, array [bulk ''0'', keysResp]))"

definition hello :: handler where
  "hello e args db =
     (if 1 \<le> length args \<and> Str (args ! 0) = ''3''
      then (db, err ''NOPROTO unsupported protocol version'')
      else (db, array
        [bulk ''server'', bulk ''shoredis'', bulk ''version'', bulk ''1.0'', bulk ''proto'', integer 2,
         bulk ''mode'', bulk ''standalone'', bulk ''role'', bulk ''master'', bulk ''modules'', array []]))"

section \<open>The command table\<close>

record cmdSpec =
  name :: string
  arity :: int
  flags :: "string list"
  firstKey :: int
  lastKey :: int
  step :: int

abbreviation spec :: "string \<Rightarrow> int \<Rightarrow> string list \<Rightarrow> int \<Rightarrow> int \<Rightarrow> int \<Rightarrow> cmdSpec" where
  "spec n a f k l s \<equiv> \<lparr>name = n, arity = a, flags = f, firstKey = k, lastKey = l, step = s\<rparr>"

definition commandSpecs :: "cmdSpec list" where
  "commandSpecs =
     [
      spec ''PING'' (-1) [''fast''] 0 0 0,
      spec ''SET'' 3 [''write'', ''denyoom''] 1 1 1,
      spec ''GET'' 2 [''readonly'', ''fast''] 1 1 1,
      spec ''DEL'' (-2) [''write''] 1 (-1) 1,
      spec ''EXISTS'' (-2) [''readonly'', ''fast''] 1 (-1) 1,
      spec ''MSET'' (-3) [''write'', ''denyoom''] 1 (-1) 2,
      spec ''MGET'' (-2) [''readonly'', ''fast''] 1 (-1) 1,
      spec ''TYPE'' 2 [''readonly'', ''fast''] 1 1 1,
      spec ''INCR'' 2 [''write'', ''fast''] 1 1 1,
      spec ''DECR'' 2 [''write'', ''fast''] 1 1 1,
      spec ''INCRBY'' 3 [''write'', ''fast''] 1 1 1,
      spec ''DECRBY'' 3 [''write'', ''fast''] 1 1 1,
      spec ''LPUSH'' (-3) [''write'', ''fast''] 1 1 1,
      spec ''RPUSH'' (-3) [''write'', ''fast''] 1 1 1,
      spec ''LPOP'' 2 [''write'', ''fast''] 1 1 1,
      spec ''RPOP'' 2 [''write'', ''fast''] 1 1 1,
      spec ''LRANGE'' 4 [''readonly''] 1 1 1,
      spec ''LLEN'' 2 [''readonly'', ''fast''] 1 1 1,
      spec ''LINDEX'' 3 [''readonly''] 1 1 1,
      spec ''LSET'' 4 [''write''] 1 1 1,
      spec ''LREM'' 4 [''write''] 1 1 1,
      spec ''BLPOP'' (-3) [''write'', ''blocking''] 1 (-2) 1,
      spec ''BRPOP'' (-3) [''write'', ''blocking''] 1 (-2) 1,
      spec ''SADD'' (-3) [''write'', ''fast''] 1 1 1,
      spec ''SREM'' (-3) [''write'', ''fast''] 1 1 1,
      spec ''SISMEMBER'' 3 [''readonly'', ''fast''] 1 1 1,
      spec ''SMEMBERS'' 2 [''readonly''] 1 1 1,
      spec ''SCARD'' 2 [''readonly'', ''fast''] 1 1 1,
      spec ''SPOP'' 2 [''write'', ''fast''] 1 1 1,
      spec ''SINTER'' (-2) [''readonly''] 1 (-1) 1,
      spec ''SUNION'' (-2) [''readonly''] 1 (-1) 1,
      spec ''SDIFF'' (-2) [''readonly''] 1 (-1) 1,
      spec ''HSET'' 4 [''write'', ''fast''] 1 1 1,
      spec ''HGET'' 3 [''readonly'', ''fast''] 1 1 1,
      spec ''HDEL'' (-3) [''write'', ''fast''] 1 1 1,
      spec ''HEXISTS'' 3 [''readonly'', ''fast''] 1 1 1,
      spec ''HGETALL'' 2 [''readonly''] 1 1 1,
      spec ''HKEYS'' 2 [''readonly''] 1 1 1,
      spec ''HVALS'' 2 [''readonly''] 1 1 1,
      spec ''HLEN'' 2 [''readonly'', ''fast''] 1 1 1,
      spec ''HMSET'' (-4) [''write''] 1 1 1,
      spec ''HMGET'' (-3) [''readonly''] 1 1 1,
      spec ''HINCRBY'' 4 [''write'', ''fast''] 1 1 1,
      spec ''EXPIRE'' 3 [''write'', ''fast''] 1 1 1,
      spec ''PEXPIRE'' 3 [''write'', ''fast''] 1 1 1,
      spec ''TTL'' 2 [''readonly'', ''fast''] 1 1 1,
      spec ''PTTL'' 2 [''readonly'', ''fast''] 1 1 1,
      spec ''PERSIST'' 2 [''write'', ''fast''] 1 1 1,
      spec ''KEYS'' 2 [''readonly''] 0 0 0,
      spec ''SCAN'' (-2) [''readonly''] 0 0 0,
      spec ''DBSIZE'' 1 [''readonly'', ''fast''] 0 0 0,
      spec ''HELLO'' (-1) [''fast''] 0 0 0,
      spec ''PUBLISH'' 3 [''pubsub'', ''fast''] 0 0 0,
      spec ''SUBSCRIBE'' (-2) [''pubsub''] 0 0 0,
      spec ''UNSUBSCRIBE'' (-1) [''pubsub''] 0 0 0,
      spec ''AUTH'' (-2) [''fast'', ''loading'', ''stale''] 0 0 0,
      spec ''SELECT'' 2 [''fast'', ''loading'', ''stale''] 0 0 0,
      spec ''SAVE'' 1 [''admin''] 0 0 0,
      spec ''BGSAVE'' 1 [''admin''] 0 0 0,
      spec ''LASTSAVE'' 1 [''readonly'', ''fast''] 0 0 0,
      spec ''COMMAND'' (-1) [''loading'', ''stale''] 0 0 0
     ]"

definition commandInfoValue :: "env \<Rightarrow> cmdSpec \<Rightarrow> Value" where
  "commandInfoValue e sp =
     array [bulk (ToLower (unicode_ToLower e) (name sp)), integer (arity sp), array (map simple (flags sp)),
            integer (firstKey sp), integer (lastKey sp), integer (step sp)]"

definition findCommandSpec :: "env \<Rightarrow> string \<Rightarrow> cmdSpec option" where
  "findCommandSpec e nm =
     (let upper = ToUpper (unicode_ToUpper e) nm in List.find (\<lambda>sp. name sp = upper) commandSpecs)"

definition allCommandInfo :: "env \<Rightarrow> Value list" where
  "allCommandInfo e = map (commandInfoValue e) commandSpecs"

text \<open>
  The loop \<open>for i := firstKey-1; i < last && i < len(cmdArgs); i += step\<close>.  With a step of zero
  Go's loop would not end; every description that has keys has a positive step
  (\<open>commandSpecs_step\<close>), so the guard \<open>0 < step\<close> is never what stops it.
\<close>

function getkeys_loop :: "int \<Rightarrow> int \<Rightarrow> int \<Rightarrow> Value list \<Rightarrow> Value list" where
  "getkeys_loop i lst st cmdArgs =
     (if 0 < st \<and> i < lst \<and> i < int (length cmdArgs)
      then bulk (Str (cmdArgs ! nat i)) # getkeys_loop (i + st) lst st cmdArgs else [])"
  by pat_completeness auto
termination
  by (relation "measure (\<lambda>(i, lst, st, args). nat (lst - i))") auto

declare getkeys_loop.simps [simp del]

definition getKeys :: "env \<Rightarrow> Value list \<Rightarrow> Value" where
  "getKeys e args =
     (if length args < 2 then err ''ERR Unknown command name''
      else case findCommandSpec e (Str (args ! 1)) of
        None \<Rightarrow> err ''ERR The command has no key arguments''
      | Some sp \<Rightarrow>
          if firstKey sp = 0 then err ''ERR The command has no key arguments''
          else
            let cmdArgs = drop 2 args; keyIdx = firstKey sp - 1 in
            if keyIdx < 0 \<or> keyIdx \<ge> int (length cmdArgs)
            then err ''ERR Invalid arguments specified for command''
            else
              let last = lastKey sp;
                  last = (if last < 0 then int (length cmdArgs) + last + 1 else last);
                  last = (if last \<le> firstKey sp then firstKey sp else last);
                  result = getkeys_loop (firstKey sp - 1) last (step sp) cmdArgs
              in if length result = 0 then err ''ERR The command has no key arguments'' else array result)"

definition command_cmd :: handler where
  "command_cmd e args db =
     (if length args = 0 then (db, array (allCommandInfo e))
      else
        let sub = ToUpper (unicode_ToUpper e) (Str (args ! 0)) in
        if sub = ''COUNT'' then (db, integer (int (length commandSpecs)))
        else if sub = ''LIST''
        then (db, array (map (\<lambda>sp. bulk (ToLower (unicode_ToLower e) (name sp))) commandSpecs))
        else if sub = ''INFO'' then
          let names = drop 1 args in
          if length names = 0 then (db, array (allCommandInfo e))
          else (db, array (map (\<lambda>n. case findCommandSpec e (Str n) of
                                  Some sp \<Rightarrow> commandInfoValue e sp | None \<Rightarrow> null) names))
        else if sub = ''DOCS'' then
          let names = map Str (drop 1 args);
              names = (if length names = 0 then map (\<lambda>sp. ToLower (unicode_ToLower e) (name sp)) commandSpecs else names)
          in (db, array (concat (map (\<lambda>n. case findCommandSpec e n of
                 Some sp \<Rightarrow> [bulk (ToLower (unicode_ToLower e) (name sp)), array []] | None \<Rightarrow> []) names)))
        else if sub = ''GETKEYS'' then (db, getKeys e args)
        else (db, err (''ERR Unknown subcommand or wrong number of arguments for '' @ [CHR 0x27] @ Str (args ! 0) @ [CHR 0x27])))"

section \<open>The handlers meet their contracts\<close>

text \<open>
  \<open>KEYS\<close>, \<open>SCAN\<close> and \<open>DBSIZE\<close> rely on the sweep, which spares a key at the very instant of its
  expiry time where the look-ups of the other commands already treat it as gone.
\<close>

lemma Expires_empty_SweepExpired: "Expires db = fmempty \<Longrightarrow> SweepExpired e db = db"
proof -
  assume "Expires db = fmempty"
  moreover then have "fold (expireIfNeeded (now e)) ks db = db" for ks
    by (induction ks) simp_all
  ultimately show ?thesis by (simp add: SweepExpired_def Let_def)
qed

lemmas sweep_simps = Let_def live_SweepExpired Expires_empty_SweepExpired case_prod_unfold

interpretation keysCmd: ttl_free_command keysCmd
  by unfold_locales (auto simp: keysCmd_def sweep_simps intro: db_inv)

interpretation dbsize: ttl_free_command dbsize
  by unfold_locales (auto simp: dbsize_def sweep_simps intro: db_inv)

interpretation scan: ttl_free_command scan
  by unfold_locales (auto simp: scan_def keysCmd_def sweep_simps intro: db_inv split: sum.splits)

interpretation hello: data_command hello
  by unfold_locales (auto simp: hello_def)

lemma command_cmd_state [simp]: "fst (command_cmd e args db) = db"
  by (simp add: command_cmd_def Let_def)

interpretation command_cmd: data_command command_cmd
  by unfold_locales (simp_all, simp add: command_cmd_def Let_def)

end
