(* ===== verification/Broker.thy ===== *)
theory Broker
  imports Prelude
begin

text \<open>
  The publish/subscribe broker of pkg/pubsub/pubsub.go.  A Go channel made by \<open>Subscribe\<close> is a
  fresh identifier with a buffer of at most 16 messages; closing it, and the two panics Go raises
  on closed channels (\<open>close\<close> of a closed channel, a send on a closed one), are explicit.
\<close>

section \<open>State and operations\<close>

record Message =
  Channel :: string
  Payload :: string

type_synonym chan = nat

record PubSub =
  subs :: "(string, chan fset) fmap"
  queue :: "(chan, Message list) fmap"
  closed :: "chan fset"
  fresh :: chan

definition New :: PubSub where
  "New = \<lparr>subs = fmempty, queue = fmempty, closed = {||}, fresh = 0\<rparr>"

definition chan_cap :: nat where
  "chan_cap = 16"

definition Subscribe :: "string \<Rightarrow> PubSub \<Rightarrow> PubSub \<times> chan" where
  "Subscribe channel p =
     (let ch = fresh p;
          members = (case fmlookup (subs p) channel of None \<Rightarrow> {||} | Some m \<Rightarrow> m)
      in (p\<lparr>subs := fmupd channel (finsert ch members) (subs p),
            queue := fmupd ch [] (queue p),
            fresh := Suc ch\<rparr>, ch))"

text \<open>\<open>None\<close> is the panic of closing a channel twice.\<close>

definition close_chan :: "chan \<Rightarrow> PubSub \<Rightarrow> PubSub option" where
  "close_chan ch p = (if ch |\<in>| closed p then None else Some (p\<lparr>closed := finsert ch (closed p)\<rparr>))"

definition Unsubscribe :: "string \<Rightarrow> chan \<Rightarrow> PubSub \<Rightarrow> PubSub option" where
  "Unsubscribe channel ch p =
     close_chan ch
       (case fmlookup (subs p) channel of
          None \<Rightarrow> p
        | Some members \<Rightarrow>
            let members' = members |-| {|ch|}
            in p\<lparr>subs := (if members' = {||} then fmdrop channel (subs p)
                         else fmupd channel members' (subs p))\<rparr>)"

text \<open>The non-blocking send of \<open>select { case ch <- m: ... default: }\<close>.\<close>

definition try_send :: "chan \<Rightarrow> Message \<Rightarrow> PubSub \<Rightarrow> (PubSub \<times> bool) option" where
  "try_send ch m p =
     (if ch |\<in>| closed p then None
      else case fmlookup (queue p) ch of
        None \<Rightarrow> Some (p, False)
      | Some q \<Rightarrow>
          if length q < chan_cap then Some (p\<lparr>queue := fmupd ch (q @ [m]) (queue p)\<rparr>, True)
          else Some (p, False))"

fun send_all :: "chan list \<Rightarrow> Message \<Rightarrow> PubSub \<Rightarrow> int \<Rightarrow> (PubSub \<times> int) option" where
  "send_all [] m p delivered = Some (p, delivered)"
| "send_all (ch # chs) m p delivered =
     (case try_send ch m p of
        None \<Rightarrow> None
      | Some (p', sent) \<Rightarrow> send_all chs m p' (if sent then delivered + 1 else delivered))"

text \<open>The order in which \<open>Publish\<close> visits the subscribers does not matter: their queues are
  disjoint; the model visits them by increasing identifier.\<close>

definition Publish :: "string \<Rightarrow> string \<Rightarrow> PubSub \<Rightarrow> (PubSub \<times> int) option" where
  "Publish channel payload p =
     (case fmlookup (subs p) channel of
        None \<Rightarrow> Some (p, 0)
      | Some members \<Rightarrow>
          send_all (sorted_list_of_fset members) \<lparr>Channel = channel, Payload = payload\<rparr> p 0)"

text \<open>What the delivery goroutine of a subscription does: take the oldest message.\<close>

definition receive :: "chan \<Rightarrow> PubSub \<Rightarrow> PubSub \<times> Message option" where
  "receive ch p =
     (case fmlookup (queue p) ch of
        Some (m # q) \<Rightarrow> (p\<lparr>queue := fmupd ch q (queue p)\<rparr>, Some m)
      | _ \<Rightarrow> (p, None))"

section \<open>Invariant\<close>

text \<open>
  Every subscribed channel is open and has a queue, a channel belongs to one subscription, no
  subscription is empty, identifiers in use are below the next fresh one and no queue exceeds the
  capacity.
\<close>

definition subscribed :: "PubSub \<Rightarrow> string \<Rightarrow> chan \<Rightarrow> bool" where
  "subscribed p c ch \<longleftrightarrow> (case fmlookup (subs p) c of None \<Rightarrow> False | Some m \<Rightarrow> ch |\<in>| m)"

definition ps_inv :: "PubSub \<Rightarrow> bool" where
  "ps_inv p \<longleftrightarrow>
     (\<forall>c ch. subscribed p c ch \<longrightarrow> ch |\<in>| fmdom (queue p) \<and> ch |\<notin>| closed p) \<and>
     (\<forall>c c' ch. subscribed p c ch \<longrightarrow> subscribed p c' ch \<longrightarrow> c = c') \<and>
     fmpred (\<lambda>c m. m \<noteq> {||}) (subs p) \<and>
     (\<forall>ch. ch |\<in>| fmdom (queue p) \<longrightarrow> ch < fresh p) \<and>
     (\<forall>ch. ch |\<in>| closed p \<longrightarrow> ch < fresh p) \<and>
     fmpred (\<lambda>ch q. length q \<le> chan_cap) (queue p)"

definition has_room :: "PubSub \<Rightarrow> chan \<Rightarrow> bool" where
  "has_room p ch \<longleftrightarrow> (case fmlookup (queue p) ch of None \<Rightarrow> False | Some q \<Rightarrow> length q < chan_cap)"

definition subscribers :: "PubSub \<Rightarrow> string \<Rightarrow> chan fset" where
  "subscribers p c = (case fmlookup (subs p) c of None \<Rightarrow> {||} | Some m \<Rightarrow> m)"

lemma subscribed_iff: "subscribed p c ch \<longleftrightarrow> ch |\<in>| subscribers p c"
  by (simp add: subscribed_def subscribers_def split: option.splits)

lemma ps_inv_New: "ps_inv New"
  by (simp add: ps_inv_def New_def subscribed_def)

lemma ps_invD:
  assumes "ps_inv p"
  shows "subscribed p c ch \<Longrightarrow> ch |\<in>| fmdom (queue p)"
    and "subscribed p c ch \<Longrightarrow> ch |\<notin>| closed p"
    and "subscribed p c ch \<Longrightarrow> subscribed p c' ch \<Longrightarrow> c = c'"
    and "ch |\<in>| fmdom (queue p) \<Longrightarrow> ch < fresh p"
    and "ch |\<in>| closed p \<Longrightarrow> ch < fresh p"
    and "fmlookup (queue p) ch = Some q \<Longrightarrow> length q \<le> chan_cap"
    and "fmlookup (subs p) c = Some m \<Longrightarrow> m \<noteq> {||}"
  using assms unfolding ps_inv_def by (blast dest: fmpredD)+

lemma fresh_not_subscribed: "ps_inv p \<Longrightarrow> \<not> subscribed p c (fresh p)"
  using ps_invD(1) ps_invD(4) by blast

section \<open>Subscribing\<close>

lemma subscribed_Subscribe:
  "subscribed (fst (Subscribe c p)) c' ch \<longleftrightarrow> subscribed p c' ch \<or> (c' = c \<and> ch = fresh p)"
  by (auto simp: Subscribe_def Let_def subscribed_def split: option.splits)

lemma Subscribe_chan: "snd (Subscribe c p) = fresh p"
  by (simp add: Subscribe_def Let_def)

lemma Subscribe_sel:
  "queue (fst (Subscribe c p)) = fmupd (fresh p) [] (queue p)"
  "closed (fst (Subscribe c p)) = closed p"
  "fresh (fst (Subscribe c p)) = Suc (fresh p)"
  by (simp_all add: Subscribe_def Let_def)

lemma ps_inv_Subscribe:
  assumes "ps_inv p"
  shows "ps_inv (fst (Subscribe c p))"
proof -
  have "fmpred (\<lambda>c m. m \<noteq> {||}) (subs (fst (Subscribe c p)))"
    using ps_invD(7) [OF assms] by (auto simp: Subscribe_def Let_def fmpred_iff)
  moreover have "fresh p |\<notin>| closed p" using ps_invD(5) [OF assms] by blast
  ultimately show ?thesis
    using assms fresh_not_subscribed [OF assms]
    unfolding ps_inv_def subscribed_Subscribe Subscribe_sel
    by (auto simp: less_Suc_eq fmpred_iff)
qed

section \<open>Unsubscribing\<close>

definition unsub :: "string \<Rightarrow> chan \<Rightarrow> PubSub \<Rightarrow> PubSub" where
  "unsub c ch p =
     p\<lparr>subs := (if subscribers p c |-| {|ch|} = {||} then fmdrop c (subs p)
               else fmupd c (subscribers p c |-| {|ch|}) (subs p)),
       closed := finsert ch (closed p)\<rparr>"

lemma subscribers_unsub:
  "subscribers (unsub c ch p) c' = (if c' = c then subscribers p c |-| {|ch|} else subscribers p c')"
  by (auto simp: unsub_def subscribers_def)

text \<open>Closing the channel of a current subscription does not panic.\<close>

lemma Unsubscribe_eq:
  assumes "ps_inv p" and "subscribed p c ch"
  shows "Unsubscribe c ch p = Some (unsub c ch p)"
proof -
  have "ch |\<notin>| closed p" using ps_invD(2) [OF assms] .
  with assms(2) show ?thesis
    by (auto simp: Unsubscribe_def close_chan_def unsub_def subscribed_def subscribers_def Let_def
        split: option.splits)
qed

lemma ps_inv_unsub:
  assumes "ps_inv p" and "subscribed p c ch"
  shows "ps_inv (unsub c ch p)"
proof -
  have sel: "queue (unsub c ch p) = queue p" "closed (unsub c ch p) = finsert ch (closed p)"
    "fresh (unsub c ch p) = fresh p" by (simp_all add: unsub_def)
  have sub: "subscribed (unsub c ch p) c' ch' \<longleftrightarrow> subscribed p c' ch' \<and> \<not> (c' = c \<and> ch' = ch)" for c' ch'
    by (auto simp: subscribed_iff subscribers_unsub)
  have "fmpred (\<lambda>c m. m \<noteq> {||}) (subs (unsub c ch p))"
    using ps_invD(7) [OF assms(1)] by (auto simp: unsub_def fmpred_iff)
  then show ?thesis
    using assms ps_invD(1,3,4) [OF assms(1)]
    unfolding ps_inv_def sel sub by (auto simp: fmpred_iff)
qed

section \<open>Publishing\<close>

lemma send_all_spec:
  assumes "distinct chs" and "\<forall>ch\<in>set chs. ch |\<notin>| closed p"
  shows "\<exists>q'. send_all chs m p n = Some (p\<lparr>queue := q'\<rparr>, n + int (length (filter (has_room p) chs))) \<and>
    (\<forall>ch. fmlookup q' ch =
      (if ch \<in> set chs \<and> has_room p ch then map_option (\<lambda>q. q @ [m]) (fmlookup (queue p) ch)
       else fmlookup (queue p) ch))"
  using assms
proof (induction chs arbitrary: p n)
  case Nil
  then show ?case by (intro exI [of _ "queue p"]) simp
next
  case (Cons c chs)
  define p' where "p' = (if has_room p c then p\<lparr>queue := fmupd c (the (fmlookup (queue p) c) @ [m]) (queue p)\<rparr> else p)"
  have step: "send_all (c # chs) m p n = send_all chs m p' (n + of_bool (has_room p c))"
    using Cons.prems by (auto simp: p'_def try_send_def has_room_def split: option.splits)
  have room: "ch \<noteq> c \<Longrightarrow> has_room p' ch = has_room p ch" for ch
    by (simp add: p'_def has_room_def)
  have same: "filter (has_room p') chs = filter (has_room p) chs"
    using Cons.prems(1) by (intro filter_cong refl) (metis distinct.simps(2) room)
  have "\<forall>ch\<in>set chs. ch |\<notin>| closed p'" using Cons.prems by (auto simp: p'_def)
  with Cons.IH [of p' "n + of_bool (has_room p c)"] Cons.prems(1) same
  obtain q' where q': "send_all chs m p' (n + of_bool (has_room p c)) =
      Some (p'\<lparr>queue := q'\<rparr>, n + of_bool (has_room p c) + int (length (filter (has_room p) chs)))"
    "\<And>ch. fmlookup q' ch = (if ch \<in> set chs \<and> has_room p' ch
      then map_option (\<lambda>q. q @ [m]) (fmlookup (queue p') ch) else fmlookup (queue p') ch)"
    by auto
  have "p'\<lparr>queue := q'\<rparr> = p\<lparr>queue := q'\<rparr>" by (simp add: p'_def)
  moreover have "fmlookup q' ch = (if ch \<in> set (c # chs) \<and> has_room p ch
      then map_option (\<lambda>q. q @ [m]) (fmlookup (queue p) ch) else fmlookup (queue p) ch)" for ch
    using Cons.prems(1) room [of ch]
    by (cases "ch = c") (auto simp: q'(2) p'_def has_room_def split: option.splits)
  ultimately show ?case using step q'(1) by (intro exI [of _ q']) simp
qed

text \<open>
  Publishing never panics; it appends the message to the queue of exactly those subscribers of the
  channel that have room, counts them, and changes nothing else.
\<close>

lemma Publish_spec:
  assumes "ps_inv p"
  obtains q' where
    "Publish c m p = Some (p\<lparr>queue := q'\<rparr>, int (fcard (ffilter (has_room p) (subscribers p c))))"
    "\<And>ch. fmlookup q' ch =
      (if subscribed p c ch \<and> has_room p ch
       then map_option (\<lambda>q. q @ [\<lparr>Channel = c, Payload = m\<rparr>]) (fmlookup (queue p) ch)
       else fmlookup (queue p) ch)"
proof (cases "fmlookup (subs p) c")
  case None
  then have "subscribers p c = {||}" by (simp add: subscribers_def)
  then have "Publish c m p = Some (p\<lparr>queue := queue p\<rparr>, int (fcard (ffilter (has_room p) (subscribers p c))))"
    using None by (simp add: Publish_def fset_eq_iff)
  moreover have "\<not> subscribed p c ch" for ch using None by (simp add: subscribed_def)
  ultimately show thesis using that [of "queue p"] by simp
next
  case (Some ms)
  define chs where "chs = sorted_list_of_fset ms"
  have chs: "distinct chs" "set chs = fset ms" by (simp_all add: chs_def sorted_list_of_fset.rep_eq)
  have sub: "subscribed p c ch \<longleftrightarrow> ch \<in> set chs" for ch using Some chs by (simp add: subscribed_def)
  have "\<forall>ch\<in>set chs. ch |\<notin>| closed p" using ps_invD(2) [OF assms] sub by blast
  from send_all_spec [OF chs(1) this, of "\<lparr>Channel = c, Payload = m\<rparr>" 0]
  obtain q' where q': "Publish c m p = Some (p\<lparr>queue := q'\<rparr>, int (length (filter (has_room p) chs)))"
    "\<And>ch. fmlookup q' ch = (if ch \<in> set chs \<and> has_room p ch
      then map_option (\<lambda>q. q @ [\<lparr>Channel = c, Payload = m\<rparr>]) (fmlookup (queue p) ch) else fmlookup (queue p) ch)"
    using Some by (auto simp: Publish_def chs_def)
  have "length (filter (has_room p) chs) = card (set (filter (has_room p) chs))"
    using chs(1) distinct_card distinct_filter by metis
  also have "set (filter (has_room p) chs) = fset (ffilter (has_room p) (subscribers p c))"
    using chs(2) Some by (auto simp: subscribers_def)
  finally have "length (filter (has_room p) chs) = fcard (ffilter (has_room p) (subscribers p c))"
    by (simp add: fcard.rep_eq)
  with q' sub that show thesis by simp
qed

lemma ps_inv_queue:
  assumes "ps_inv p" and "fmdom q' = fmdom (queue p)"
    and "\<And>ch q. fmlookup q' ch = Some q \<Longrightarrow> length q \<le> chan_cap"
  shows "ps_inv (p\<lparr>queue := q'\<rparr>)"
proof -
  have "subscribed (p\<lparr>queue := q'\<rparr>) c ch = subscribed p c ch" for c ch by (simp add: subscribed_def)
  then show ?thesis using assms unfolding ps_inv_def by (auto simp: fmpred_iff)
qed

lemma ps_inv_Publish:
  assumes "ps_inv p"
  shows "\<exists>p' n. Publish c m p = Some (p', n) \<and> ps_inv p'"
proof -
  obtain q' where q': "Publish c m p = Some (p\<lparr>queue := q'\<rparr>, int (fcard (ffilter (has_room p) (subscribers p c))))"
    "\<And>ch. fmlookup q' ch =
      (if subscribed p c ch \<and> has_room p ch
       then map_option (\<lambda>q. q @ [\<lparr>Channel = c, Payload = m\<rparr>]) (fmlookup (queue p) ch)
       else fmlookup (queue p) ch)"
    using Publish_spec [OF assms] by blast
  have "fmdom q' = fmdom (queue p)"
    by (rule fset_eqI) (auto simp: fmlookup_dom_iff q'(2) split: if_splits)
  moreover have "length q \<le> chan_cap" if "fmlookup q' ch = Some q" for ch q
    using that ps_invD(6) [OF assms] by (auto simp: q'(2) has_room_def split: if_splits)
  ultimately show ?thesis using q'(1) ps_inv_queue [OF assms] by blast
qed

lemma ps_inv_receive: "ps_inv p \<Longrightarrow> ps_inv (fst (receive ch p))"
proof (cases "\<exists>m q. fmlookup (queue p) ch = Some (m # q)")
  case True
  assume inv: "ps_inv p"
  from True obtain m q where q: "fmlookup (queue p) ch = Some (m # q)" by blast
  then have "fmdom (fmupd ch q (queue p)) = fmdom (queue p)" by (simp add: fmdomI finsert_absorb)
  moreover have "length q \<le> chan_cap" using ps_invD(6) [OF inv q] by simp
  ultimately have "ps_inv (p\<lparr>queue := fmupd ch q (queue p)\<rparr>)"
    using ps_invD(6) [OF inv] by (intro ps_inv_queue [OF inv]) (auto split: if_splits)
  then show ?thesis using q by (simp add: receive_def)
next
  case False
  assume "ps_inv p"
  then show ?thesis using False by (auto simp: receive_def split: option.splits list.splits)
qed

text \<open>A queue is first in, first out: what a receive takes is the oldest message.\<close>

lemma receive_queue:
  "fmlookup (queue p) ch = Some q \<Longrightarrow>
   snd (receive ch p) = (case q of [] \<Rightarrow> None | m # _ \<Rightarrow> Some m) \<and>
   fmlookup (queue (fst (receive ch p))) ch = Some (tl q)"
  by (auto simp: receive_def split: list.splits)

section \<open>Property of the broker\<close>

text \<open>
  C33.  \<open>PUBLISH\<close> delivers to exactly the subscribers of the channel whose buffer has room: it never panics,
  returns their number, appends the message at the end of their queues and leaves every other queue
  and all subscriptions as they are.
\<close>

theorem publish_delivers:
  assumes "ps_inv p"
  shows "\<exists>p'. Publish c m p = Some (p', int (fcard (ffilter (has_room p) (subscribers p c)))) \<and> ps_inv p' \<and>
    subs p' = subs p \<and> closed p' = closed p \<and>
    (\<forall>ch. fmlookup (queue p') ch =
      (if subscribed p c ch \<and> has_room p ch
       then map_option (\<lambda>q. q @ [\<lparr>Channel = c, Payload = m\<rparr>]) (fmlookup (queue p) ch)
       else fmlookup (queue p) ch))"
proof -
  obtain q' where q': "Publish c m p = Some (p\<lparr>queue := q'\<rparr>, int (fcard (ffilter (has_room p) (subscribers p c))))"
    "\<And>ch. fmlookup q' ch =
      (if subscribed p c ch \<and> has_room p ch
       then map_option (\<lambda>q. q @ [\<lparr>Channel = c, Payload = m\<rparr>]) (fmlookup (queue p) ch)
       else fmlookup (queue p) ch)"
    using Publish_spec [OF assms] by blast
  moreover have "ps_inv (p\<lparr>queue := q'\<rparr>)" using ps_inv_Publish [OF assms, of c m] q'(1) by simp
  ultimately show ?thesis by (intro exI [of _ "p\<lparr>queue := q'\<rparr>"]) simp
qed

theorem publish_delivers_witness:
  "\<exists>p' n. Publish ''news'' ''hi'' (fst (Subscribe ''news'' New)) = Some (p', n) \<and>
     fmlookup (queue p') 0 = Some [\<lparr>Channel = ''news'', Payload = ''hi''\<rparr>]"
proof -
  let ?p = "fst (Subscribe ''news'' New)"
  have "ps_inv ?p" by (rule ps_inv_Subscribe [OF ps_inv_New])
  moreover have "subscribed ?p ''news'' 0" "has_room ?p 0" "fmlookup (queue ?p) 0 = Some []"
    by (simp_all add: subscribed_Subscribe has_room_def Subscribe_sel New_def chan_cap_def)
  ultimately show ?thesis using publish_delivers [of ?p "''news''" "''hi''"] by fastforce
qed

end
