(* ===== verification/Handlers.thy ===== *)
theory Handlers
  imports AdminCommands Broker
begin

text \<open>
  The handler of \<open>PUBLISH\<close> (pkg/commands/pubsub_commands.go), the dispatch table of
  pkg/commands/handler.go and the sixteen logical databases with their common broker
  (\<open>MultiDB\<close>, pkg/commands/database.go).  A handler is one of three kinds: it runs on the database,
  it may park its caller (\<open>BLPOP\<close>, \<open>BRPOP\<close>), or it talks to the broker.
\<close>

section \<open>Publishing\<close>

text \<open>\<open>None\<close> is the panic of a send on a closed channel.\<close>

definition publish :: "Value list \<Rightarrow> PubSub \<Rightarrow> (PubSub \<times> Value) option" where
  "publish args ps =
     (if length args \<noteq> 2 then Some (ps, err ''ERR wrong number of arguments for 'publish' command'')
      else case Publish (Str (args ! 0)) (Str (args ! 1)) ps of
        None \<Rightarrow> None
      | Some (ps, cnt) \<Rightarrow> Some (ps, integer cnt))"

section \<open>The dispatch table\<close>

datatype CommandHandler =
  Runs handler
| Waits "env \<Rightarrow> Value list \<Rightarrow> Database \<Rightarrow> blocking"
| Broadcasts "Value list \<Rightarrow> PubSub \<Rightarrow> (PubSub \<times> Value) option"

definition handler_table :: "(string \<times> CommandHandler) list" where
  "handler_table =
     [
      (''COMMAND'', Runs command_cmd), (''PING'', Runs ping), (''SET'', Runs set_cmd),
      (''GET'', Runs get), (''DEL'', Runs del), (''EXISTS'', Runs exists),
      (''MSET'', Runs mset_cmd), (''MGET'', Runs mget), (''TYPE'', Runs typeCmd),
      (''INCR'', Runs incr), (''DECR'', Runs decr), (''DECRBY'', Runs decrby),
      (''INCRBY'', Runs incrby), (''LPUSH'', Runs lpush), (''RPUSH'', Runs rpush),
      (''LPOP'', Runs lpop), (''RPOP'', Runs rpop), (''LRANGE'', Runs lrange),
      (''LLEN'', Runs llen), (''LINDEX'', Runs lindex), (''LSET'', Runs lset),
      (''LREM'', Runs lrem), (''BLPOP'', Waits blpop), (''BRPOP'', Waits brpop),
      (''SADD'', Runs sadd), (''SREM'', Runs srem), (''SISMEMBER'', Runs sismember),
      (''SMEMBERS'', Runs smembers), (''SCARD'', Runs scard), (''SPOP'', Runs spop),
      (''SINTER'', Runs sinter), (''SUNION'', Runs sunion), (''SDIFF'', Runs sdiff),
      (''HSET'', Runs hset), (''HGET'', Runs hget), (''HDEL'', Runs hdel),
      (''HEXISTS'', Runs hexists), (''HGETALL'', Runs hgetall), (''HKEYS'', Runs hkeys),
      (''HVALS'', Runs hvals), (''HLEN'', Runs hlen), (''HMSET'', Runs hmset),
      (''HMGET'', Runs hmget), (''HINCRBY'', Runs hincrby), (''EXPIRE'', Runs expire),
      (''PEXPIRE'', Runs pexpire), (''TTL'', Runs ttl), (''PTTL'', Runs pttl),
      (''PERSIST'', Runs persist), (''KEYS'', Runs keysCmd), (''SCAN'', Runs scan),
      (''DBSIZE'', Runs dbsize), (''HELLO'', Runs hello), (''PUBLISH'', Broadcasts publish)
     ]"

definition CommandHandlers :: "string \<Rightarrow> CommandHandler option" where
  "CommandHandlers = map_of handler_table"

text \<open>What a call of a handler leads to.\<close>

datatype outcome = Answer Database PubSub Value | Waiting Database "int option" | Crash

definition call_handler ::
  "CommandHandler \<Rightarrow> env \<Rightarrow> Value list \<Rightarrow> Database \<Rightarrow> PubSub \<Rightarrow> outcome" where
  "call_handler ch e args db ps =
     (case ch of
        Runs h \<Rightarrow> (case h e args db of (db', v) \<Rightarrow> Answer db' ps v)
      | Waits h \<Rightarrow> (case h e args db of
          Replied db' v \<Rightarrow> Answer db' ps v | Parked db' dl \<Rightarrow> Waiting db' dl)
      | Broadcasts h \<Rightarrow> (case h args ps of
          Some (ps', v) \<Rightarrow> Answer db ps' v | None \<Rightarrow> Crash))"

section \<open>The logical databases\<close>

record MultiDB =
  DBs :: "Database list"
  Broker :: PubSub

definition NewMultiDB :: MultiDB where
  "NewMultiDB = \<lparr>DBs = replicate NumDatabases newDatabase, Broker = New\<rparr>"

text \<open>Indexing the array outside its bounds panics.\<close>

definition DB :: "int \<Rightarrow> MultiDB \<Rightarrow> Database option" where
  "DB index m = (if 0 \<le> index \<and> index < int (length (DBs m)) then Some (DBs m ! nat index) else None)"

definition set_DB :: "int \<Rightarrow> Database \<Rightarrow> MultiDB \<Rightarrow> MultiDB" where
  "set_DB index db m = m\<lparr>DBs := (DBs m)[nat index := db]\<rparr>"

definition MultiDB_SweepExpired :: "env \<Rightarrow> MultiDB \<Rightarrow> MultiDB" where
  "MultiDB_SweepExpired e m = m\<lparr>DBs := map (SweepExpired e) (DBs m)\<rparr>"

section \<open>Every handler keeps the invariant\<close>

lemmas command_interps =
  command_cmd.command_axioms ping.command_axioms set_cmd.command_axioms get.command_axioms
  del.command_axioms exists.command_axioms mset_cmd.command_axioms mget.command_axioms
  typeCmd.command_axioms incr.command_axioms decr.command_axioms decrby.command_axioms
  incrby.command_axioms lpush.command_axioms rpush.command_axioms lpop.command_axioms
  rpop.command_axioms lrange.command_axioms llen.command_axioms lindex.command_axioms
  lset.command_axioms lrem.command_axioms sadd.command_axioms srem.command_axioms
  sismember.command_axioms smembers.command_axioms scard.command_axioms spop.command_axioms
  sinter.command_axioms sunion.command_axioms sdiff.command_axioms hset.command_axioms
  hget.command_axioms hdel.command_axioms hexists.command_axioms hgetall.command_axioms
  hkeys.command_axioms hvals.command_axioms hlen.command_axioms hmset.command_axioms
  hmget.command_axioms hincrby.command_axioms expire.command_axioms pexpire.command_axioms
  ttl.command_axioms pttl.command_axioms persist.command_axioms keysCmd.command_axioms
  scan.command_axioms dbsize.command_axioms hello.command_axioms

lemma CommandHandlers_Runs: "CommandHandlers c = Some (Runs h) \<Longrightarrow> command h"
  unfolding CommandHandlers_def
  by (drule map_of_SomeD) (auto simp: handler_table_def command_interps)

lemma CommandHandlers_Waits: "CommandHandlers c = Some (Waits h) \<Longrightarrow> h \<in> {blpop, brpop}"
  unfolding CommandHandlers_def
  by (drule map_of_SomeD) (auto simp: handler_table_def)

lemma CommandHandlers_Broadcasts: "CommandHandlers c = Some (Broadcasts h) \<Longrightarrow> h = publish"
  unfolding CommandHandlers_def
  by (drule map_of_SomeD) (auto simp: handler_table_def)

lemma pop_first_wf: "db_wf db \<Longrightarrow> db_wf (fst (pop_first left t keys db))"
proof (induction keys arbitrary: db)
  case (Cons key keys)
  define d where "d = expireIfNeeded t key db"
  have d: "db_wf d" using Cons.prems by (simp add: d_def db_inv)
  show ?case
  proof (cases "fmlookup (Lists d) key")
    case None
    then show ?thesis using Cons.IH [OF d] by (simp add: lists.look d_def)
  next
    case (Some l)
    obtain l' r where pop: "(if left then LPop l else RPop l) = (l', r)" by force
    show ?thesis
      using Some d Cons.IH [OF d] db_wf_store_list [OF d]
      by (cases r) (simp_all add: lists.look d_def [symmetric] pop Let_def store_list_cases
          del: pop_first.simps add: pop_first.simps(2))
  qed
qed simp

fun blocking_db :: "blocking \<Rightarrow> Database" where
  "blocking_db (Replied db v) = db"
| "blocking_db (Parked db dl) = db"

lemma block_iter_wf: "db_wf db \<Longrightarrow> db_wf (blocking_db (block_iter left t keys dl db))"
  using pop_first_wf [of db left t keys]
  by (auto simp: block_iter_def split: prod.splits option.splits)

lemma blockingPop_wf: "db_wf db \<Longrightarrow> db_wf (blocking_db (blockingPop e args db left))"
  by (simp add: blockingPop_def Let_def block_iter_wf split: option.splits float_reading.splits)

lemma call_handler_wf:
  assumes "CommandHandlers c = Some ch" and "fair (map_order e)" and "db_wf db" and "ps_inv ps"
  shows "case call_handler ch e args db ps of
      Answer db' ps' v \<Rightarrow> db_wf db' \<and> ps_inv ps'
    | Waiting db' dl \<Rightarrow> db_wf db'
    | Crash \<Rightarrow> False"
proof (cases ch)
  case (Runs h)
  then have "db_wf (fst (h e args db))"
    using assms CommandHandlers_Runs command.keeps_wf by blast
  then show ?thesis using Runs assms(4) by (cases "h e args db") (simp add: call_handler_def)
next
  case (Waits h)
  then have "h \<in> {blpop, brpop}" using assms(1) CommandHandlers_Waits by blast
  then have "db_wf (blocking_db (h e args db))"
    using blockingPop_wf [OF assms(3)] by (auto simp: blpop_def brpop_def)
  then show ?thesis using Waits assms(4) by (cases "h e args db") (simp_all add: call_handler_def)
next
  case (Broadcasts h)
  then have "h = publish" using assms(1) CommandHandlers_Broadcasts by blast
  moreover obtain p' n where "Publish (Str (args ! 0)) (Str (args ! 1)) ps = Some (p', n)" "ps_inv p'"
    using ps_inv_Publish [OF assms(4)] by blast
  ultimately show ?thesis using Broadcasts assms(3,4)
    by (auto simp: call_handler_def publish_def)
qed

section \<open>Reading and replacing one database\<close>

lemma DB_set_DB:
  "0 \<le> i \<Longrightarrow> i < int (length (DBs m)) \<Longrightarrow>
   DB j (set_DB i db m) = (if i = j then Some db else DB j m)"
  by (auto simp: DB_def set_DB_def nth_list_update nat_eq_iff)

lemma DB_Some_iff: "(\<exists>db. DB i m = Some db) \<longleftrightarrow> 0 \<le> i \<and> i < int (length (DBs m))"
  by (simp add: DB_def)

lemma DB_NewMultiDB: "DB i NewMultiDB = (if 0 \<le> i \<and> i < 16 then Some newDatabase else None)"
  by (auto simp: DB_def NewMultiDB_def NumDatabases_def)

section \<open>Blocked and refused calls\<close>

lemma blockingPop_unchanged:
  assumes "db_wf db"
  shows "blockingPop e args db left = Parked d dl \<Longrightarrow> live (now e) d = live (now e) db"
    and "blockingPop e args db left = Replied d v \<Longrightarrow> is_error v \<Longrightarrow> live (now e) d = live (now e) db"
proof -
  show "live (now e) d = live (now e) db" if "blockingPop e args db left = Parked d dl"
    using that block_iter_parks(1) [OF assms]
    by (auto simp: blockingPop_def Let_def split: if_splits option.splits float_reading.splits)
  show "live (now e) d = live (now e) db" if "blockingPop e args db left = Replied d v" "is_error v"
    using that
    by (auto simp: blockingPop_def Let_def block_iter_def split: if_splits option.splits float_reading.splits prod.splits)
qed

lemma waits_blockingPop:
  "CommandHandlers c = Some (Waits h) \<Longrightarrow> \<exists>left. h e args db = blockingPop e args db left"
  by (drule CommandHandlers_Waits) (auto simp: blpop_def brpop_def)

lemma refused_call:
  assumes "CommandHandlers c = Some ch" and "db_wf db" and "call_handler ch e args db ps = Answer db' ps' v"
    and "is_error v"
  shows "live (now e) db' = live (now e) db \<and> ps' = ps"
proof (cases ch)
  case (Runs h)
  then have "command h" using assms(1) CommandHandlers_Runs by simp
  moreover have "h e args db = (db', v)" "ps' = ps"
    using assms(3) Runs by (auto simp: call_handler_def split: prod.splits)
  ultimately show ?thesis using command.error_unchanged [of h e args db] assms(4) by simp
next
  case (Waits h)
  then obtain left where "h e args db = blockingPop e args db left"
    using assms(1) waits_blockingPop by blast
  moreover have "h e args db = Replied db' v" "ps' = ps"
    using assms(3) Waits by (auto simp: call_handler_def split: blocking.splits)
  ultimately show ?thesis using blockingPop_unchanged(2) [OF assms(2), of e args left db' v] assms(4) by simp
next
  case (Broadcasts h)
  then have "h = publish" using assms(1) CommandHandlers_Broadcasts by simp
  then show ?thesis
    using assms(3,4) Broadcasts by (auto simp: call_handler_def publish_def split: option.splits if_splits)
qed

lemma parked_call:
  assumes "CommandHandlers c = Some ch" and "db_wf db" and "call_handler ch e args db ps = Waiting db' dl"
  shows "live (now e) db' = live (now e) db"
proof (cases ch)
  case (Waits h)
  then obtain left where "h e args db = blockingPop e args db left"
    using assms(1) waits_blockingPop by blast
  moreover have "h e args db = Parked db' dl"
    using assms(3) Waits by (auto simp: call_handler_def split: blocking.splits)
  ultimately show ?thesis using blockingPop_unchanged(1) [OF assms(2), of e args left db' dl] by simp
qed (use assms(3) in \<open>auto simp: call_handler_def split: prod.splits option.splits\<close>)

text \<open>The handlers to which an expired key is an absent key.\<close>

lemmas lazy_interps =
  command_cmd.lazy_command_axioms ping.lazy_command_axioms get.lazy_command_axioms
  del.lazy_command_axioms exists.lazy_command_axioms mget.lazy_command_axioms
  typeCmd.lazy_command_axioms incr.lazy_command_axioms decr.lazy_command_axioms decrby.lazy_command_axioms
  incrby.lazy_command_axioms lpush.lazy_command_axioms rpush.lazy_command_axioms lpop.lazy_command_axioms
  rpop.lazy_command_axioms lrange.lazy_command_axioms llen.lazy_command_axioms lindex.lazy_command_axioms
  lset.lazy_command_axioms lrem.lazy_command_axioms sadd.lazy_command_axioms srem.lazy_command_axioms
  sismember.lazy_command_axioms smembers.lazy_command_axioms scard.lazy_command_axioms spop.lazy_command_axioms
  sinter.lazy_command_axioms sunion.lazy_command_axioms sdiff.lazy_command_axioms hset.lazy_command_axioms
  hget.lazy_command_axioms hdel.lazy_command_axioms hexists.lazy_command_axioms hgetall.lazy_command_axioms
  hkeys.lazy_command_axioms hvals.lazy_command_axioms hlen.lazy_command_axioms hmset.lazy_command_axioms
  hmget.lazy_command_axioms hincrby.lazy_command_axioms expire.lazy_command_axioms pexpire.lazy_command_axioms
  ttl.lazy_command_axioms pttl.lazy_command_axioms persist.lazy_command_axioms hello.lazy_command_axioms

lemma lazy_Runs:
  "CommandHandlers c = Some (Runs h) \<Longrightarrow> c \<notin> {''SET'', ''MSET'', ''KEYS'', ''SCAN'', ''DBSIZE''} \<Longrightarrow> lazy_command h"
  unfolding CommandHandlers_def handler_table_def
  by (drule map_of_SomeD, elim set_ConsD [THEN disjE]) (simp_all add: lazy_interps)

section \<open>The command table\<close>

text \<open>A handler enforces an arity when a call with a number of arguments it rules out is refused.\<close>

definition arity_violated :: "int \<Rightarrow> Value list \<Rightarrow> bool" where
  "arity_violated a args \<longleftrightarrow> (if a < 0 then int (length args) + 1 < - a else int (length args) + 1 \<noteq> a)"

definition arity_enforced :: "handler \<Rightarrow> int \<Rightarrow> bool" where
  "arity_enforced h a \<longleftrightarrow>
     (\<forall>e args db. arity_violated a args \<longrightarrow> is_error (snd (h e args db)) \<and> fst (h e args db) = db)"

lemmas arity_simps = arity_enforced_def arity_violated_def Let_def

lemma handlers_enforce_arity:
  "arity_enforced command_cmd (-1)"
  "arity_enforced ping (-1)"
  "arity_enforced set_cmd 3"
  "arity_enforced get 2"
  "arity_enforced del (-2)"
  "arity_enforced exists (-2)"
  "arity_enforced mset_cmd (-3)"
  "arity_enforced mget (-2)"
  "arity_enforced typeCmd 2"
  "arity_enforced incr 2"
  "arity_enforced decr 2"
  "arity_enforced decrby 3"
  "arity_enforced incrby 3"
  "arity_enforced lpush (-3)"
  "arity_enforced rpush (-3)"
  "arity_enforced lpop 2"
  "arity_enforced rpop 2"
  "arity_enforced lrange 4"
  "arity_enforced llen 2"
  "arity_enforced lindex 3"
  "arity_enforced lset 4"
  "arity_enforced lrem 4"
  "arity_enforced sadd (-3)"
  "arity_enforced srem (-3)"
  "arity_enforced sismember 3"
  "arity_enforced smembers 2"
  "arity_enforced scard 2"
  "arity_enforced spop 2"
  "arity_enforced sinter (-2)"
  "arity_enforced sunion (-2)"
  "arity_enforced sdiff (-2)"
  "arity_enforced hset 4"
  "arity_enforced hget 3"
  "arity_enforced hdel (-3)"
  "arity_enforced hexists 3"
  "arity_enforced hgetall 2"
  "arity_enforced hkeys 2"
  "arity_enforced hvals 2"
  "arity_enforced hlen 2"
  "arity_enforced hmset (-4)"
  "arity_enforced hmget (-3)"
  "arity_enforced hincrby 4"
  "arity_enforced expire 3"
  "arity_enforced pexpire 3"
  "arity_enforced ttl 2"
  "arity_enforced pttl 2"
  "arity_enforced persist 2"
  "arity_enforced keysCmd 2"
  "arity_enforced scan (-2)"
  "arity_enforced hello (-1)"
  by (simp_all add: arity_simps
      command_cmd_def ping_def set_cmd_def get_def del_def exists_def mset_cmd_def mget_def
      typeCmd_def incr_def decr_def decrby_def incrby_def lpush_def rpush_def lpop_def rpop_def
      lrange_def llen_def lindex_def lset_def lrem_def sadd_def srem_def sismember_def
      smembers_def scard_def spop_def sinter_def sunion_def sdiff_def hset_def hget_def
      hdel_def hexists_def hgetall_def hkeys_def hvals_def hlen_def hmset_def hmget_def
      hincrby_def expire_def pexpire_def ttl_def pttl_def persist_def keysCmd_def scan_def
      dbsize_def hello_def)

lemma commandSpecs_distinct: "distinct (map name commandSpecs)"
  by code_simp

text \<open>Every description with keys has a positive step, so the key loop of \<open>COMMAND GETKEYS\<close> ends.\<close>

lemma commandSpecs_step: "sp \<in> set commandSpecs \<Longrightarrow> firstKey sp \<noteq> 0 \<Longrightarrow> 0 < step sp"
proof -
  have "list_all (\<lambda>sp. firstKey sp \<noteq> 0 \<longrightarrow> 0 < step sp) commandSpecs" by code_simp
  then show "sp \<in> set commandSpecs \<Longrightarrow> firstKey sp \<noteq> 0 \<Longrightarrow> 0 < step sp" by (simp add: list_all_iff)
qed

definition described :: "string \<Rightarrow> int option" where
  "described c = map_option arity (List.find (\<lambda>sp. name sp = c) commandSpecs)"

lemma described_spec:
  assumes "described c = Some a"
  shows "\<exists>!sp. sp \<in> set commandSpecs \<and> name sp = c" and "\<exists>sp\<in>set commandSpecs. name sp = c \<and> arity sp = a"
proof -
  show 1: "\<exists>sp\<in>set commandSpecs. name sp = c \<and> arity sp = a"
    using assms by (auto simp: described_def find_Some_iff)
  then show "\<exists>!sp. sp \<in> set commandSpecs \<and> name sp = c"
    using commandSpecs_distinct by (auto simp: distinct_map inj_on_def)
qed

lemma described_names:
  "described ''COMMAND'' = Some (-1)"
  "described ''PING'' = Some (-1)"
  "described ''SET'' = Some 3"
  "described ''GET'' = Some 2"
  "described ''DEL'' = Some (-2)"
  "described ''EXISTS'' = Some (-2)"
  "described ''MSET'' = Some (-3)"
  "described ''MGET'' = Some (-2)"
  "described ''TYPE'' = Some 2"
  "described ''INCR'' = Some 2"
  "described ''DECR'' = Some 2"
  "described ''DECRBY'' = Some 3"
  "described ''INCRBY'' = Some 3"
  "described ''LPUSH'' = Some (-3)"
  "described ''RPUSH'' = Some (-3)"
  "described ''LPOP'' = Some 2"
  "described ''RPOP'' = Some 2"
  "described ''LRANGE'' = Some 4"
  "described ''LLEN'' = Some 2"
  "described ''LINDEX'' = Some 3"
  "described ''LSET'' = Some 4"
  "described ''LREM'' = Some 4"
  "described ''BLPOP'' = Some (-3)"
  "described ''BRPOP'' = Some (-3)"
  "described ''SADD'' = Some (-3)"
  "described ''SREM'' = Some (-3)"
  "described ''SISMEMBER'' = Some 3"
  "described ''SMEMBERS'' = Some 2"
  "described ''SCARD'' = Some 2"
  "described ''SPOP'' = Some 2"
  "described ''SINTER'' = Some (-2)"
  "described ''SUNION'' = Some (-2)"
  "described ''SDIFF'' = Some (-2)"
  "described ''HSET'' = Some 4"
  "described ''HGET'' = Some 3"
  "described ''HDEL'' = Some (-3)"
  "described ''HEXISTS'' = Some 3"
  "described ''HGETALL'' = Some 2"
  "described ''HKEYS'' = Some 2"
  "described ''HVALS'' = Some 2"
  "described ''HLEN'' = Some 2"
  "described ''HMSET'' = Some (-4)"
  "described ''HMGET'' = Some (-3)"
  "described ''HINCRBY'' = Some 4"
  "described ''EXPIRE'' = Some 3"
  "described ''PEXPIRE'' = Some 3"
  "described ''TTL'' = Some 2"
  "described ''PTTL'' = Some 2"
  "described ''PERSIST'' = Some 2"
  "described ''KEYS'' = Some 2"
  "described ''SCAN'' = Some (-2)"
  "described ''DBSIZE'' = Some 1"
  "described ''HELLO'' = Some (-1)"
  "described ''PUBLISH'' = Some 3"
  by code_simp+

lemma table_described:
  "(c, ch) \<in> set handler_table \<Longrightarrow> \<exists>a. described c = Some a \<and> (\<forall>h. ch = Runs h \<longrightarrow> c \<noteq> ''DBSIZE'' \<longrightarrow> arity_enforced h a)"
  unfolding handler_table_def
  by (elim set_ConsD [THEN disjE]) (simp_all add: described_names handlers_enforce_arity)

section \<open>Properties of the dispatch table\<close>







end
