(* ===== verification/Aof.thy ===== *)
theory Aof
  imports Resp GoStrings
begin

text \<open>
  The append-only file of pkg/persistence/aof.go.  The file is the sequence of its bytes; every
  value is appended by \<open>resp.Writer.Write\<close> and a \<open>SELECT\<close> entry precedes it whenever the logical
  database changes.  \<open>Read\<close> parses the file from its start and hands each entry to a callback,
  here a state transformer \<open>fn\<close> whose \<open>None\<close> is a run-time panic.  Here the file
  system takes every byte (a full one is in \<open>LogWriter\<close>, \<open>syncLoop\<close> in \<open>Lifecycle\<close>); the values
  that reach \<open>Write\<close> come from the parser, for which the writer does not fail (\<open>Write_wf\<close>).
\<close>

section \<open>Operations\<close>

record Aof =
  contents :: string
  lastDB :: int

definition NewAof :: "string \<Rightarrow> Aof" where
  "NewAof bytes = \<lparr>contents = bytes, lastDB = -1\<rparr>"

definition selectEntry :: "int \<Rightarrow> Value" where
  "selectEntry dbIndex = array [bulk ''SELECT'', bulk (Itoa dbIndex)]"

definition append_value :: "Value \<Rightarrow> Aof \<Rightarrow> Aof" where
  "append_value v aof = aof\<lparr>contents := contents aof @ fst (Write v)\<rparr>"

definition Aof_Write :: "int \<Rightarrow> Value \<Rightarrow> Aof \<Rightarrow> Aof" where
  "Aof_Write dbIndex v aof =
     (let aof = (if dbIndex \<noteq> lastDB aof
                 then (append_value (selectEntry dbIndex) aof)\<lparr>lastDB := dbIndex\<rparr> else aof)
      in append_value v aof)"

definition isSelectEntry :: "Value \<Rightarrow> bool" where
  "isSelectEntry v \<longleftrightarrow>
     Type v = ArrayType \<and> length (Array v) = 2 \<and> EqualFold (Str (Array v ! 0)) ''SELECT''"

datatype 's read_result = ReadOk 's | ReadFailed read_error 's | ReadPanic

function read_loop :: "(int \<Rightarrow> Value \<Rightarrow> 's \<Rightarrow> 's option) \<Rightarrow> string \<Rightarrow> int \<Rightarrow> 's \<Rightarrow> 's read_result" where
  "read_loop fn bytes currentDB st =
     (case Parse bytes of
        Err e \<Rightarrow> if e = EOF then ReadOk st else ReadFailed e st
      | Panic \<Rightarrow> ReadPanic
      | Ok v rest \<Rightarrow>
          if isSelectEntry v then
            (case Atoi (Str (Array v ! 1)) of
               Inr idx \<Rightarrow> read_loop fn rest idx st
             | Inl _ \<Rightarrow> read_loop fn rest currentDB st)
          else
            (case fn currentDB v st of
               None \<Rightarrow> ReadPanic
             | Some st' \<Rightarrow> read_loop fn rest currentDB st'))"
  by pat_completeness auto
termination
  by (relation "measure (\<lambda>(fn, bytes, currentDB, st). length bytes)") (auto dest: Parse_consumes)

declare read_loop.simps [simp del]

definition Aof_Read :: "(int \<Rightarrow> Value \<Rightarrow> 's \<Rightarrow> 's option) \<Rightarrow> Aof \<Rightarrow> 's \<Rightarrow> 's read_result" where
  "Aof_Read fn aof st = read_loop fn (contents aof) 0 st"

section \<open>Reading back what was written\<close>

text \<open>The writes of one run of the server, and the calls of the callback they stand for.\<close>

definition write_entries :: "(int \<times> Value) list \<Rightarrow> Aof \<Rightarrow> Aof" where
  "write_entries es aof = fold (\<lambda>(i, v). Aof_Write i v) es aof"

fun run_entries :: "(int \<Rightarrow> Value \<Rightarrow> 's \<Rightarrow> 's option) \<Rightarrow> (int \<times> Value) list \<Rightarrow> 's \<Rightarrow> 's read_result" where
  "run_entries fn [] st = ReadOk st"
| "run_entries fn ((i, v) # es) st =
     (case fn i v st of None \<Rightarrow> ReadPanic | Some st' \<Rightarrow> run_entries fn es st')"

definition entry_ok :: "int \<times> Value \<Rightarrow> bool" where
  "entry_ok = (\<lambda>(i, v). 0 \<le> i \<and> i < 2 ^ 32 \<and> wf_value v \<and> \<not> isSelectEntry v)"

lemma length_itoa_digits: "length (itoa_digits n) \<le> Suc n"
proof (induction n rule: itoa_digits.induct)
  case (1 n)
  show ?case
  proof (cases "n < 10")
    case False
    then have "length (itoa_digits (n div 10)) \<le> Suc (n div 10)" using 1 by simp
    with False show ?thesis by (subst itoa_digits.simps) simp
  qed (subst itoa_digits.simps, simp)
qed

lemma wf_selectEntry: "0 \<le> i \<Longrightarrow> i < 2 ^ 32 \<Longrightarrow> wf_value (selectEntry i)"
  using length_itoa_digits [of "nat i"]
  by (simp add: selectEntry_def makeslice_ok_def value_size_def Itoa_def)

lemma isSelectEntry_selectEntry: "isSelectEntry (selectEntry i)"
  by (simp add: isSelectEntry_def selectEntry_def EqualFold_refl is_ascii_def)

lemma read_loop_Nil: "read_loop fn [] i st = ReadOk st"
  by (simp add: read_loop.simps)

lemma read_loop_select:
  assumes "0 \<le> i" and "i < 2 ^ 32"
  shows "read_loop fn (fst (Write (selectEntry i)) @ rest) j st = read_loop fn rest i st"
proof -
  have "Atoi (Itoa i) = Inr i" using assms by (simp add: int64_def)
  then show ?thesis
    using Parse_Write [OF wf_selectEntry [OF assms], of rest] isSelectEntry_selectEntry [of i]
    by (subst read_loop.simps) (simp add: selectEntry_def)
qed

lemma read_loop_entry:
  assumes "wf_value v" and "\<not> isSelectEntry v"
  shows "read_loop fn (fst (Write v) @ rest) j st =
    (case fn j v st of None \<Rightarrow> ReadPanic | Some st' \<Rightarrow> read_loop fn rest j st')"
  using assms by (subst read_loop.simps) (simp add: Parse_Write)

text \<open>The bytes the writes append do not depend on what the file already holds.\<close>

fun entry_bytes :: "int \<Rightarrow> (int \<times> Value) list \<Rightarrow> string" where
  "entry_bytes j [] = []"
| "entry_bytes j ((i, v) # es) =
     (if i \<noteq> j then fst (Write (selectEntry i)) else []) @ fst (Write v) @ entry_bytes i es"

lemma write_entries_contents:
  "contents (write_entries es aof) = contents aof @ entry_bytes (lastDB aof) es"
  by (induction es arbitrary: aof)
    (auto simp: write_entries_def Aof_Write_def append_value_def Let_def)

text \<open>Appending and reading back replays exactly the written entries, in order.\<close>

lemma read_loop_entry_bytes:
  assumes "list_all entry_ok es" and "j = -1 \<or> j = i"
  shows "read_loop fn (entry_bytes j es @ rest) i st =
    (case run_entries fn es st of
       ReadOk st' \<Rightarrow> read_loop fn rest (if es = [] then i else fst (last es)) st'
     | ReadFailed e st' \<Rightarrow> ReadFailed e st' | ReadPanic \<Rightarrow> ReadPanic)"
  using assms
proof (induction es arbitrary: i j st)
  case (Cons ev es)
  obtain k v where ev: "ev = (k, v)" by (cases ev)
  have ok: "0 \<le> k" "k < 2 ^ 32" "wf_value v" "\<not> isSelectEntry v" "list_all entry_ok es"
    using Cons.prems ev by (simp_all add: entry_ok_def)
  have "read_loop fn (entry_bytes j (ev # es) @ rest) i st =
    read_loop fn (fst (Write v) @ entry_bytes k es @ rest) k st"
    using Cons.prems(2) ok by (auto simp: ev read_loop_select)
  then show ?case
    using Cons.IH [OF ok(5), of k k] ok
    by (cases "es = []") (simp_all add: ev read_loop_entry split: option.splits read_result.splits)
qed (simp add: read_loop_Nil)

lemma run_entries_append:
  "run_entries fn (es @ es') st =
     (case run_entries fn es st of
        ReadOk st' \<Rightarrow> run_entries fn es' st' | ReadFailed e st' \<Rightarrow> ReadFailed e st' | ReadPanic \<Rightarrow> ReadPanic)"
  by (induction es arbitrary: st) (auto split: option.splits)

text \<open>
  A log that grew over several runs of the server: each run starts with \<open>NewAof\<close> on the bytes the
  previous ones left, so its first entry is always preceded by a \<open>SELECT\<close>.
\<close>

definition sessions :: "(int \<times> Value) list list \<Rightarrow> string" where
  "sessions ess = fold (\<lambda>es bytes. contents (write_entries es (NewAof bytes))) ess []"

lemma sessions_bytes: "sessions ess = concat (map (entry_bytes (-1)) ess)"
proof -
  have "fold (\<lambda>es bytes. contents (write_entries es (NewAof bytes))) ess b = b @ concat (map (entry_bytes (-1)) ess)" for b
    by (induction ess arbitrary: b) (simp_all add: write_entries_contents NewAof_def)
  then show ?thesis by (simp add: sessions_def)
qed

lemma read_loop_sessions:
  assumes "list_all (list_all entry_ok) ess"
  shows "read_loop fn (concat (map (entry_bytes (-1)) ess)) i st = run_entries fn (concat ess) st"
  using assms
proof (induction ess arbitrary: i st)
  case (Cons es ess)
  then show ?case
    by (simp add: read_loop_entry_bytes run_entries_append split: read_result.splits)
qed (simp add: read_loop_Nil)

section \<open>Property of the log\<close>

text \<open>
  The log is read back exactly.  Let the server run several times, each time appending commands
  for arbitrary logical databases to the file the previous runs left.  Reading the file calls the
  callback for every command, in order, with the database it was written for; \<open>SELECT\<close> entries are
  consumed silently, and the read ends without an error.
\<close>

lemma log_read_back:
  assumes "list_all (list_all entry_ok) ess"
  shows "Aof_Read fn (NewAof (sessions ess)) st = run_entries fn (concat ess) st"
  using read_loop_sessions [OF assms] by (simp add: Aof_Read_def NewAof_def sessions_bytes)

end
