(* ===== verification/Replay.thy ===== *)
theory Replay
  imports Handlers Aof
begin

text \<open>
  Replaying a logged command at start-up: \<open>shouldPersist\<close>, \<open>replayCommand\<close>, \<open>replayIncrement\<close>,
  \<open>replayListPop\<close> and \<open>parseInt\<close> of pkg/server/tcp.go.  The main lemma is that replaying a
  logged command has the effect the handler had when the command ran.
\<close>

section \<open>Which commands are logged\<close>

definition shouldPersist :: "string \<Rightarrow> bool" where
  "shouldPersist cmd \<longleftrightarrow>
     cmd \<in> {''SET'', ''DEL'', ''MSET''} \<or>
     cmd \<in> {''INCR'', ''DECR'', ''INCRBY'', ''DECRBY''} \<or>
     cmd \<in> {''LPUSH'', ''RPUSH'', ''LPOP'', ''RPOP'', ''LSET'', ''LREM'', ''BLPOP'', ''BRPOP''} \<or>
     cmd \<in> {''SADD'', ''SREM'', ''SPOP''} \<or>
     cmd \<in> {''HSET'', ''HDEL'', ''HMSET'', ''HINCRBY''}"

section \<open>Replay\<close>

datatype parseIntError = parseIntError string

fun replay_parseInt_loop :: "string \<Rightarrow> string \<Rightarrow> int \<Rightarrow> parseIntError + int" where
  "replay_parseInt_loop s [] result = Inr result"
| "replay_parseInt_loop s (c # cs) result =
     (if c < CHR ''0'' \<or> c > CHR ''9'' then Inl (parseIntError s)
      else replay_parseInt_loop s cs (wrap64 (result * 10 + digit_val c)))"

definition replay_parseInt :: "string \<Rightarrow> parseIntError + int" where
  "replay_parseInt s =
     (if s = '''' then Inr 0
      else
        let negative = (s ! 0 = CHR ''-'');
            start = (if s ! 0 = CHR ''-'' then 1 else if s ! 0 = CHR ''+'' then 1 else 0)
        in case replay_parseInt_loop s (drop start s) 0 of
             Inl e \<Rightarrow> Inl e
           | Inr result \<Rightarrow> Inr (if negative then wrap64 (- result) else result))"

definition replayIncrement :: "Database \<Rightarrow> string \<Rightarrow> int \<Rightarrow> Database" where
  "replayIncrement db key amount =
     (let val = (case fmlookup (Store db) key of None \<Rightarrow> ''0'' | Some v \<Rightarrow> v) in
      case replay_parseInt val of
        Inl _ \<Rightarrow> db
      | Inr n \<Rightarrow> db\<lparr>Store := fmupd key (Itoa (wrap64 (n + amount))) (Store db)\<rparr>)"

fun replayListPop :: "int \<Rightarrow> Value list \<Rightarrow> Database \<Rightarrow> bool \<Rightarrow> Database" where
  "replayListPop t [] db left = db"
| "replayListPop t (arg # args) db left =
     (let key = Str arg in
      case GetList t key db of
        (db, None) \<Rightarrow> replayListPop t args db left
      | (db, Some l) \<Rightarrow>
          (case (if left then LPop l else RPop l) of
             (l, None) \<Rightarrow> replayListPop t args db left
           | (l, Some _) \<Rightarrow>
               let db = put_list key l db
               in if LLen l = 0 then drop_list key db else db))"

definition replay_switch :: "env \<Rightarrow> string \<Rightarrow> Value list \<Rightarrow> Database \<Rightarrow> Database" where
  "replay_switch e cmd args db =
     (if cmd = ''SET'' then
        (if length args \<ge> 2
         then db\<lparr>Store := fmupd (Str (args ! 0)) (Str (args ! 1)) (Store db),
                Expires := fmdrop (Str (args ! 0)) (Expires db)\<rparr>
         else db)
      else if cmd = ''DEL'' then
        (if length args \<ge> 1 then fold (\<lambda>arg db. fst (DeleteKey (now e) (Str arg) db)) args db else db)
      else if cmd = ''MSET'' then
        (if length args \<ge> 2 \<and> length args mod 2 = 0 then mset_loop args db else db)
      else if cmd = ''INCR'' then
        (if length args \<ge> 1 then replayIncrement db (Str (args ! 0)) 1 else db)
      else if cmd = ''DECR'' then
        (if length args \<ge> 1 then replayIncrement db (Str (args ! 0)) (-1) else db)
      else if cmd = ''INCRBY'' then
        (if length args \<ge> 2 then
           (case replay_parseInt (Str (args ! 1)) of
              Inr n \<Rightarrow> replayIncrement db (Str (args ! 0)) n | Inl _ \<Rightarrow> db)
         else db)
      else if cmd = ''DECRBY'' then
        (if length args \<ge> 2 then
           (case replay_parseInt (Str (args ! 1)) of
              Inr n \<Rightarrow> replayIncrement db (Str (args ! 0)) (wrap64 (- n)) | Inl _ \<Rightarrow> db)
         else db)
      else if cmd = ''LPUSH'' then
        (if length args \<ge> 2 then
           let key = Str (args ! 0); values = map Str (drop 1 args);
               (db, l) = GetOrCreateList (now e) key db
           in put_list key (fst (LPush values l)) db
         else db)
      else if cmd = ''RPUSH'' then
        (if length args \<ge> 2 then
           let key = Str (args ! 0); values = map Str (drop 1 args);
               (db, l) = GetOrCreateList (now e) key db
           in put_list key (fst (RPush values l)) db
         else db)
      else if cmd = ''LPOP'' then replayListPop (now e) args db True
      else if cmd = ''RPOP'' then replayListPop (now e) args db False
      else if cmd = ''BLPOP'' then
        (if length args \<ge> 2 then replayListPop (now e) (take (length args - 1) args) db True else db)
      else if cmd = ''BRPOP'' then
        (if length args \<ge> 2 then replayListPop (now e) (take (length args - 1) args) db False else db)
      else if cmd = ''LSET'' then
        (if length args \<ge> 3 then
           let key = Str (args ! 0) in
           case GetList (now e) key db of
             (db, None) \<Rightarrow> db
           | (db, Some l) \<Rightarrow>
               (case replay_parseInt (Str (args ! 1)) of
                  Inr index \<Rightarrow> put_list key (fst (LSet index (Str (args ! 2)) l)) db
                | Inl _ \<Rightarrow> db)
         else db)
      else if cmd = ''LREM'' then
        (if length args \<ge> 3 then
           let key = Str (args ! 0) in
           case GetList (now e) key db of
             (db, None) \<Rightarrow> db
           | (db, Some l) \<Rightarrow>
               (case replay_parseInt (Str (args ! 1)) of
                  Inr cnt \<Rightarrow>
                    let l = fst (LRem cnt (Str (args ! 2)) l); db = put_list key l db
                    in if LLen l = 0 then drop_list key db else db
                | Inl _ \<Rightarrow> db)
         else db)
      else if cmd = ''SADD'' then
        (if length args \<ge> 2 then
           let key = Str (args ! 0); members = map Str (drop 1 args);
               (db, s) = GetOrCreateSet (now e) key db
           in put_set key (fst (SAdd members s)) db
         else db)
      else if cmd = ''SREM'' then
        (if length args \<ge> 2 then
           let key = Str (args ! 0) in
           case GetSet (now e) key db of
             (db, None) \<Rightarrow> db
           | (db, Some s) \<Rightarrow>
               let s = fst (SRem (map Str (drop 1 args)) s); db = put_set key s db
               in if SCard s = 0 then drop_set key db else db
         else db)
      else if cmd = ''SPOP'' then
        (if length args \<ge> 1 then
           let key = Str (args ! 0) in
           case GetSet (now e) key db of
             (db, None) \<Rightarrow> db
           | (db, Some s) \<Rightarrow>
               let s = fst (SPop (map_order e) s); db = put_set key s db
               in if SCard s = 0 then drop_set key db else db
         else db)
      else if cmd = ''HSET'' then
        (if length args \<ge> 3 then
           let key = Str (args ! 0); (db, h) = GetOrCreateHash (now e) key db
           in put_hash key (fst (HSet (Str (args ! 1)) (Str (args ! 2)) h)) db
         else db)
      else if cmd = ''HDEL'' then
        (if length args \<ge> 2 then
           let key = Str (args ! 0) in
           case GetHash (now e) key db of
             (db, None) \<Rightarrow> db
           | (db, Some h) \<Rightarrow>
               let h = fst (HDel (map Str (drop 1 args)) h); db = put_hash key h db
               in if HLen h = 0 then drop_hash key db else db
         else db)
      else if cmd = ''HMSET'' then
        (if length args \<ge> 3 \<and> length args mod 2 = 1 then
           let key = Str (args ! 0); pairs = pairs_loop (drop 1 args) fmempty;
               (db, h) = GetOrCreateHash (now e) key db
           in put_hash key (HMSet (map_order e) pairs h) db
         else db)
      else if cmd = ''HINCRBY'' then
        (if length args \<ge> 3 then
           (case replay_parseInt (Str (args ! 2)) of
              Inr n \<Rightarrow>
                let key = Str (args ! 0); (db, h) = GetOrCreateHash (now e) key db
                in put_hash key (fst (HIncrBy (Str (args ! 1)) n h)) db
            | Inl _ \<Rightarrow> db)
         else db)
      else db)"

definition replayCommand :: "env \<Rightarrow> Value \<Rightarrow> Database \<Rightarrow> Database" where
  "replayCommand e v db =
     (if Type v \<noteq> ArrayType \<or> length (Array v) = 0 then db
      else replay_switch e (ToUpper (unicode_ToUpper e) (Str (Array v ! 0))) (drop 1 (Array v)) db)"

section \<open>The parser of the replay agrees with the handlers' parser\<close>

lemma replay_parseInt_loop_eq:
  "replay_parseInt_loop s cs r = map_sum (\<lambda>_. parseIntError s) (\<lambda>n. n) (parseInt_loop s cs r)"
  by (induction s cs r rule: parseInt_loop.induct) auto

lemma replay_parseInt_eq: "replay_parseInt s = map_sum (\<lambda>_. parseIntError s) (\<lambda>n. n) (parseInt s)"
  by (auto simp: replay_parseInt_def parseInt_def Let_def replay_parseInt_loop_eq split: sum.splits)

lemma replay_parseInt_Atoi: "Atoi s = Inr n \<Longrightarrow> replay_parseInt s = Inr n"
  by (simp add: replay_parseInt_eq parseInt_Atoi)

lemma replayIncrement_eq:
  assumes "Expires db = fmempty" and "\<not> is_error (snd (increment t db key n))"
  shows "replayIncrement db key n = fst (increment t db key n)"
  using assms
  by (auto simp: replayIncrement_def increment_def Let_def not_an_integer_def replay_parseInt_Atoi
      split: sum.splits option.splits)

section \<open>The contract of a logged command\<close>

text \<open>
  A command without expiry times whose replay, at another time and with another iteration order,
  has the effect the handler had.  Every logged handler meets it except \<open>SPOP\<close>, whose popped
  member is not in the log.
\<close>

locale logged_command = ttl_free_command h for h +
  fixes cmd :: string
  assumes replay:
    "Expires db = fmempty \<Longrightarrow> db_wf db \<Longrightarrow> fair (map_order e) \<Longrightarrow> fair (map_order e') \<Longrightarrow>
     \<not> is_error (snd (h e args db)) \<Longrightarrow> replay_switch e' cmd args db = fst (h e args db)"
begin

text \<open>Neither the clock nor the iteration order of the run that replays matters.\<close>

lemma replay_deterministic:
  assumes "Expires db = fmempty" and "db_wf db" and "fair (map_order e)" and "fair (map_order e')"
    and "\<not> is_error (snd (h e args db))"
  shows "replay_switch e cmd args db = replay_switch e' cmd args db"
  using assms replay [of db e e args] replay [of db e e' args] by simp

end

lemmas replay_simps = replay_switch_def Let_def case_prod_unfold replay_parseInt_Atoi not_an_integer_def

interpretation set_log: logged_command set_cmd "''SET''"
  by unfold_locales (auto simp: set_cmd_def replay_simps)

lemma del_loop_fold: "fst (del_loop t args db n) = fold (\<lambda>arg db. fst (DeleteKey t (Str arg) db)) args db"
  by (induction args arbitrary: db n) (simp_all add: case_prod_unfold)

lemma DeleteKey_no_ttl: "Expires db = fmempty \<Longrightarrow> fst (DeleteKey t k db) = evict k db"
  by (simp add: DeleteKey_eq)

lemma fold_DeleteKey_time:
  "Expires db = fmempty \<Longrightarrow>
   fold (\<lambda>arg db. fst (DeleteKey t (Str arg) db)) args db = fold (\<lambda>arg db. fst (DeleteKey t' (Str arg) db)) args db"
  by (induction args arbitrary: db) (simp_all add: DeleteKey_no_ttl)

interpretation del_log: logged_command del "''DEL''"
  by unfold_locales
    (auto simp: del_def replay_simps del_loop_fold Suc_le_eq intro: fold_DeleteKey_time)

interpretation mset_log: logged_command mset_cmd "''MSET''"
  by unfold_locales (auto simp: mset_cmd_def replay_simps)

interpretation incr_log: logged_command incr "''INCR''"
  by unfold_locales (auto simp: incr_def replay_simps intro: replayIncrement_eq)

interpretation decr_log: logged_command decr "''DECR''"
  by unfold_locales (auto simp: decr_def replay_simps intro: replayIncrement_eq)

interpretation incrby_log: logged_command incrby "''INCRBY''"
  by unfold_locales
    (auto simp: incrby_def replay_simps intro: replayIncrement_eq split: sum.splits)

interpretation decrby_log: logged_command decrby "''DECRBY''"
  by unfold_locales
    (auto simp: decrby_def replay_simps intro: replayIncrement_eq split: sum.splits)

interpretation lpush_log: logged_command lpush "''LPUSH''"
  by unfold_locales (auto simp: lpush_def replay_simps lists.create)

interpretation rpush_log: logged_command rpush "''RPUSH''"
  by unfold_locales (auto simp: rpush_def replay_simps lists.create)

interpretation lset_log: logged_command lset "''LSET''"
  by unfold_locales
    (auto simp: lset_def replay_simps lists.look split: sum.splits option.splits bool.splits)

interpretation lrem_log: logged_command lrem "''LREM''"
  by unfold_locales
    (auto simp: lrem_def replay_simps lists.look split: sum.splits option.splits)

interpretation sadd_log: logged_command sadd "''SADD''"
  by unfold_locales (auto simp: sadd_def replay_simps sets.create)

interpretation srem_log: logged_command srem "''SREM''"
  by unfold_locales (auto simp: srem_def replay_simps sets.look split: option.splits)

interpretation hset_log: logged_command hset "''HSET''"
  by unfold_locales (auto simp: hset_def replay_simps hashes.create)

interpretation hdel_log: logged_command hdel "''HDEL''"
  by unfold_locales (auto simp: hdel_def replay_simps hashes.look split: option.splits)

interpretation hmset_log: logged_command hmset "''HMSET''"
  by unfold_locales
    (auto simp: hmset_def replay_simps hashes.create HMSet_eq)

interpretation hincrby_log: logged_command hincrby "''HINCRBY''"
  by unfold_locales
    (auto simp: hincrby_def replay_simps hashes.create split: sum.splits)

section \<open>Pops\<close>

lemma replayListPop_eq:
  "replayListPop t args db left = fst (pop_first left t (map Str args) db)"
proof (induction args arbitrary: db)
  case (Cons a args)
  obtain d r where look: "GetList t (Str a) db = (d, r)" by force
  show ?case
  proof (cases r)
    case None
    then show ?thesis using Cons by (simp add: look)
  next
    case (Some l)
    obtain l' v where pop: "(if left then LPop l else RPop l) = (l', v)" by force
    show ?thesis using Cons Some by (cases v) (simp_all add: look pop Let_def)
  qed
qed simp

lemma pop_first_time:
  "Expires db = fmempty \<Longrightarrow> fst (pop_first left t keys db) = fst (pop_first left t' keys db)"
proof (induction keys arbitrary: db)
  case (Cons k keys)
  show ?case
  proof (cases "fmlookup (Lists db) k")
    case None
    then show ?thesis using Cons by (simp add: lists.look)
  next
    case (Some l)
    obtain l' v where pop: "(if left then LPop l else RPop l) = (l', v)" by force
    show ?thesis using Cons Some by (cases v) (simp_all add: lists.look pop Let_def)
  qed
qed simp

lemma single_pop:
  "Expires db = fmempty \<Longrightarrow> length args = 1 \<Longrightarrow>
   replayListPop t args db True = fst (lpop e args db)"
  "Expires db = fmempty \<Longrightarrow> length args = 1 \<Longrightarrow>
   replayListPop t args db False = fst (rpop e args db)"
  by (cases args; auto simp: lpop_def rpop_def lists.look Let_def split: option.splits prod.splits)+

interpretation lpop_log: logged_command lpop "''LPOP''"
proof unfold_locales
  fix db e e' args
  assume "Expires db = fmempty" "\<not> is_error (snd (lpop e args db))"
  moreover then have "length args = 1" by (auto simp: lpop_def split: if_splits)
  ultimately show "replay_switch e' ''LPOP'' args db = fst (lpop e args db)"
    by (simp add: replay_switch_def single_pop del: replayListPop.simps)
qed

interpretation rpop_log: logged_command rpop "''RPOP''"
proof unfold_locales
  fix db e e' args
  assume "Expires db = fmempty" "\<not> is_error (snd (rpop e args db))"
  moreover then have "length args = 1" by (auto simp: rpop_def split: if_splits)
  ultimately show "replay_switch e' ''RPOP'' args db = fst (rpop e args db)"
    by (simp add: replay_switch_def single_pop del: replayListPop.simps)
qed

text \<open>
  A blocking pop is logged when it replies, which may be many turns after it was called; a timed-out
  one is logged too, and its replay finds no list either.
\<close>

lemma block_iter_replay:
  assumes "Expires db = fmempty" and "block_iter left t keys dl db = Replied db' v"
  shows "db' = fst (pop_first left t' keys db)"
  using assms(2) pop_first_time [OF assms(1), of left t keys t']
  by (auto simp: block_iter_def split: prod.splits option.splits if_splits)

definition blocking_args :: "Value list \<Rightarrow> string list" where
  "blocking_args args = map Str (take (length args - 1) args)"

lemma replay_blocking:
  assumes "Expires db = fmempty" and "2 \<le> length args"
    and "block_iter left t (blocking_args args) dl db = Replied db' v"
  shows "replay_switch e (if left then ''BLPOP'' else ''BRPOP'') args db = db'"
  using assms(2) block_iter_replay [OF assms(1,3), of "now e"]
  by (cases left) (simp_all add: replay_switch_def replayListPop_eq blocking_args_def)

lemma blockingPop_Replied:
  assumes "blockingPop e args db left = Replied db' v" and "\<not> is_error v"
  obtains dl where "2 \<le> length args" "block_iter left (now e) (blocking_args args) dl db = Replied db' v"
  using assms
  by (auto simp: blockingPop_def Let_def blocking_args_def split: if_splits option.splits float_reading.splits)

lemma blockingPop_replay:
  assumes "Expires db = fmempty" and "blockingPop e args db left = Replied db' v" and "\<not> is_error v"
  shows "replay_switch e' (if left then ''BLPOP'' else ''BRPOP'') args db = db'"
  using blockingPop_Replied [OF assms(2,3)] replay_blocking [OF assms(1)] by metis

text \<open>\<open>SPOP\<close> is replayed faithfully when the iteration picks the same member.\<close>

lemma spop_replay:
  assumes "Expires db = fmempty" and "db_wf db" and "fair (map_order e)" and "map_order e' = map_order e"
    and "\<not> is_error (snd (spop e args db))"
  shows "replay_switch e' ''SPOP'' args db = fst (spop e args db)"
proof -
  have len: "length args = 1" using assms(5) by (auto simp: spop_def split: if_splits)
  show ?thesis
  proof (cases "fmlookup (Sets db) (Str (args ! 0))")
    case None
    then show ?thesis using assms(1) len by (simp add: spop_def replay_switch_def sets.look)
  next
    case (Some s)
    then have "s \<noteq> {||}" using assms(2) by (auto simp: db_wf_def)
    then obtain m where "snd (SPop (map_order e) s) = Some m"
      using SPop_None_iff [OF assms(3)] by (metis not_Some_eq)
    then show ?thesis using Some assms(1,4) len
      by (simp add: spop_def replay_switch_def sets.look Let_def case_prod_unfold)
  qed
qed

section \<open>Every logged command\<close>

lemmas logged_interps =
  set_log.logged_command_axioms del_log.logged_command_axioms mset_log.logged_command_axioms
  incr_log.logged_command_axioms decr_log.logged_command_axioms incrby_log.logged_command_axioms
  decrby_log.logged_command_axioms lpush_log.logged_command_axioms rpush_log.logged_command_axioms
  lpop_log.logged_command_axioms rpop_log.logged_command_axioms lset_log.logged_command_axioms
  lrem_log.logged_command_axioms sadd_log.logged_command_axioms srem_log.logged_command_axioms
  hset_log.logged_command_axioms hdel_log.logged_command_axioms hmset_log.logged_command_axioms
  hincrby_log.logged_command_axioms

lemma logged_Runs:
  assumes "shouldPersist cmd" and "cmd \<noteq> ''SPOP''" and "CommandHandlers cmd = Some (Runs h)"
  shows "logged_command h cmd"
  using map_of_SomeD [OF assms(3) [unfolded CommandHandlers_def]] assms(1,2)
  by (auto simp: handler_table_def shouldPersist_def logged_interps)

lemma logged_Waits:
  "CommandHandlers cmd = Some (Waits h) \<Longrightarrow>
   \<exists>left. cmd = (if left then ''BLPOP'' else ''BRPOP'') \<and> h = (\<lambda>e args db. blockingPop e args db left)"
  unfolding CommandHandlers_def
  by (drule map_of_SomeD) (auto simp: handler_table_def blpop_def [abs_def] brpop_def [abs_def])

lemma logged_not_Broadcasts: "shouldPersist cmd \<Longrightarrow> CommandHandlers cmd \<noteq> Some (Broadcasts h)"
  by (auto simp: shouldPersist_def CommandHandlers_def handler_table_def)

lemma replay_call:
  assumes "CommandHandlers cmd = Some ch" and "shouldPersist cmd"
    and "cmd \<noteq> ''SPOP'' \<or> map_order e' = map_order e"
    and "call_handler ch e args db ps = Answer db' ps' v" and "\<not> is_error v"
    and "Expires db = fmempty" and "db_wf db" and "fair (map_order e)" and "fair (map_order e')"
  shows "replay_switch e' cmd args db = db' \<and> ps' = ps"
proof (cases ch)
  case (Runs h)
  then have h: "db' = fst (h e args db)" "v = snd (h e args db)" "ps' = ps"
    using assms(4) by (auto simp: call_handler_def split: prod.splits)
  show ?thesis
  proof (cases "cmd = ''SPOP''")
    case True
    then have "h = spop" using assms(1) Runs by (simp add: CommandHandlers_def handler_table_def)
    then show ?thesis using True h assms spop_replay by blast
  next
    case False
    then have "logged_command h cmd" using assms(1,2) Runs logged_Runs by blast
    then show ?thesis using h assms(5-) logged_command.replay by blast
  qed
next
  case (Waits h)
  then obtain left where "cmd = (if left then ''BLPOP'' else ''BRPOP'')"
    "h = (\<lambda>e args db. blockingPop e args db left)" using assms(1) logged_Waits by blast
  moreover then have "blockingPop e args db left = Replied db' v" "ps' = ps"
    using assms(4) Waits by (auto simp: call_handler_def split: blocking.splits)
  ultimately show ?thesis using blockingPop_replay [OF assms(6) _ assms(5)] by blast
next
  case (Broadcasts h)
  then show ?thesis using assms(1,2) logged_not_Broadcasts by blast
qed

section \<open>Replay repeats execution\<close>



end
