(* ===== verification/Codec.thy ===== *)
theory Codec
  imports Resp "HOL-Library.Word"
begin

text \<open>
  The interface of a self-delimiting binary encoding, shared by the RESP codec and the primitives of
  the snapshot format (\<open>writeLength\<close>/\<open>readLength\<close> and \<open>writeString\<close>/\<open>readString\<close> of
  pkg/persistence/rdb.go), and what follows for sequences of encoded values.
\<close>

section \<open>Lengths\<close>

definition byte :: "nat \<Rightarrow> char" where
  "byte n = char_of (n mod 256)"

text \<open>\<open>binary.Write(ew.w, binary.BigEndian, v)\<close> of a number of so many bytes.\<close>

fun big_endian :: "nat \<Rightarrow> nat \<Rightarrow> string" where
  "big_endian 0 n = []"
| "big_endian (Suc k) n = byte (n div 256 ^ k) # big_endian k n"

unbundle bit_operations_syntax

definition writeLength :: "nat \<Rightarrow> string" where
  "writeLength n =
     (if n < 64 then [byte n]
      else if n < 16384 then [byte (drop_bit 8 n OR 0x40), byte (n AND 0xFF)]
      else [byte 0x80] @ big_endian 4 (n mod 2 ^ 32))"

definition writeString :: "string \<Rightarrow> string" where
  "writeString s = writeLength (length s) @ s"

definition ReadByte :: "string \<Rightarrow> nat parsed" where
  "ReadByte s = (case s of [] \<Rightarrow> Err EOF | c # rest \<Rightarrow> Ok (of_char c) rest)"

definition big_endian_value :: "string \<Rightarrow> nat" where
  "big_endian_value = foldl (\<lambda>acc c. acc * 256 + of_char c) 0"

definition readLength :: "string \<Rightarrow> nat parsed" where
  "readLength s =
     (case ReadByte s of
        Err e \<Rightarrow> Err e
      | Panic \<Rightarrow> Panic
      | Ok b rest \<Rightarrow>
          if drop_bit 6 (b AND 0xC0) = 0 then Ok (b AND 0x3F) rest
          else if drop_bit 6 (b AND 0xC0) = 1 then
            (case ReadByte rest of
               Err e \<Rightarrow> Err e
             | Panic \<Rightarrow> Panic
             | Ok b2 rest' \<Rightarrow> Ok (push_bit 8 (b AND 0x3F) OR b2) rest')
          else
            (case ReadFull 4 rest of
               Err e \<Rightarrow> Err e
             | Panic \<Rightarrow> Panic
             | Ok bs rest' \<Rightarrow> Ok (big_endian_value bs) rest'))"

definition readString :: "string \<Rightarrow> string parsed" where
  "readString s =
     (case readLength s of
        Err e \<Rightarrow> Err e
      | Panic \<Rightarrow> Panic
      | Ok n rest \<Rightarrow> ReadFull n rest)"

section \<open>The interface\<close>

fun read_n :: "(string \<Rightarrow> 'a parsed) \<Rightarrow> nat \<Rightarrow> string \<Rightarrow> 'a list parsed" where
  "read_n read 0 s = Ok [] s"
| "read_n read (Suc n) s =
     (case read s of
        Err e \<Rightarrow> Err e
      | Panic \<Rightarrow> Panic
      | Ok x rest \<Rightarrow>
          (case read_n read n rest of
             Err e \<Rightarrow> Err e | Panic \<Rightarrow> Panic | Ok xs rest' \<Rightarrow> Ok (x # xs) rest'))"

locale codec =
  fixes enc :: "'a \<Rightarrow> string" and dec :: "string \<Rightarrow> 'a parsed" and ok :: "'a \<Rightarrow> bool"
  assumes dec_enc: "ok x \<Longrightarrow> dec (enc x @ rest) = Ok x rest"
begin

lemma enc_inject: "ok x \<Longrightarrow> ok y \<Longrightarrow> enc x = enc y \<Longrightarrow> x = y"
  using dec_enc [of x "[]"] dec_enc [of y "[]"] by simp

lemma prefix_free: "ok x \<Longrightarrow> ok y \<Longrightarrow> enc x @ r = enc y @ r' \<Longrightarrow> x = y \<and> r = r'"
  by (metis dec_enc parsed.inject(1))

lemma read_n_enc: "list_all ok xs \<Longrightarrow> read_n dec (length xs) (concat (map enc xs) @ rest) = Ok xs rest"
  by (induction xs) (simp_all add: dec_enc)

end

interpretation resp: codec "\<lambda>v. fst (Write v)" Parse wf_value
  by unfold_locales (rule Parse_Write)

section \<open>The snapshot primitives meet it\<close>

lemma of_char_byte [simp]: "of_char (byte n) = n mod 256"
  by (simp add: byte_def)

lemma and_low: "b AND 0x3F = b mod (64 :: nat)" "b AND 0xFF = b mod (256 :: nat)"
  using take_bit_eq_mask [of 6 b] take_bit_eq_mask [of 8 b]
  by (simp_all add: take_bit_eq_mod mask_eq_exp_minus_1)

lemma and_high: "b < 256 \<Longrightarrow> drop_bit 6 (b AND 0xC0) = b div (64 :: nat)"
proof -
  assume b: "b < 256"
  have "drop_bit 6 (0xC0 :: nat) = mask 2" by (simp add: mask_eq_exp_minus_1 drop_bit_eq_div)
  then have "drop_bit 6 (b AND 0xC0) = drop_bit 6 b AND mask 2" by simp
  also have "\<dots> = b div 64 mod 4"
    unfolding take_bit_eq_mask [symmetric] by (simp add: drop_bit_eq_div take_bit_eq_mod)
  finally show ?thesis using b by simp
qed

lemma or_shifted: "x < 2 ^ n \<Longrightarrow> push_bit n k OR x = push_bit n k + (x :: nat)"
proof -
  assume "x < 2 ^ n"
  then have x: "take_bit n x = x" by (simp add: take_bit_nat_eq_self)
  have "push_bit n k AND take_bit n x = 0" by (auto simp: bit_eq_iff bit_simps)
  then have "push_bit n k AND x = 0" by (simp only: x)
  then show ?thesis by (simp only: disjunctive_add_eq_or)
qed

lemma or_0x40: "k < 64 \<Longrightarrow> k OR 0x40 = k + (0x40 :: nat)"
  using or_shifted [of k 6 1] by (simp add: push_bit_eq_mult or.commute add.commute)

lemma length_big_endian [simp]: "length (big_endian k n) = k"
  by (induction k) simp_all

lemma big_endian_value_step:
  "foldl (\<lambda>acc c. acc * 256 + of_char c) a (big_endian k n) = a * 256 ^ k + n mod 256 ^ k"
proof (induction k arbitrary: a)
  case (Suc k)
  have "n mod 256 ^ Suc k = n div 256 ^ k mod 256 * 256 ^ k + n mod 256 ^ k"
    using mod_mult2_eq [of n "256 ^ k" 256] by (simp add: mult.commute)
  then show ?case using Suc by (simp add: algebra_simps)
qed simp

lemma big_endian_value_big_endian: "n < 256 ^ k \<Longrightarrow> big_endian_value (big_endian k n) = n"
  using big_endian_value_step [of 0 k n] by (simp add: big_endian_value_def)

declare drop_bit_and [simp del]

interpretation len: codec writeLength readLength "\<lambda>n. n < 2 ^ 32"
proof unfold_locales
  fix n :: nat and rest
  assume n: "n < 2 ^ 32"
  consider "n < 64" | "64 \<le> n" "n < 16384" | "16384 \<le> n" by linarith
  then show "readLength (writeLength n @ rest) = Ok n rest"
  proof cases
    case 1
    then show ?thesis by (simp add: writeLength_def readLength_def ReadByte_def and_high and_low)
  next
    case 2
    then have hi: "n div 256 < 64" by linarith
    have "(n div 256 + 64) div 64 = 1" "(n div 256 + 64) mod 64 = n div 256" using hi by simp_all
    moreover have "push_bit 8 (n div 256) OR (n mod 256) = n"
      using or_shifted [of "n mod 256" 8 "n div 256"] by (simp add: push_bit_eq_mult)
    moreover have "drop_bit 8 n = n div 256" by (simp add: drop_bit_eq_div)
    ultimately show ?thesis using 2 hi
      by (simp add: writeLength_def readLength_def ReadByte_def and_high and_low or_0x40)
  next
    case 3
    have "ReadFull 4 (big_endian 4 n @ rest) = Ok (big_endian 4 n) rest"
      using ReadFull_append [of "big_endian 4 n" rest] by simp
    then show ?thesis using 3 n
      by (simp add: writeLength_def readLength_def ReadByte_def and_high big_endian_value_big_endian
          del: big_endian.simps)
  qed
qed

interpretation str: codec writeString readString "\<lambda>s. length s < 2 ^ 32"
  by unfold_locales (simp add: writeString_def readString_def len.dec_enc)

text \<open>A length of \<open>2 ^ 32\<close> or more is written modulo \<open>2 ^ 32\<close>; reading it still succeeds.\<close>

lemma readLength_any: "\<exists>m. readLength (writeLength n @ rest) = Ok m rest"
proof (cases "n < 2 ^ 32")
  case True
  then show ?thesis by (auto simp: len.dec_enc)
next
  case False
  then have "\<not> n < 16384" by simp
  moreover have "ReadFull 4 (big_endian 4 k @ rest) = Ok (big_endian 4 k) rest" for k
    using ReadFull_append [of "big_endian 4 k" rest] by simp
  ultimately show ?thesis
    by (simp add: writeLength_def readLength_def ReadByte_def and_high del: big_endian.simps)
qed

declare drop_bit_and [simp]

section \<open>Property of the snapshot primitives\<close>

text \<open>
  Lengths and strings of the snapshot format.  Every length below \<open>2 ^ 32\<close> is read back from its
  one-, two- or five-byte encoding, and every string of such a length from its encoding; the encodings are
  prefix-free, so what follows is untouched.
\<close>

lemma snapshot_strings_roundtrip:
  assumes "length s < 2 ^ 32" and "n < 2 ^ 32"
  shows "readString (writeString s @ rest) = Ok s rest \<and> readLength (writeLength n @ rest) = Ok n rest \<and>
    length (writeLength n) = (if n < 64 then 1 else if n < 16384 then 2 else 5)"
  using str.dec_enc [OF assms(1)] len.dec_enc [OF assms(2)] by (simp add: writeLength_def)

end
