(* ===== verification/Rdb.thy ===== *)
theory Rdb
  imports Codec Handlers
begin

text \<open>
  The snapshot file of pkg/persistence/rdb.go: its byte format (\<open>saveDatabase\<close>, \<open>Save\<close>), the loader
  (\<open>Load\<close>), the replacement of the file through a temporary one, and the snapshot policy of
  \<open>snapshotLoop\<close>.  A snapshot walks the databases at one instant here; the code locks them one
  after the other.  \<open>iter\<close> is the iteration order of the run.
\<close>

section \<open>Writing a snapshot\<close>

definition rdbHeader :: string where
  "rdbHeader = ''DATABASE0009''"

abbreviation opSelectDB :: char where "opSelectDB \<equiv> CHR 0xFE"
abbreviation opEOF :: char where "opEOF \<equiv> CHR 0xFF"
abbreviation opResizeDB :: char where "opResizeDB \<equiv> CHR 0xFB"
abbreviation typeString :: char where "typeString \<equiv> CHR 0x00"
abbreviation typeList :: char where "typeList \<equiv> CHR 0x01"
abbreviation typeSet :: char where "typeSet \<equiv> CHR 0x02"
abbreviation typeHash :: char where "typeHash \<equiv> CHR 0x04"

definition save_string :: "string \<times> string \<Rightarrow> string" where
  "save_string = (\<lambda>(key, v). [typeString] @ writeString key @ writeString v)"

definition save_list :: "string \<times> List \<Rightarrow> string" where
  "save_list = (\<lambda>(key, l).
     let items = LRange 0 (-1) l in
     if length items > 0
     then [typeList] @ writeString key @ writeLength (length items) @ concat (map writeString items)
     else [])"

definition save_set :: "order \<Rightarrow> string \<times> Set \<Rightarrow> string" where
  "save_set iter = (\<lambda>(key, s).
     let members = SMembers iter s in
     if length members > 0
     then [typeSet] @ writeString key @ writeLength (length members) @ concat (map writeString members)
     else [])"

definition writePair :: "string \<times> string \<Rightarrow> string" where
  "writePair = (\<lambda>(field, v). writeString field @ writeString v)"

definition save_hash :: "order \<Rightarrow> string \<times> Hash \<Rightarrow> string" where
  "save_hash iter = (\<lambda>(key, h).
     let fields = HGetAll iter h in
     if maplen fields > 0
     then [typeHash] @ writeString key @ writeLength (maplen fields) @
       concat (map writePair (range_map iter fields))
     else [])"

definition saveDatabase :: "order \<Rightarrow> nat \<Rightarrow> Database \<Rightarrow> string \<times> nat" where
  "saveDatabase iter index db =
     (let totalKeys = maplen (Store db) + (maplen (Lists db) + maplen (Sets db) + maplen (Hashes db)) in
      if totalKeys = 0 then ([], 0)
      else
        ([opSelectDB] @ writeLength index @
         [opResizeDB] @ writeLength totalKeys @ writeLength 0 @
         concat (map save_string (range_map iter (Store db))) @
         concat (map save_list (range_map iter (Lists db))) @
         concat (map (save_set iter) (range_map iter (Sets db))) @
         concat (map (save_hash iter) (range_map iter (Hashes db))), totalKeys))"

text \<open>The bytes a successful \<open>Save\<close> writes: header, databases, end marker, a zero checksum.\<close>

definition snapshot_bytes :: "order \<Rightarrow> Database list \<Rightarrow> string" where
  "snapshot_bytes iter dbs =
     rdbHeader @
     concat (map (\<lambda>(i, db). fst (saveDatabase iter i db)) (enumerate 0 dbs)) @
     [opEOF] @ big_endian 8 0"

section \<open>Loading a snapshot\<close>

datatype load_error =
  NotExist | ReadFailure read_error | BadHeader | NoMoreOps | DbOutOfRange nat | UnknownOpcode char | LoadPanic

datatype load_step = Continue nat "Database list" string | Fail load_error | Finished

definition after :: "'a parsed \<Rightarrow> ('a \<Rightarrow> string \<Rightarrow> load_step) \<Rightarrow> load_step" where
  "after p f = (case p of Ok v rest \<Rightarrow> f v rest | Err e \<Rightarrow> Fail (ReadFailure e) | Panic \<Rightarrow> Fail LoadPanic)"

definition readPair :: "string \<Rightarrow> (string \<times> string) parsed" where
  "readPair s =
     (case readString s of
        Err e \<Rightarrow> Err e
      | Panic \<Rightarrow> Panic
      | Ok field rest \<Rightarrow>
          (case readString rest of
             Err e \<Rightarrow> Err e | Panic \<Rightarrow> Panic | Ok v rest' \<Rightarrow> Ok (field, v) rest'))"

definition load_op :: "env \<Rightarrow> char \<Rightarrow> string \<Rightarrow> nat \<Rightarrow> Database list \<Rightarrow> load_step" where
  "load_op e op s cur dbs =
     (if op = opEOF then after (ReadFull 8 s) (\<lambda>checksum rest. Finished)
      else if op = opSelectDB then
        after (readLength s) (\<lambda>dbNum rest.
          if dbNum \<ge> length dbs then Fail (DbOutOfRange dbNum) else Continue dbNum dbs rest)
      else if op = opResizeDB then
        after (readLength s) (\<lambda>dbSize rest. after (readLength rest) (\<lambda>expiresSize rest. Continue cur dbs rest))
      else if op = typeString then
        after (readString s) (\<lambda>key rest. after (readString rest) (\<lambda>v rest.
          let db = dbs ! cur in
          Continue cur (dbs[cur := db\<lparr>Store := fmupd key v (Store db)\<rparr>]) rest))
      else if op = typeList then
        after (readString s) (\<lambda>key rest. after (readLength rest) (\<lambda>len rest.
          after (read_n readString len rest) (\<lambda>items rest.
            let (db, l) = GetOrCreateList (now e) key (dbs ! cur)
            in Continue cur (dbs[cur := put_list key (fst (RPush items l)) db]) rest)))
      else if op = typeSet then
        after (readString s) (\<lambda>key rest. after (readLength rest) (\<lambda>len rest.
          after (read_n readString len rest) (\<lambda>members rest.
            let (db, st) = GetOrCreateSet (now e) key (dbs ! cur)
            in Continue cur (dbs[cur := put_set key (fst (SAdd members st)) db]) rest)))
      else if op = typeHash then
        after (readString s) (\<lambda>key rest. after (readLength rest) (\<lambda>len rest.
          after (read_n readPair len rest) (\<lambda>pairs rest.
            let fields = fold (\<lambda>(f, v) m. fmupd f v m) pairs fmempty;
                (db, h) = GetOrCreateHash (now e) key (dbs ! cur)
            in Continue cur (dbs[cur := put_hash key (HMSet (map_order e) fields h) db]) rest)))
      else Fail (UnknownOpcode op))"

text \<open>Every operation consumes at least its opcode, so the loop ends.\<close>

lemma ReadByte_length: "ReadByte s = Ok b rest \<Longrightarrow> length rest \<le> length s"
  by (auto simp: ReadByte_def split: list.splits)

lemma readLength_length: "readLength s = Ok n rest \<Longrightarrow> length rest \<le> length s"
  by (auto simp: readLength_def split: parsed.splits if_splits dest!: ReadByte_length ReadFull_length)

lemma readString_length: "readString s = Ok v rest \<Longrightarrow> length rest \<le> length s"
  by (auto simp: readString_def split: parsed.splits dest!: readLength_length ReadFull_length)

lemma readPair_length: "readPair s = Ok v rest \<Longrightarrow> length rest \<le> length s"
  by (auto simp: readPair_def split: parsed.splits dest!: readString_length)

lemma read_n_length:
  "(\<And>s v rest. read s = Ok v rest \<Longrightarrow> length rest \<le> length s) \<Longrightarrow>
   read_n read n s = Ok vs rest \<Longrightarrow> length rest \<le> length s"
  by (induction n arbitrary: s vs) (fastforce split: parsed.splits)+

lemma after_Continue:
  "after p f = Continue cur dbs rest \<longleftrightarrow> (\<exists>v r. p = Ok v r \<and> f v r = Continue cur dbs rest)"
  by (cases p) (simp_all add: after_def)

lemma load_op_length:
  assumes "load_op e op s cur dbs = Continue cur' dbs' rest"
  shows "length rest \<le> length s"
  using assms read_n_length [of readString, OF readString_length]
    read_n_length [of readPair, OF readPair_length]
  by (fastforce simp: load_op_def after_Continue Let_def case_prod_unfold split: if_splits
      dest!: readLength_length readString_length)

function load_loop :: "env \<Rightarrow> string \<Rightarrow> nat \<Rightarrow> Database list \<Rightarrow> Database list \<times> load_error option" where
  "load_loop e s cur dbs =
     (case s of
        [] \<Rightarrow> (dbs, Some NoMoreOps)
      | op # s' \<Rightarrow>
          (case load_op e op s' cur dbs of
             Continue cur' dbs' rest \<Rightarrow> load_loop e rest cur' dbs'
           | Fail er \<Rightarrow> (dbs, Some er)
           | Finished \<Rightarrow> (dbs, None)))"
  by pat_completeness auto
termination
  by (relation "measure (\<lambda>(e, s, cur, dbs). length s)") (auto dest: load_op_length simp: le_imp_less_Suc)

declare load_loop.simps [simp del]

text \<open>\<open>Load\<close> of the file at the snapshot path; an error keeps what was loaded before it.\<close>

definition Load :: "env \<Rightarrow> string option \<Rightarrow> Database list \<Rightarrow> Database list \<times> load_error option" where
  "Load e snapshot dbs =
     (case snapshot of
        None \<Rightarrow> (dbs, Some NotExist)
      | Some bytes \<Rightarrow>
          (case ReadFull (length rdbHeader) bytes of
             Err er \<Rightarrow> (dbs, Some (ReadFailure er))
           | Panic \<Rightarrow> (dbs, Some LoadPanic)
           | Ok header rest \<Rightarrow>
               if take 8 header \<noteq> ''DATABASE'' then (dbs, Some BadHeader)
               else load_loop e rest 0 dbs))"

section \<open>Loading what was saved\<close>

text \<open>The snapshot format counts in 32 bits: these are the databases it can hold.\<close>

abbreviation small :: "string \<Rightarrow> bool" where "small s \<equiv> length s < 2 ^ 32"

definition fits :: "Database \<Rightarrow> bool" where
  "fits db \<longleftrightarrow>
     fmpred (\<lambda>k v. small k \<and> small v) (Store db) \<and>
     fmpred (\<lambda>k l. small k \<and> length l < 2 ^ 32 \<and> list_all small l) (Lists db) \<and>
     fmpred (\<lambda>k s. small k \<and> fcard s < 2 ^ 32 \<and> fBall s small) (Sets db) \<and>
     fmpred (\<lambda>k h. small k \<and> maplen h < 2 ^ 32 \<and> fmpred (\<lambda>f v. small f \<and> small v) h) (Hashes db)"

text \<open>The format has no expiry times: this is what a snapshot keeps of a database.\<close>

definition strip_ttl :: "Database \<Rightarrow> Database" where
  "strip_ttl db = db\<lparr>Expires := fmempty\<rparr>"

interpretation pair: codec writePair readPair "\<lambda>(f, v). small f \<and> small v"
  by unfold_locales (auto simp: writePair_def readPair_def str.dec_enc)

lemma after_Ok [simp]: "after (Ok v rest) f = f v rest"
  by (simp add: after_def)

lemma load_string:
  assumes "small k" and "small v"
  shows "load_loop e (save_string (k, v) @ rest) cur dbs =
    load_loop e rest cur (dbs[cur := (dbs ! cur)\<lparr>Store := fmupd k v (Store (dbs ! cur))\<rparr>])"
  using assms by (subst load_loop.simps) (simp add: save_string_def load_op_def str.dec_enc Let_def)

lemma LRange_all: "LRange 0 (-1) l = l"
  by (simp add: LRange_def Let_def)

lemma load_list:
  assumes "small k" and "length l < 2 ^ 32" and "list_all small l" and "l \<noteq> []"
    and "Expires (dbs ! cur) = fmempty"
  shows "load_loop e (save_list (k, l) @ rest) cur dbs =
    load_loop e rest cur (dbs[cur := put_list k (list_of (fmlookup (Lists (dbs ! cur)) k) @ l) (dbs ! cur)])"
  using assms
  by (subst load_loop.simps)
    (simp add: save_list_def LRange_all load_op_def str.dec_enc len.dec_enc str.read_n_enc Let_def
      lists.create RPush_def list_of_def NewList_def split: option.splits)

lemma load_set:
  assumes "small k" and "fcard s < 2 ^ 32" and "fBall s small" and "s \<noteq> {||}" and "fair iter"
    and "Expires (dbs ! cur) = fmempty"
  shows "load_loop e (save_set iter (k, s) @ rest) cur dbs =
    load_loop e rest cur
      (dbs[cur := put_set k (case_option {||} id (fmlookup (Sets (dbs ! cur)) k) |\<union>| s) (dbs ! cur)])"
proof -
  have "list_all small (range_set iter s)" using assms by (auto simp: list_all_iff)
  then have "read_n readString (fcard s) (concat (map writeString (range_set iter s)) @ rest) = Ok (range_set iter s) rest"
    using str.read_n_enc [of "range_set iter s" rest] assms by simp
  moreover have "0 < fcard s" using assms by (simp add: neq0_conv [symmetric] del: neq0_conv)
  moreover then have "range_set iter s \<noteq> []" using assms by (metis length_range_set less_numeral_extra(3) list.size(3))
  ultimately show ?thesis using assms
    by (subst load_loop.simps)
      (simp add: save_set_def SMembers_def load_op_def str.dec_enc len.dec_enc Let_def
        sets.create SAdd_eq NewSet_def split: option.splits)
qed

lemma load_hash:
  assumes "small k" and "maplen h < 2 ^ 32" and "fmpred (\<lambda>f v. small f \<and> small v) h" and "h \<noteq> fmempty"
    and "fair iter" and "fair (map_order e)" and "Expires (dbs ! cur) = fmempty"
  shows "load_loop e (save_hash iter (k, h) @ rest) cur dbs =
    load_loop e rest cur
      (dbs[cur := put_hash k (hash_of (fmlookup (Hashes (dbs ! cur)) k) ++\<^sub>f h) (dbs ! cur)])"
proof -
  have "list_all (\<lambda>(f, v). small f \<and> small v) (range_map iter h)"
    using assms by (auto simp: list_all_iff set_range_map dest: fmpredD)
  then have "read_n readPair (maplen h) (concat (map writePair (range_map iter h)) @ rest) = Ok (range_map iter h) rest"
    using pair.read_n_enc [of "range_map iter h" rest] assms by simp
  moreover have "0 < maplen h" using assms by (simp add: neq0_conv [symmetric] del: neq0_conv)
  ultimately show ?thesis using assms
    by (subst load_loop.simps)
      (simp add: save_hash_def HGetAll_eq load_op_def str.dec_enc len.dec_enc Let_def
        hashes.create HMSet_eq fold_fmupd_range_map hash_of_def NewHash_def split: option.splits)
qed

text \<open>A section of entries is loaded by folding over its entries.\<close>

lemma load_section:
  assumes entry: "\<And>x dbs rest. x \<in> set xs \<Longrightarrow> cur < length dbs \<Longrightarrow> Expires (dbs ! cur) = fmempty \<Longrightarrow>
      load_loop e (enc x @ rest) cur dbs = load_loop e rest cur (dbs[cur := upd x (dbs ! cur)])"
    and ttl: "\<And>x d. Expires (upd x d) = Expires d"
    and "cur < length dbs" and "Expires (dbs ! cur) = fmempty"
  shows "load_loop e (concat (map enc xs) @ rest) cur dbs =
    load_loop e rest cur (dbs[cur := fold upd xs (dbs ! cur)])"
  using entry assms(3,4)
proof (induction xs arbitrary: dbs)
  case (Cons x xs)
  have "load_loop e (concat (map enc (x # xs)) @ rest) cur dbs =
      load_loop e (concat (map enc xs) @ rest) cur (dbs[cur := upd x (dbs ! cur)])"
    using Cons.prems by simp
  also have "\<dots> = load_loop e rest cur (dbs[cur := upd x (dbs ! cur), cur := fold upd xs (upd x (dbs ! cur))])"
    using Cons.prems ttl by (subst Cons.IH) simp_all
  finally show ?case by simp
qed simp

lemma load_strings:
  assumes "cur < length dbs" and "Expires (dbs ! cur) = fmempty" and "Store (dbs ! cur) = fmempty"
    and "fair iter" and "fmpred (\<lambda>k v. small k \<and> small v) m"
  shows "load_loop e (concat (map save_string (range_map iter m)) @ rest) cur dbs =
    load_loop e rest cur (dbs[cur := (dbs ! cur)\<lparr>Store := m\<rparr>])"
proof -
  let ?upd = "\<lambda>(k, v) d. d\<lparr>Store := fmupd k v (Store d)\<rparr>"
  have "load_loop e (concat (map save_string (range_map iter m)) @ rest) cur dbs =
    load_loop e rest cur (dbs[cur := fold ?upd (range_map iter m) (dbs ! cur)])"
    using assms by (intro load_section) (auto simp: set_range_map load_string dest: fmpredD)
  moreover have "fold ?upd (range_map iter m) (dbs ! cur) = (dbs ! cur)\<lparr>Store := m\<rparr>"
    using strings.fold_put [of "\<lambda>(k, v) m. fmupd k v m" "range_map iter m" "dbs ! cur"] assms
    by (simp add: case_prod_unfold fold_fmupd_range_map [unfolded case_prod_unfold])
  ultimately show ?thesis by simp
qed

lemma load_lists:
  assumes "cur < length dbs" and "Expires (dbs ! cur) = fmempty" and "Lists (dbs ! cur) = fmempty"
    and "fair iter" and "fmpred (\<lambda>k l. small k \<and> length l < 2 ^ 32 \<and> list_all small l) m"
    and "fmpred (\<lambda>_ l. l \<noteq> []) m"
  shows "load_loop e (concat (map save_list (range_map iter m)) @ rest) cur dbs =
    load_loop e rest cur (dbs[cur := (dbs ! cur)\<lparr>Lists := m\<rparr>])"
proof -
  have ok: "small k \<and> length l < 2 ^ 32 \<and> list_all small l \<and> l \<noteq> []" if "fmlookup m k = Some l" for k l
    using assms that by (auto dest: fmpredD)
  let ?upd = "\<lambda>(k, l) d. put_list k (list_of (fmlookup (Lists d) k) @ l) d"
  have "load_loop e (concat (map save_list (range_map iter m)) @ rest) cur dbs =
    load_loop e rest cur (dbs[cur := fold ?upd (range_map iter m) (dbs ! cur)])"
    using assms ok by (intro load_section) (auto simp: set_range_map intro!: load_list)
  moreover have "fold ?upd (range_map iter m) (dbs ! cur) = (dbs ! cur)\<lparr>Lists := m\<rparr>"
    using lists.fold_put [of "\<lambda>(k, l) m. fmupd k (list_of (fmlookup m k) @ l) m" "range_map iter m" "dbs ! cur"]
      fold_merge_range_map [of "\<lambda>x l. list_of x @ l" iter m] assms
    by (simp add: case_prod_unfold list_of_def)
  ultimately show ?thesis by simp
qed

lemma load_sets:
  assumes "cur < length dbs" and "Expires (dbs ! cur) = fmempty" and "Sets (dbs ! cur) = fmempty"
    and "fair iter" and "fmpred (\<lambda>k s. small k \<and> fcard s < 2 ^ 32 \<and> fBall s small) m"
    and "fmpred (\<lambda>_ s. s \<noteq> {||}) m"
  shows "load_loop e (concat (map (save_set iter) (range_map iter m)) @ rest) cur dbs =
    load_loop e rest cur (dbs[cur := (dbs ! cur)\<lparr>Sets := m\<rparr>])"
proof -
  have ok: "small k \<and> fcard s < 2 ^ 32 \<and> fBall s small \<and> s \<noteq> {||}" if "fmlookup m k = Some s" for k s
    using assms that by (auto dest: fmpredD)
  let ?upd = "\<lambda>(k, s) d. put_set k (case_option {||} id (fmlookup (Sets d) k) |\<union>| s) d"
  have "load_loop e (concat (map (save_set iter) (range_map iter m)) @ rest) cur dbs =
    load_loop e rest cur (dbs[cur := fold ?upd (range_map iter m) (dbs ! cur)])"
    using assms ok by (intro load_section) (auto simp: set_range_map intro!: load_set)
  moreover have "fold ?upd (range_map iter m) (dbs ! cur) = (dbs ! cur)\<lparr>Sets := m\<rparr>"
    using sets.fold_put [of "\<lambda>(k, s) m. fmupd k (case_option {||} id (fmlookup m k) |\<union>| s) m" "range_map iter m" "dbs ! cur"]
      fold_merge_range_map [of "\<lambda>x s. case_option {||} id x |\<union>| s" iter m] assms
    by (simp add: case_prod_unfold)
  ultimately show ?thesis by simp
qed

lemma load_hashes:
  assumes "cur < length dbs" and "Expires (dbs ! cur) = fmempty" and "Hashes (dbs ! cur) = fmempty"
    and "fair iter" and "fair (map_order e)"
    and "fmpred (\<lambda>k h. small k \<and> maplen h < 2 ^ 32 \<and> fmpred (\<lambda>f v. small f \<and> small v) h) m"
    and "fmpred (\<lambda>_ h. h \<noteq> fmempty) m"
  shows "load_loop e (concat (map (save_hash iter) (range_map iter m)) @ rest) cur dbs =
    load_loop e rest cur (dbs[cur := (dbs ! cur)\<lparr>Hashes := m\<rparr>])"
proof -
  have ok: "small k \<and> maplen h < 2 ^ 32 \<and> fmpred (\<lambda>f v. small f \<and> small v) h \<and> h \<noteq> fmempty" if "fmlookup m k = Some h" for k h
    using assms that by (auto dest: fmpredD)
  let ?upd = "\<lambda>(k, h) d. put_hash k (hash_of (fmlookup (Hashes d) k) ++\<^sub>f h) d"
  have "load_loop e (concat (map (save_hash iter) (range_map iter m)) @ rest) cur dbs =
    load_loop e rest cur (dbs[cur := fold ?upd (range_map iter m) (dbs ! cur)])"
    using assms ok by (intro load_section) (auto simp: set_range_map intro!: load_hash)
  moreover have "fold ?upd (range_map iter m) (dbs ! cur) = (dbs ! cur)\<lparr>Hashes := m\<rparr>"
    using hashes.fold_put [of "\<lambda>(k, h) m. fmupd k (hash_of (fmlookup m k) ++\<^sub>f h) m" "range_map iter m" "dbs ! cur"]
      fold_merge_range_map [of "\<lambda>x h. hash_of x ++\<^sub>f h" iter m] assms
    by (simp add: case_prod_unfold hash_of_def)
  ultimately show ?thesis by simp
qed

text \<open>One database, then all of them.\<close>

lemma load_header:
  assumes "i < length dbs" and "i < 2 ^ 32"
  shows "load_loop e ([opSelectDB] @ writeLength i @ [opResizeDB] @ writeLength n @ writeLength 0 @ rest) cur dbs =
    load_loop e rest i dbs"
proof -
  have "load_loop e ([opResizeDB] @ writeLength n @ writeLength 0 @ rest) i dbs = load_loop e rest i dbs"
    using readLength_any [of n "writeLength 0 @ rest"]
    by (subst load_loop.simps) (auto simp: load_op_def len.dec_enc)
  with assms show ?thesis
    by (subst load_loop.simps) (simp add: load_op_def len.dec_enc)
qed

lemma load_database:
  assumes "i < length dbs" and "i < 2 ^ 32" and "dbs ! i = newDatabase"
    and "fair iter" and "fair (map_order e)" and "fits db" and "db_wf db"
  shows "\<exists>cur'. load_loop e (fst (saveDatabase iter i db) @ rest) cur dbs =
    load_loop e rest cur' (dbs[i := strip_ttl db])"
proof (cases "maplen (Store db) + (maplen (Lists db) + maplen (Sets db) + maplen (Hashes db)) = 0")
  case True
  then have "strip_ttl db = newDatabase"
    by (intro Database.equality) (simp_all add: strip_ttl_def newDatabase_def)
  then have "dbs[i := strip_ttl db] = dbs" using assms(3) by (metis list_update_id)
  then show ?thesis using True by (auto simp: saveDatabase_def)
next
  case False
  note wf = assms(7) [unfolded db_wf_def] and fit = assms(6) [unfolded fits_def]
  let ?strings = "concat (map save_string (range_map iter (Store db)))"
  let ?lists = "concat (map save_list (range_map iter (Lists db)))"
  let ?sets = "concat (map (save_set iter) (range_map iter (Sets db)))"
  let ?hashes = "concat (map (save_hash iter) (range_map iter (Hashes db)))"
  have new: "Expires (dbs ! i) = fmempty" "Store (dbs ! i) = fmempty" "Lists (dbs ! i) = fmempty"
    "Sets (dbs ! i) = fmempty" "Hashes (dbs ! i) = fmempty"
    using assms(3) by (simp_all add: newDatabase_def)
  obtain n where "fst (saveDatabase iter i db) @ rest =
      [opSelectDB] @ writeLength i @ [opResizeDB] @ writeLength n @ writeLength 0 @ ?strings @ ?lists @ ?sets @ ?hashes @ rest"
    using False by (simp only: saveDatabase_def Let_def if_False fst_conv append_assoc)
  then have "load_loop e (fst (saveDatabase iter i db) @ rest) cur dbs =
      load_loop e (?strings @ ?lists @ ?sets @ ?hashes @ rest) i dbs"
    by (simp only: load_header [OF assms(1,2)])
  also have "\<dots> = load_loop e (?lists @ ?sets @ ?hashes @ rest) i (dbs[i := (dbs ! i)\<lparr>Store := Store db\<rparr>])"
    using assms new fit by (intro load_strings) blast+
  also have "\<dots> = load_loop e (?sets @ ?hashes @ rest) i (dbs[i := (dbs ! i)\<lparr>Store := Store db, Lists := Lists db\<rparr>])"
    using assms(1,4) new fit wf by (subst load_lists) simp_all
  also have "\<dots> = load_loop e (?hashes @ rest) i
      (dbs[i := (dbs ! i)\<lparr>Store := Store db, Lists := Lists db, Sets := Sets db\<rparr>])"
    using assms(1,4) new fit wf by (subst load_sets) simp_all
  also have "\<dots> = load_loop e rest i
      (dbs[i := (dbs ! i)\<lparr>Store := Store db, Lists := Lists db, Sets := Sets db, Hashes := Hashes db\<rparr>])"
    using assms(1,4,5) new fit wf by (subst load_hashes) simp_all
  finally have "load_loop e (fst (saveDatabase iter i db) @ rest) cur dbs = load_loop e rest i
      (dbs[i := (dbs ! i)\<lparr>Store := Store db, Lists := Lists db, Sets := Sets db, Hashes := Hashes db\<rparr>])" .
  moreover have "(dbs ! i)\<lparr>Store := Store db, Lists := Lists db, Sets := Sets db, Hashes := Hashes db\<rparr> = strip_ttl db"
    using assms by (intro Database.equality) (simp_all add: strip_ttl_def newDatabase_def)
  ultimately show ?thesis by auto
qed

lemma load_databases:
  assumes "fair iter" and "fair (map_order e)" and "list_all fits xs" and "list_all db_wf xs"
    and "length pre + length xs \<le> 2 ^ 32"
  shows "\<exists>cur'. load_loop e (concat (map (\<lambda>(i, db). fst (saveDatabase iter i db)) (enumerate (length pre) xs)) @ rest)
      cur (pre @ replicate (length xs) newDatabase) =
    load_loop e rest cur' (pre @ map strip_ttl xs)"
  using assms(3-)
proof (induction xs arbitrary: pre cur)
  case (Cons x xs)
  let ?dbs = "pre @ replicate (length (x # xs)) newDatabase"
  let ?tail = "concat (map (\<lambda>(i, db). fst (saveDatabase iter i db)) (enumerate (Suc (length pre)) xs)) @ rest"
  have "?dbs[length pre := strip_ttl x] = (pre @ [strip_ttl x]) @ replicate (length xs) newDatabase"
    by simp
  with load_database [of "length pre" ?dbs iter e x ?tail cur] Cons.prems assms(1,2)
  obtain cur1 where 1: "load_loop e (fst (saveDatabase iter (length pre) x) @ ?tail) cur ?dbs =
      load_loop e ?tail cur1 ((pre @ [strip_ttl x]) @ replicate (length xs) newDatabase)"
    by (auto simp: nth_append)
  obtain cur2 where "load_loop e ?tail cur1 ((pre @ [strip_ttl x]) @ replicate (length xs) newDatabase) =
      load_loop e rest cur2 ((pre @ [strip_ttl x]) @ map strip_ttl xs)"
    using Cons.IH [of "pre @ [strip_ttl x]" cur1] Cons.prems by auto
  with 1 show ?case by auto
qed auto

text \<open>
  A snapshot of well-formed databases of representable sizes, loaded into fresh databases, restores
  everything but the expiry times.
\<close>

lemma Load_snapshot:
  assumes "fair iter" and "fair (map_order e)" and "list_all fits dbs" and "list_all db_wf dbs"
    and "length dbs = NumDatabases"
  shows "Load e (Some (snapshot_bytes iter dbs)) (DBs NewMultiDB) = (map strip_ttl dbs, None)"
proof -
  let ?body = "concat (map (\<lambda>(i, db). fst (saveDatabase iter i db)) (enumerate 0 dbs))"
  have "load_loop e ([opEOF] @ big_endian 8 0) cur d = (d, None)" for cur d
    using ReadFull_append [of "big_endian 8 0" "[]"]
    by (subst load_loop.simps) (simp add: load_op_def del: big_endian.simps)
  moreover obtain cur where "load_loop e (?body @ [opEOF] @ big_endian 8 0) 0 (replicate (length dbs) newDatabase) =
      load_loop e ([opEOF] @ big_endian 8 0) cur (map strip_ttl dbs)"
    using load_databases [of iter e dbs "[]" "[opEOF] @ big_endian 8 0" 0] assms
    by (auto simp: NumDatabases_def)
  moreover have "ReadFull (length rdbHeader) (rdbHeader @ r) = Ok rdbHeader r" for r by simp
  moreover have "take 8 rdbHeader = ''DATABASE''" by (simp add: rdbHeader_def)
  ultimately show ?thesis
    using assms(5) by (simp add: Load_def snapshot_bytes_def NewMultiDB_def del: big_endian.simps)
qed

end
