(* ===== verification/ConfigFile.thy ===== *)
theory ConfigFile
  imports GoNum GoStrings
begin

text \<open>
  The configuration file of pkg/persistence/config.go: defaults, one line, the whole file.  Lines
  that are not all ASCII go through Go's Unicode tables (\<open>strings.TrimSpace\<close>, \<open>strings.Fields\<close>,
  \<open>strings.ToLower\<close>), which are parameters.  \<open>bufio.Scanner\<close> splits the file into lines, drops a
  carriage return before the line feed and stops without a report at a line of 64 KiB or more.
  Creating the data directory (\<open>os.MkdirAll\<close>) is not modelled.
\<close>

section \<open>Splitting text\<close>

record unicode =
  uni_ToLower :: "string \<Rightarrow> string"
  uni_TrimSpace :: "string \<Rightarrow> string"
  uni_Fields :: "string \<Rightarrow> string list"

definition is_space :: "char \<Rightarrow> bool" where
  "is_space c \<longleftrightarrow> c \<in> {CHR '' '', CHR 0x09, CHR 0x0A, CHR 0x0B, CHR 0x0C, CHR 0x0D}"

definition trim :: "string \<Rightarrow> string" where
  "trim s = rev (dropWhile is_space (rev (dropWhile is_space s)))"

definition TrimSpace :: "unicode \<Rightarrow> string \<Rightarrow> string" where
  "TrimSpace u s = (if list_all is_ascii s then trim s else uni_TrimSpace u s)"

function ascii_fields :: "string \<Rightarrow> string list" where
  "ascii_fields s =
     (case dropWhile is_space s of
        [] \<Rightarrow> []
      | c # r \<Rightarrow> (c # takeWhile (\<lambda>c. \<not> is_space c) r) # ascii_fields (dropWhile (\<lambda>c. \<not> is_space c) r))"
  by pat_completeness auto
termination
proof (relation "measure length")
  fix s :: string and c r
  assume "dropWhile is_space s = c # r"
  then have "length (c # r) \<le> length s" by (metis length_dropWhile_le)
  then show "(dropWhile (\<lambda>c. \<not> is_space c) r, s) \<in> measure length"
    using length_dropWhile_le [of "\<lambda>c. \<not> is_space c" r] by simp
qed simp

declare ascii_fields.simps [simp del]

definition Fields :: "unicode \<Rightarrow> string \<Rightarrow> string list" where
  "Fields u s = (if list_all is_ascii s then ascii_fields s else uni_Fields u s)"

section \<open>Configuration\<close>

record RDBSnapshot =
  Secs :: int
  KeysChanged :: int

record Config =
  dir :: string
  rdb :: "RDBSnapshot list"
  rdbFn :: string
  aofEnabled :: bool
  aofFn :: string
  aofFsync :: string
  requirePass :: string

definition NewConfig :: Config where
  "NewConfig = \<lparr>dir = ''.'', rdb = [], rdbFn = ''dump.rdb'', aofEnabled = False,
     aofFn = ''appendonly.aof'', aofFsync = ''everysec'', requirePass = ''''\<rparr>"

text \<open>The two \<open>Atoi\<close> errors of a \<open>save\<close> line are ignored; the values that come with them are used.\<close>

definition parseLine :: "unicode \<Rightarrow> string \<Rightarrow> Config \<Rightarrow> Config" where
  "parseLine u line c =
     (let line = TrimSpace u line in
      if line = '''' \<or> take 1 line = ''#'' then c
      else
        let parts = Fields u line in
        if length parts < 2 then c
        else
          let key = ToLower (uni_ToLower u) (parts ! 0); v = parts ! 1 in
          if key = ''save'' then
            (if length parts < 3 then c
             else c\<lparr>rdb := rdb c @ [\<lparr>Secs = Atoi_value (parts ! 1), KeysChanged = Atoi_value (parts ! 2)\<rparr>]\<rparr>)
          else if key = ''dbfilename'' then c\<lparr>rdbFn := v\<rparr>
          else if key = ''appendfilename'' then c\<lparr>aofFn := v\<rparr>
          else if key = ''appendfsync'' then c\<lparr>aofFsync := v\<rparr>
          else if key = ''dir'' then c\<lparr>dir := v\<rparr>
          else if key = ''appendonly'' then c\<lparr>aofEnabled := (v = ''yes'')\<rparr>
          else if key = ''requirepass'' then c\<lparr>requirePass := v\<rparr>
          else c)"

definition drop_cr :: "string \<Rightarrow> string" where
  "drop_cr s = (if s \<noteq> [] \<and> last s = CHR 0x0D then butlast s else s)"

function scan_lines :: "string \<Rightarrow> string list" where
  "scan_lines s =
     (if s = [] then []
      else
        let line = takeWhile (\<lambda>c. c \<noteq> CHR 0x0A) s in
        if length line \<ge> 65536 then []
        else drop_cr line # scan_lines (drop (Suc (length line)) s))"
  by pat_completeness auto
termination
  by (relation "measure length") (auto simp: diff_less_Suc)

declare scan_lines.simps [simp del]

definition ReadConfig :: "unicode \<Rightarrow> string option \<Rightarrow> Config" where
  "ReadConfig u contents =
     (case contents of
        None \<Rightarrow> NewConfig
      | Some bytes \<Rightarrow> fold (parseLine u) (scan_lines bytes) NewConfig)"

section \<open>Fields of a line\<close>

lemma ascii_fields_Nil: "dropWhile is_space s = [] \<Longrightarrow> ascii_fields s = []"
  by (subst ascii_fields.simps) (simp only: list.case)

lemma ascii_fields_Cons:
  "dropWhile is_space s = c # r \<Longrightarrow>
   ascii_fields s = (c # takeWhile (\<lambda>c. \<not> is_space c) r) # ascii_fields (dropWhile (\<lambda>c. \<not> is_space c) r)"
  by (subst ascii_fields.simps) (simp only: list.case)

text \<open>A field is a non-empty word without white space.\<close>

lemma fields_words: "w \<in> set (ascii_fields s) \<Longrightarrow> w \<noteq> [] \<and> list_all (\<lambda>c. \<not> is_space c) w"
proof (induction s rule: ascii_fields.induct)
  case (1 s)
  show ?case
  proof (cases "dropWhile is_space s")
    case Nil
    then show ?thesis using 1(2) ascii_fields_Nil by (metis empty_iff list.set(1))
  next
    case (Cons c r)
    then have "\<not> is_space c" by (metis hd_dropWhile list.sel(1) list.simps(3))
    moreover have "ascii_fields s = (c # takeWhile (\<lambda>c. \<not> is_space c) r) # ascii_fields (dropWhile (\<lambda>c. \<not> is_space c) r)"
      using Cons by (rule ascii_fields_Cons)
    ultimately consider "w = c # takeWhile (\<lambda>c. \<not> is_space c) r" | "w \<in> set (ascii_fields (dropWhile (\<lambda>c. \<not> is_space c) r))"
      using 1(2) by auto
    then show ?thesis
    proof cases
      case 1
      then show ?thesis using \<open>\<not> is_space c\<close> by (auto simp: list_all_iff dest: set_takeWhileD)
    next
      case 2
      then show ?thesis using 1(1) [OF Cons] by blast
    qed
  qed
qed

lemma fields_word_append:
  assumes "w \<noteq> []" and "list_all (\<lambda>c. \<not> is_space c) w" and "is_space c"
  shows "ascii_fields (w @ c # s) = w # ascii_fields s"
proof -
  obtain x w' where w: "w = x # w'" using assms(1) by (cases w) auto
  have "takeWhile (\<lambda>c. \<not> is_space c) (w' @ c # s) = w'" "dropWhile (\<lambda>c. \<not> is_space c) (w' @ c # s) = c # s"
    using assms w by (auto simp: list_all_iff takeWhile_append2 dropWhile_append2)
  moreover have "ascii_fields (c # s) = ascii_fields s"
    using assms(3) by (subst (1 2) ascii_fields.simps) (simp only: dropWhile.simps if_True)
  ultimately show ?thesis
    using assms w ascii_fields_Cons [of "w @ c # s" x "w' @ c # s"] by simp
qed

lemma fields_word: "w \<noteq> [] \<Longrightarrow> list_all (\<lambda>c. \<not> is_space c) w \<Longrightarrow> ascii_fields w = [w]"
proof -
  assume w: "w \<noteq> []" "list_all (\<lambda>c. \<not> is_space c) w"
  then obtain x w' where x: "w = x # w'" by (cases w) auto
  have "takeWhile (\<lambda>c. \<not> is_space c) w' = w'" and dw: "dropWhile (\<lambda>c. \<not> is_space c) w' = []"
    using w x by (simp_all add: list_all_iff takeWhile_eq_all_conv)
  moreover have "ascii_fields w = (x # takeWhile (\<lambda>c. \<not> is_space c) w') # ascii_fields (dropWhile (\<lambda>c. \<not> is_space c) w')"
    using w x by (intro ascii_fields_Cons) simp
  moreover have "ascii_fields [] = []" by (rule ascii_fields_Nil) simp
  ultimately show ?thesis using x by (simp only:)
qed

section \<open>Directives\<close>

definition word :: "string \<Rightarrow> bool" where
  "word w \<longleftrightarrow> w \<noteq> [] \<and> list_all (\<lambda>c. is_ascii c \<and> \<not> is_space c) w"

lemma is_space_blank [simp]: "is_space (CHR '' '')"
  by (simp add: is_space_def)

lemma trim_words:
  assumes "word v" and "word w"
  shows "trim (v @ CHR '' '' # w) = v @ CHR '' '' # w"
proof -
  obtain x v' where v: "v = x # v'" "\<not> is_space x" using assms(1) by (cases v) (auto simp: word_def)
  obtain y w' where w: "w = w' @ [y]" "\<not> is_space y"
    using assms(2) by (cases w rule: rev_cases) (auto simp: word_def)
  show ?thesis by (simp add: trim_def v w)
qed

text \<open>A line \<open>directive value\<close> is read as exactly these two fields.\<close>

lemma parse_directive:
  assumes "word k" and "word v" and "hd k \<noteq> CHR ''#''"
  shows "TrimSpace u (k @ CHR '' '' # v) = k @ CHR '' '' # v"
    and "Fields u (k @ CHR '' '' # v) = [k, v]"
    and "k @ CHR '' '' # v \<noteq> []" and "take 1 (k @ CHR '' '' # v) \<noteq> ''#''"
proof -
  have a: "list_all is_ascii (k @ CHR '' '' # v)"
    using assms(1,2) by (auto simp: word_def list_all_iff is_ascii_def)
  then show "TrimSpace u (k @ CHR '' '' # v) = k @ CHR '' '' # v"
    by (simp add: TrimSpace_def trim_words assms(1,2) del: list_all_append)
  have "ascii_fields (k @ CHR '' '' # v) = [k, v]"
    using assms(1,2) fields_word_append [of k "CHR '' ''" v] fields_word [of v]
    by (auto simp: word_def list_all_iff)
  then show "Fields u (k @ CHR '' '' # v) = [k, v]" using a by (simp add: Fields_def del: list_all_append)
  show "k @ CHR '' '' # v \<noteq> []" "take 1 (k @ CHR '' '' # v) \<noteq> ''#''"
    using assms(1,3) by (cases k; simp add: word_def)+
qed

section \<open>Property of the configuration reader\<close>

lemma trim_comment: "list_all is_ascii s \<Longrightarrow> take 1 (TrimSpace u (CHR ''#'' # s)) = ''#''"
proof -
  assume "list_all is_ascii s"
  then have "TrimSpace u (CHR ''#'' # s) = rev (dropWhile is_space (rev s @ ''#''))"
    by (simp add: TrimSpace_def trim_def is_ascii_def is_space_def)
  also have "\<dots> = CHR ''#'' # rev (dropWhile is_space (rev s))"
    by (simp add: dropWhile_append dropWhile_eq_Nil_conv is_space_def)
  finally show ?thesis by simp
qed

lemma word_save: "word v \<Longrightarrow> word w \<Longrightarrow> TrimSpace u (''save '' @ v @ CHR '' '' # w) = ''save '' @ v @ CHR '' '' # w
  \<and> Fields u (''save '' @ v @ CHR '' '' # w) = [''save'', v, w]"
proof -
  assume vw: "word v" "word w"
  have a: "list_all is_ascii (''save '' @ v @ CHR '' '' # w)"
    using vw by (auto simp: word_def list_all_iff is_ascii_def)
  obtain y w' where w: "w = w' @ [y]" "\<not> is_space y"
    using vw(2) by (cases w rule: rev_cases) (auto simp: word_def)
  have "trim (''save '' @ v @ CHR '' '' # w) = ''save '' @ v @ CHR '' '' # w"
    unfolding trim_def w(1) using w(2) is_space_blank [unfolded is_space_def]
    by (simp add: is_space_def [of "CHR ''s''"])
  moreover have "ascii_fields (''save'' @ CHR '' '' # (v @ CHR '' '' # w)) = [''save'', v, w]"
    using vw fields_word_append [of "''save''" "CHR '' ''" "v @ CHR '' '' # w"]
      fields_word_append [of v "CHR '' ''" w] fields_word [of w]
    by (auto simp: word_def list_all_iff is_space_def)
  ultimately show ?thesis using a unfolding TrimSpace_def Fields_def by simp
qed

lemma ToLower_word: "word k \<Longrightarrow> map lower_char k = k \<Longrightarrow> ToLower f k = k"
  by (auto simp: ToLower_def word_def list_all_iff)

text \<open>What a line with a directive other than \<open>save\<close> and a value does.\<close>

lemma parseLine_directive:
  assumes "word k" and "word v" and "hd k \<noteq> CHR ''#''" and "map lower_char k = k"
  shows "parseLine u (k @ CHR '' '' # v) c =
    (if k = ''save'' then c
     else if k = ''dbfilename'' then c\<lparr>rdbFn := v\<rparr>
     else if k = ''appendfilename'' then c\<lparr>aofFn := v\<rparr>
     else if k = ''appendfsync'' then c\<lparr>aofFsync := v\<rparr>
     else if k = ''dir'' then c\<lparr>dir := v\<rparr>
     else if k = ''appendonly'' then c\<lparr>aofEnabled := (v = ''yes'')\<rparr>
     else if k = ''requirepass'' then c\<lparr>requirePass := v\<rparr>
     else c)"
proof -
  have two: "[k, v] ! 0 = k" "[k, v] ! 1 = v" "\<not> length [k, v] < 2" "length [k, v] < 3" by simp_all
  note p = parse_directive [OF assms(1,2,3)]
  have "(k @ CHR '' '' # v = '''' \<or> take 1 (k @ CHR '' '' # v) = ''#'') = False" using p(3,4) by blast
  then show ?thesis
    unfolding parseLine_def Let_def p(1,2) by (simp only: two ToLower_word [OF assms(1,4)] if_True if_False)
qed

text \<open>
  C36.  A line with a directive and a value sets exactly that setting to the value, whatever was configured
  before; \<open>appendonly\<close> is on for \<open>yes\<close> and off for anything else; \<open>save\<close> adds a snapshot rule after the
  earlier ones, with its two numbers; blank lines and comments change nothing.
\<close>

theorem directives_set_their_setting:
  assumes "word v" and "word w" and "list_all is_ascii s"
  shows "parseLine u (''requirepass'' @ CHR '' '' # v) c = c\<lparr>requirePass := v\<rparr> \<and>
    parseLine u (''dir'' @ CHR '' '' # v) c = c\<lparr>dir := v\<rparr> \<and>
    parseLine u (''dbfilename'' @ CHR '' '' # v) c = c\<lparr>rdbFn := v\<rparr> \<and>
    parseLine u (''appendfilename'' @ CHR '' '' # v) c = c\<lparr>aofFn := v\<rparr> \<and>
    parseLine u (''appendfsync'' @ CHR '' '' # v) c = c\<lparr>aofFsync := v\<rparr> \<and>
    parseLine u (''appendonly'' @ CHR '' '' # v) c = c\<lparr>aofEnabled := (v = ''yes'')\<rparr> \<and>
    parseLine u (''save '' @ v @ CHR '' '' # w) c =
      c\<lparr>rdb := rdb c @ [\<lparr>Secs = Atoi_value v, KeysChanged = Atoi_value w\<rparr>]\<rparr> \<and>
    parseLine u [] c = c \<and> parseLine u (CHR ''#'' # s) c = c"
proof -
  have w: "word ''requirepass''" "word ''dir''" "word ''dbfilename''" "word ''appendfilename''" "word ''appendfsync''" "word ''appendonly''"
    by code_simp+
  have l: "map lower_char ''requirepass'' = ''requirepass''" "map lower_char ''dir'' = ''dir''"
    "map lower_char ''dbfilename'' = ''dbfilename''" "map lower_char ''appendfilename'' = ''appendfilename''"
    "map lower_char ''appendfsync'' = ''appendfsync''" "map lower_char ''appendonly'' = ''appendonly''"
    by code_simp+
  have "ToLower (uni_ToLower u) ''save'' = ''save''" unfolding ToLower_def by code_simp
  then have "parseLine u (''save '' @ v @ CHR '' '' # w) c =
      c\<lparr>rdb := rdb c @ [\<lparr>Secs = Atoi_value v, KeysChanged = Atoi_value w\<rparr>]\<rparr>"
    unfolding parseLine_def Let_def conjunct1 [OF word_save [OF assms(1,2)]] conjunct2 [OF word_save [OF assms(1,2)]]
    by simp
  moreover have "parseLine u [] c = c" by (simp add: parseLine_def TrimSpace_def trim_def)
  moreover have "parseLine u (CHR ''#'' # s) c = c" 
    unfolding parseLine_def Let_def by (simp only: trim_comment [OF assms(3)] simp_thms if_True)
  ultimately show ?thesis
    using w l by (simp add: parseLine_directive [OF _ assms(1), where k = "''requirepass''", simplified]
      parseLine_directive [OF _ assms(1), where k = "''dir''", simplified]
      parseLine_directive [OF _ assms(1), where k = "''dbfilename''", simplified]
      parseLine_directive [OF _ assms(1), where k = "''appendfilename''", simplified]
      parseLine_directive [OF _ assms(1), where k = "''appendfsync''", simplified]
      parseLine_directive [OF _ assms(1), where k = "''appendonly''", simplified])
qed

theorem directives_set_their_setting_witness:
  "requirePass (parseLine \<lparr>uni_ToLower = id, uni_TrimSpace = id, uni_Fields = (\<lambda>s. [s])\<rparr> ''requirepass hunter2'' NewConfig) = ''hunter2'' \<and>
   rdb (parseLine \<lparr>uni_ToLower = id, uni_TrimSpace = id, uni_Fields = (\<lambda>s. [s])\<rparr> ''save hunter2 60'' NewConfig) =
     [\<lparr>Secs = Atoi_value ''hunter2'', KeysChanged = Atoi_value ''60''\<rparr>]"
proof -
  have "word ''hunter2''" "word ''60''" "list_all is_ascii ''x''" by code_simp+
  from directives_set_their_setting [OF this, where c = NewConfig
      and u = "\<lparr>uni_ToLower = id, uni_TrimSpace = id, uni_Fields = (\<lambda>s. [s])\<rparr>"]
  show ?thesis by (simp add: NewConfig_def)
qed

end
