(* ===== verification/Snapshots.thy ===== *)
theory Snapshots
  imports Rdb ConfigFile
begin

text \<open>
  The snapshot service around the file format: \<open>RDB.Save\<close> with its temporary file, the error paths
  of its system calls, the change counter, the policy of \<open>snapshotLoop\<close>, \<open>Close\<close>, and the handlers
  \<open>SAVE\<close>, \<open>BGSAVE\<close> and \<open>LASTSAVE\<close> of pkg/commands/string_commands.go.  Which system call fails is a
  parameter of \<open>Save\<close>.
\<close>

section \<open>State\<close>

record files =
  snapshot :: "string option"
  tmp :: "string option"

record RDB =
  disk :: files
  changes :: int
  lastSave :: int

datatype save_error =
  CreateTempFile | WriteError nat | FlushError nat | SyncError | CloseError | RenameError

text \<open>\<open>NewRDB\<close> on the files left by an earlier run: the databases and the service.\<close>

definition NewRDB :: "env \<Rightarrow> files \<Rightarrow> Database list \<Rightarrow> RDB \<times> Database list" where
  "NewRDB e d dbs = (\<lparr>disk = d, changes = 0, lastSave = now e\<rparr>, fst (Load e (snapshot d) dbs))"

definition NewRDBWithoutLoad :: "env \<Rightarrow> files \<Rightarrow> RDB" where
  "NewRDBWithoutLoad e d = \<lparr>disk = d, changes = 0, lastSave = now e\<rparr>"

definition IncrementChanges :: "RDB \<Rightarrow> RDB" where
  "IncrementChanges r = r\<lparr>changes := wrap64 (changes r + 1)\<rparr>"

section \<open>Save\<close>

text \<open>
  The states of the disk during \<open>Save\<close>, after each system call that changes it, and the error it
  returns.  A failed write or flush leaves some prefix of the bytes in the temporary file until the
  file is removed; the failures of \<open>Sync\<close> and \<open>Close\<close> and \<open>Rename\<close> leave all of them.
\<close>

definition save_trace :: "save_error option \<Rightarrow> string \<Rightarrow> files \<Rightarrow> files list \<times> save_error option" where
  "save_trace fault bytes d =
     (let created = d\<lparr>tmp := Some []\<rparr>;
          partial = (\<lambda>n. created\<lparr>tmp := Some (take n bytes)\<rparr>);
          written = created\<lparr>tmp := Some bytes\<rparr>;
          removed = d\<lparr>tmp := None\<rparr>
      in case fault of
           Some CreateTempFile \<Rightarrow> ([d], fault)
         | Some (WriteError n) \<Rightarrow> ([d, created, partial n, removed], fault)
         | Some (FlushError n) \<Rightarrow> ([d, created, partial n, removed], fault)
         | Some SyncError \<Rightarrow> ([d, created, written, removed], fault)
         | Some CloseError \<Rightarrow> ([d, created, written, removed], fault)
         | Some RenameError \<Rightarrow> ([d, created, written, removed], fault)
         | None \<Rightarrow> ([d, created, written, \<lparr>snapshot = Some bytes, tmp = None\<rparr>], None))"

definition Save :: "save_error option \<Rightarrow> env \<Rightarrow> Database list \<Rightarrow> RDB \<Rightarrow> RDB \<times> save_error option" where
  "Save fault e dbs r =
     (case save_trace fault (snapshot_bytes (map_order e) dbs) (disk r) of
        (ds, er) \<Rightarrow> (r\<lparr>disk := last ds\<rparr>, er))"

definition Close_RDB :: "save_error option \<Rightarrow> env \<Rightarrow> Database list \<Rightarrow> RDB \<Rightarrow> RDB \<times> save_error option" where
  "Close_RDB fault e dbs r = Save fault e dbs r"

text \<open>
  One tick of \<open>snapshotLoop\<close>: the first rule whose condition holds saves, and only a successful save
  resets the counter and the time.  (The code compares the elapsed time in floating-point seconds.)
\<close>

definition snapshot_tick ::
  "save_error option \<Rightarrow> env \<Rightarrow> RDBSnapshot list \<Rightarrow> Database list \<Rightarrow> RDB \<Rightarrow> RDB" where
  "snapshot_tick fault e rules dbs r =
     (let elapsed = now e - lastSave r; chg = changes r in
      case List.find (\<lambda>s. elapsed \<ge> Secs s * Second \<and> chg \<ge> KeysChanged s) rules of
        None \<Rightarrow> r
      | Some s \<Rightarrow>
          (case Save fault e dbs r of
             (r', None) \<Rightarrow> r'\<lparr>lastSave := now e, changes := 0\<rparr>
           | (r', Some er) \<Rightarrow> r'))"

section \<open>Handlers\<close>

text \<open>\<open>BGSAVE\<close> starts \<open>Save\<close> in the background; the flag says that it did.\<close>

fun save_message :: "save_error \<Rightarrow> string" where
  "save_message CreateTempFile = ''create temp file: ''"
| "save_message (WriteError n) = ''write error: ''"
| "save_message (FlushError n) = ''flush error: ''"
| "save_message SyncError = ''sync error: ''"
| "save_message CloseError = ''close error: ''"
| "save_message RenameError = ''rename error: ''"

definition not_configured :: Value where
  "not_configured = err ''ERR RDB not configured''"

text \<open>\<open>cause\<close> is the text of the operating system's error.\<close>

definition save_cmd ::
  "save_error option \<Rightarrow> string \<Rightarrow> env \<Rightarrow> Database list \<Rightarrow> RDB option \<Rightarrow> RDB option \<times> Value" where
  "save_cmd fault cause e dbs r =
     (case r of
        None \<Rightarrow> (None, not_configured)
      | Some r \<Rightarrow>
          (case Save fault e dbs r of
             (r', Some er) \<Rightarrow> (Some r', err (''ERR '' @ save_message er @ cause))
           | (r', None) \<Rightarrow> (Some r', simple ''OK'')))"

definition bgsave :: "RDB option \<Rightarrow> bool \<times> Value" where
  "bgsave r =
     (case r of
        None \<Rightarrow> (False, not_configured)
      | Some _ \<Rightarrow> (True, simple ''Background saving started''))"

definition lastsave :: "RDB option \<Rightarrow> Value" where
  "lastsave r =
     (case r of None \<Rightarrow> not_configured | Some r \<Rightarrow> integer (lastSave r div Second))"

section \<open>The outcome of Save\<close>

text \<open>What \<open>Save\<close> leaves on the disk and returns.\<close>

lemma save_trace_result:
  "snd (save_trace fault bytes d) = fault"
  "fault = None \<Longrightarrow> last (fst (save_trace fault bytes d)) = \<lparr>snapshot = Some bytes, tmp = None\<rparr>"
  "fault \<noteq> None \<Longrightarrow> snapshot (last (fst (save_trace fault bytes d))) = snapshot d"
  by (auto simp: save_trace_def Let_def split: option.splits save_error.splits)

lemma Save_ok:
  "Save None e dbs r = (r\<lparr>disk := \<lparr>snapshot = Some (snapshot_bytes (map_order e) dbs), tmp = None\<rparr>\<rparr>, None)"
  by (simp add: Save_def save_trace_def Let_def)

lemma Save_fault:
  "fault \<noteq> None \<Longrightarrow> snapshot (disk (fst (Save fault e dbs r))) = snapshot (disk r)"
  "snd (Save fault e dbs r) = fault"
  "lastSave (fst (Save fault e dbs r)) = lastSave r"
  "changes (fst (Save fault e dbs r)) = changes r"
  by (simp_all add: Save_def save_trace_result case_prod_unfold)

text \<open>A snapshot that was written is what the next start loads.\<close>

lemma NewRDB_after_Save:
  assumes "fair (map_order e)" and "fair (map_order e')" and "list_all fits dbs" and "list_all db_wf dbs"
    and "length dbs = NumDatabases"
  shows "snd (NewRDB e' (disk (fst (Save None e dbs r))) (DBs NewMultiDB)) = map strip_ttl dbs"
  using Load_snapshot [OF assms] by (simp add: NewRDB_def Save_ok)

section \<open>Property of the snapshot service\<close>


end
