(* ===== verification/Server.thy ===== *)
theory Server
  imports Replay Snapshots
begin

text \<open>
  The server of pkg/server/server.go and pkg/server/tcp.go: what one connection does with each value
  it receives (\<open>handleConnection\<close> and the functions it calls), and start-up.  A connection runs in
  its own goroutine; the functions here are the atomic pieces its steps are made of.  \<open>sysenv\<close> holds
  what the operating system answers during the step.
\<close>

section \<open>State\<close>

record Server =
  databases :: MultiDB
  aof :: "Aof option"
  rdb_service :: "RDB option"
  password :: string
  background_saves :: nat

record Conn =
  authenticated :: bool
  dbIndex :: int
  subscriptions :: "(string, chan) fmap"

record sysenv =
  ev :: env
  save_fault :: "save_error option"
  fault_text :: string

definition new_conn :: "Server \<Rightarrow> Conn" where
  "new_conn s = \<lparr>authenticated = (password s = []), dbIndex = 0, subscriptions = fmempty\<rparr>"

text \<open>A blocking pop that waits: its direction, the received value and its deadline.\<close>

record Waiter =
  from_left :: bool
  original :: Value
  until :: "int option"

datatype result =
  Sent Server Conn "Value list"
| Suspended Server Conn Waiter
| Down

section \<open>AUTH and SELECT\<close>

definition handleAuth :: "Value list \<Rightarrow> Server \<Rightarrow> bool \<times> Value" where
  "handleAuth args s =
     (if length args \<noteq> 1
      then (password s = [], err ''ERR wrong number of arguments for 'auth' command'')
      else if password s = [] then (True, err ''ERR Client sent AUTH, but no password is set'')
      else if Str (args ! 0) \<noteq> password s then (False, err ''WRONGPASS invalid username-password pair'')
      else (True, simple ''OK''))"

definition handleSelect :: "Value list \<Rightarrow> int \<Rightarrow> int \<times> Value" where
  "handleSelect args currentIndex =
     (if length args \<noteq> 1
      then (currentIndex, err ''ERR wrong number of arguments for 'select' command'')
      else case Atoi (Str (args ! 0)) of
        Inl _ \<Rightarrow> (currentIndex, not_an_integer)
      | Inr index \<Rightarrow>
          if index < 0 \<or> index \<ge> int NumDatabases
          then (currentIndex, err ''ERR DB index is out of range'')
          else (index, simple ''OK''))"

section \<open>Subscriptions\<close>

fun handleSubscribe :: "Value list \<Rightarrow> (string, chan) fmap \<Rightarrow> PubSub \<Rightarrow> Value list \<Rightarrow>
    (string, chan) fmap \<times> PubSub \<times> Value list" where
  "handleSubscribe [] sm ps out = (sm, ps, out)"
| "handleSubscribe (arg # args) sm ps out =
     (let channel = Str arg in
      if fmlookup sm channel \<noteq> None then handleSubscribe args sm ps out
      else
        let (ps, ch) = Subscribe channel ps; sm = fmupd channel ch sm
        in handleSubscribe args sm ps
             (out @ [array [bulk ''subscribe'', bulk channel, integer (int (maplen sm))]]))"

text \<open>\<open>None\<close> is the panic of closing a closed channel.\<close>

fun unsubscribe_loop :: "string list \<Rightarrow> (string, chan) fmap \<Rightarrow> PubSub \<Rightarrow> Value list \<Rightarrow>
    ((string, chan) fmap \<times> PubSub \<times> Value list) option" where
  "unsubscribe_loop [] sm ps out = Some (sm, ps, out)"
| "unsubscribe_loop (channel # channels) sm ps out =
     (case (case fmlookup sm channel of
              Some ch \<Rightarrow> map_option (\<lambda>ps. (fmdrop channel sm, ps)) (Unsubscribe channel ch ps)
            | None \<Rightarrow> Some (sm, ps)) of
        None \<Rightarrow> None
      | Some (sm, ps) \<Rightarrow>
          unsubscribe_loop channels sm ps
            (out @ [array [bulk ''unsubscribe'', bulk channel, integer (int (maplen sm))]]))"

definition handleUnsubscribe :: "order \<Rightarrow> Value list \<Rightarrow> (string, chan) fmap \<Rightarrow> PubSub \<Rightarrow>
    ((string, chan) fmap \<times> PubSub \<times> Value list) option" where
  "handleUnsubscribe iter args sm ps =
     unsubscribe_loop (if length args = 0 then range_keys iter sm else map Str args) sm ps []"

text \<open>The deferred clean-up of a connection that ends.\<close>

definition disconnect :: "order \<Rightarrow> Conn \<Rightarrow> Server \<Rightarrow> Server option" where
  "disconnect iter c s =
     map_option (\<lambda>(sm, ps, out). s\<lparr>databases := (databases s)\<lparr>Broker := ps\<rparr>\<rparr>)
       (unsubscribe_loop (range_keys iter (subscriptions c)) (subscriptions c) (Broker (databases s)) [])"

section \<open>Commands\<close>

text \<open>The second half of \<open>processCommand\<close>: log a successful mutating command, count the change.\<close>

definition log_command :: "string \<Rightarrow> Value \<Rightarrow> int \<Rightarrow> Value \<Rightarrow> Server \<Rightarrow> Server" where
  "log_command cmd orig i response s =
     (if Type response \<noteq> SimpleError \<and> shouldPersist cmd
      then s\<lparr>aof := map_option (Aof_Write i orig) (aof s),
             rdb_service := map_option IncrementChanges (rdb_service s)\<rparr>
      else s)"

definition put_state :: "int \<Rightarrow> Database \<Rightarrow> PubSub \<Rightarrow> Server \<Rightarrow> Server" where
  "put_state i db ps s = s\<lparr>databases := (set_DB i db (databases s))\<lparr>Broker := ps\<rparr>\<rparr>"

definition processCommand :: "sysenv \<Rightarrow> string \<Rightarrow> Value list \<Rightarrow> Value \<Rightarrow> Conn \<Rightarrow> Server \<Rightarrow> result" where
  "processCommand se cmd args orig c s =
     (case DB (dbIndex c) (databases s) of
        None \<Rightarrow> Down
      | Some db \<Rightarrow>
          if cmd = ''SAVE'' then
            (case save_cmd (save_fault se) (fault_text se) (ev se) (DBs (databases s)) (rdb_service s) of
               (r, v) \<Rightarrow> Sent (s\<lparr>rdb_service := r\<rparr>) c [v])
          else if cmd = ''BGSAVE'' then
            (case bgsave (rdb_service s) of
               (started, v) \<Rightarrow> Sent (s\<lparr>background_saves := background_saves s + of_bool started\<rparr>) c [v])
          else if cmd = ''LASTSAVE'' then Sent s c [lastsave (rdb_service s)]
          else
            (case CommandHandlers cmd of
               None \<Rightarrow> Sent s c [err (''ERR unknown command '' @ [CHR 0x27] @ cmd @ [CHR 0x27])]
             | Some h \<Rightarrow>
                 (case call_handler h (ev se) args db (Broker (databases s)) of
                    Crash \<Rightarrow> Down
                  | Waiting db' dl \<Rightarrow>
                      Suspended (put_state (dbIndex c) db' (Broker (databases s)) s) c
                        \<lparr>from_left = (cmd = ''BLPOP''), original = orig, until = dl\<rparr>
                  | Answer db' ps' v \<Rightarrow>
                      Sent (log_command cmd orig (dbIndex c) v (put_state (dbIndex c) db' ps' s)) c [v])))"

text \<open>A further turn of a waiting blocking pop, after a push or at its deadline.\<close>

definition resume :: "sysenv \<Rightarrow> Waiter \<Rightarrow> Conn \<Rightarrow> Server \<Rightarrow> result" where
  "resume se w c s =
     (case DB (dbIndex c) (databases s) of
        None \<Rightarrow> Down
      | Some db \<Rightarrow>
          (case block_iter (from_left w) (now (ev se)) (blocking_args (drop 1 (Array (original w)))) (until w) db of
             Parked db' dl \<Rightarrow> Suspended (put_state (dbIndex c) db' (Broker (databases s)) s) c w
           | Replied db' v \<Rightarrow>
               Sent (log_command (if from_left w then ''BLPOP'' else ''BRPOP'') (original w) (dbIndex c) v
                       (put_state (dbIndex c) db' (Broker (databases s)) s)) c [v]))"

section \<open>One received value\<close>

definition handle_value :: "sysenv \<Rightarrow> Value \<Rightarrow> Conn \<Rightarrow> Server \<Rightarrow> result" where
  "handle_value se v c s =
     (if Type v \<noteq> ArrayType \<or> length (Array v) = 0
      then Sent s c [err ''ERR invalid command format'']
      else
        let cmd = ToUpper (unicode_ToUpper (ev se)) (Str (Array v ! 0)); args = drop 1 (Array v) in
        if cmd = ''AUTH'' then
          (case handleAuth args s of (ok, reply) \<Rightarrow> Sent s (c\<lparr>authenticated := ok\<rparr>) [reply])
        else if \<not> authenticated c then Sent s c [err ''NOAUTH Authentication required'']
        else if cmd = ''SELECT'' then
          (case handleSelect args (dbIndex c) of (i, reply) \<Rightarrow> Sent s (c\<lparr>dbIndex := i\<rparr>) [reply])
        else if cmd = ''SUBSCRIBE'' then
          (case handleSubscribe args (subscriptions c) (Broker (databases s)) [] of
             (sm, ps, out) \<Rightarrow>
               Sent (s\<lparr>databases := (databases s)\<lparr>Broker := ps\<rparr>\<rparr>) (c\<lparr>subscriptions := sm\<rparr>) out)
        else if cmd = ''UNSUBSCRIBE'' then
          (case handleUnsubscribe (map_order (ev se)) args (subscriptions c) (Broker (databases s)) of
             None \<Rightarrow> Down
           | Some (sm, ps, out) \<Rightarrow>
               Sent (s\<lparr>databases := (databases s)\<lparr>Broker := ps\<rparr>\<rparr>) (c\<lparr>subscriptions := sm\<rparr>) out)
        else processCommand se cmd args v c s)"

section \<open>Start-up\<close>

definition replay_entry :: "env \<Rightarrow> int \<Rightarrow> Value \<Rightarrow> MultiDB \<Rightarrow> MultiDB option" where
  "replay_entry e i v m = map_option (\<lambda>db. set_DB i (replayCommand e v db) m) (DB i m)"

text \<open>
  \<open>New\<close> with the configuration and the two files of an earlier run; \<open>None\<close> is the panic of an AOF
  whose \<open>SELECT\<close> entry names a database that does not exist.  An error while reading the AOF keeps
  what was replayed before it.
\<close>

definition NewServer :: "env \<Rightarrow> Config \<Rightarrow> files \<Rightarrow> string \<Rightarrow> Server option" where
  "NewServer e config d log =
     (if aofEnabled config then
        (case Aof_Read (replay_entry e) (NewAof log) NewMultiDB of
           ReadPanic \<Rightarrow> None
         | ReadOk m \<Rightarrow> Some \<lparr>databases = m, aof = Some (NewAof log), rdb_service = Some (NewRDBWithoutLoad e d),
                           password = requirePass config, background_saves = 0\<rparr>
         | ReadFailed er m \<Rightarrow> Some \<lparr>databases = m, aof = Some (NewAof log), rdb_service = Some (NewRDBWithoutLoad e d),
                           password = requirePass config, background_saves = 0\<rparr>)
      else
        (case NewRDB e d (DBs NewMultiDB) of
           (r, dbs) \<Rightarrow> Some \<lparr>databases = NewMultiDB\<lparr>DBs := dbs\<rparr>, aof = None, rdb_service = Some r,
                          password = requirePass config, background_saves = 0\<rparr>))"

text \<open>The periodic sweep of \<open>expiryLoop\<close>, and a background save that runs.\<close>

definition expiry_tick :: "env \<Rightarrow> Server \<Rightarrow> Server" where
  "expiry_tick e s = s\<lparr>databases := MultiDB_SweepExpired e (databases s)\<rparr>"

definition run_background_save :: "sysenv \<Rightarrow> Server \<Rightarrow> Server" where
  "run_background_save se s =
     (if background_saves s = 0 then s
      else s\<lparr>background_saves := background_saves s - 1,
             rdb_service := map_option (\<lambda>r. fst (Save (save_fault se) (ev se) (DBs (databases s)) r)) (rdb_service s)\<rparr>)"

definition Shutdown :: "sysenv \<Rightarrow> Server \<Rightarrow> Server \<times> save_error option" where
  "Shutdown se s =
     (case rdb_service s of
        None \<Rightarrow> (s, None)
      | Some r \<Rightarrow>
          (case Close_RDB (save_fault se) (ev se) (DBs (databases s)) r of
             (r', er) \<Rightarrow> (s\<lparr>rdb_service := Some r'\<rparr>, er)))"

end
