(* ===== verification/Embedded.thy ===== *)
theory Embedded
  imports Server
begin

text \<open>
  The embedded client of pkg/shoredis/shoredis.go.  Clients made by \<open>NewFrom\<close> share the databases and the
  snapshot service through pointers: that shared part is \<open>Engine\<close>, passed along, and a \<open>Client\<close> is what is
  its own, the selected index.  \<open>pending_saves\<close> counts the background saves that have been started;
  \<open>stopped\<close> says whether the service's stop channel is closed, since
  closing it again panics.  A Go result \<open>(T, error)\<close> is a pair with an optional error; the errors
  are named by a datatype instead of their texts.
\<close>

section \<open>State\<close>

record Client =
  client_index :: int

record Engine =
  mdb :: MultiDB
  rdb_of :: "RDB option"
  stopped :: bool
  pending_saves :: nat

datatype client_error =
  UnknownCommand string | ReplyError string | NoPersistence | IndexOutOfRange int | SaveFailed save_error

text \<open>What a call leads to: it returns, it waits in a blocking pop, or it panics.\<close>

datatype 'a call = Returned Engine 'a | Blocked Engine "int option" | Panicked

definition Client_New :: "Client \<times> Engine" where
  "Client_New = (\<lparr>client_index = 0\<rparr>, \<lparr>mdb = NewMultiDB, rdb_of = None, stopped = False, pending_saves = 0\<rparr>)"

text \<open>\<open>Open\<close> on the contents of the configuration file and the files of an earlier run; \<open>NewRDB\<close> returns no error.\<close>

definition Open :: "env \<Rightarrow> files \<Rightarrow> Client \<times> Engine" where
  "Open e d =
     (case NewRDB e d (DBs NewMultiDB) of
        (r, dbs) \<Rightarrow>
          (\<lparr>client_index = 0\<rparr>, \<lparr>mdb = NewMultiDB\<lparr>DBs := dbs\<rparr>, rdb_of = Some r, stopped = False, pending_saves = 0\<rparr>))"

definition NewFrom :: "Client \<Rightarrow> Client" where
  "NewFrom c = \<lparr>client_index = 0\<rparr>"

definition Select :: "int \<Rightarrow> Client \<Rightarrow> Client \<times> client_error option" where
  "Select index c =
     (if index < 0 \<or> index \<ge> int NumDatabases then (c, Some (IndexOutOfRange index))
      else (c\<lparr>client_index := index\<rparr>, None))"

definition currentDB :: "Client \<Rightarrow> Engine \<Rightarrow> Database option" where
  "currentDB c g = DB (client_index c) (mdb g)"

definition Client_Save :: "sysenv \<Rightarrow> Engine \<Rightarrow> Engine \<times> client_error option" where
  "Client_Save se g =
     (case rdb_of g of
        None \<Rightarrow> (g, Some NoPersistence)
      | Some r \<Rightarrow>
          (case Save (save_fault se) (ev se) (DBs (mdb g)) r of
             (r', er) \<Rightarrow> (g\<lparr>rdb_of := Some r'\<rparr>, map_option SaveFailed er)))"

definition Client_Close :: "sysenv \<Rightarrow> Engine \<Rightarrow> client_error option call" where
  "Client_Close se g =
     (case rdb_of g of
        None \<Rightarrow> Returned g None
      | Some r \<Rightarrow>
          if stopped g then Panicked
          else
            (case Close_RDB (save_fault se) (ev se) (DBs (mdb g)) r of
               (r', er) \<Rightarrow> Returned (g\<lparr>rdb_of := Some r', stopped := True\<rparr>) (map_option SaveFailed er)))"

section \<open>Results\<close>

type_synonym Result = Value

definition Result_Err :: "Result \<Rightarrow> client_error option" where
  "Result_Err r = (if Type r = SimpleError then Some (ReplyError (Str r)) else None)"

definition IsNil :: "Result \<Rightarrow> bool" where
  "IsNil r \<longleftrightarrow> Type r = NullType"

definition Result_String :: "Result \<Rightarrow> string" where
  "Result_String r = Str r"

definition Result_Int :: "Result \<Rightarrow> int" where
  "Result_Int r = Num r"

definition Result_Strings :: "Result \<Rightarrow> string list" where
  "Result_Strings r = map Str (Array r)"

section \<open>Do\<close>

definition normalizeCmd :: "string \<Rightarrow> string" where
  "normalizeCmd cmd =
     map (\<lambda>b. if CHR ''a'' \<le> b \<and> b \<le> CHR ''z'' then char_of (of_char b - (97 - 65) :: nat) else b) cmd"

definition Do :: "sysenv \<Rightarrow> string \<Rightarrow> string list \<Rightarrow> Client \<Rightarrow> Engine \<Rightarrow> (client_error + Result) call" where
  "Do se cmd args c g =
     (let handlerArgs = map bulk args; nm = normalizeCmd cmd in
      case currentDB c g of
        None \<Rightarrow> Panicked
      | Some db \<Rightarrow>
          if nm = ''SAVE'' then
            (case save_cmd (save_fault se) (fault_text se) (ev se) (DBs (mdb g)) (rdb_of g) of
               (r, v) \<Rightarrow> Returned (g\<lparr>rdb_of := r\<rparr>) (Inr v))
          else if nm = ''BGSAVE'' then
            (case bgsave (rdb_of g) of
               (started, v) \<Rightarrow> Returned (g\<lparr>pending_saves := pending_saves g + of_bool started\<rparr>) (Inr v))
          else if nm = ''LASTSAVE'' then Returned g (Inr (lastsave (rdb_of g)))
          else
            (case CommandHandlers nm of
               None \<Rightarrow> Returned g (Inl (UnknownCommand cmd))
             | Some h \<Rightarrow>
                 (case call_handler h (ev se) handlerArgs db (Broker (mdb g)) of
                    Crash \<Rightarrow> Panicked
                  | Waiting db' dl \<Rightarrow> Blocked (g\<lparr>mdb := set_DB (client_index c) db' (mdb g)\<rparr>) dl
                  | Answer db' ps' v \<Rightarrow>
                      Returned (g\<lparr>mdb := (set_DB (client_index c) db' (mdb g))\<lparr>Broker := ps'\<rparr>\<rparr>) (Inr v))))"

section \<open>Typed methods\<close>

text \<open>The five ways the typed methods unpack a result.\<close>

definition status_result :: "client_error + Result \<Rightarrow> client_error option" where
  "status_result r = (case r of Inl er \<Rightarrow> Some er | Inr v \<Rightarrow> Result_Err v)"

definition int_result :: "client_error + Result \<Rightarrow> int \<times> client_error option" where
  "int_result r = (case r of Inl er \<Rightarrow> (0, Some er) | Inr v \<Rightarrow> (Result_Int v, Result_Err v))"

definition flag_result :: "client_error + Result \<Rightarrow> bool \<times> client_error option" where
  "flag_result r = (case r of Inl er \<Rightarrow> (False, Some er) | Inr v \<Rightarrow> (Result_Int v = 1, Result_Err v))"

definition value_result :: "client_error + Result \<Rightarrow> string \<times> bool \<times> client_error option" where
  "value_result r =
     (case r of
        Inl er \<Rightarrow> ('''', False, Some er)
      | Inr v \<Rightarrow>
          (case Result_Err v of
             Some er \<Rightarrow> ('''', False, Some er)
           | None \<Rightarrow> if IsNil v then ('''', False, None) else (Result_String v, True, None)))"

definition strings_result :: "client_error + Result \<Rightarrow> string list \<times> client_error option" where
  "strings_result r =
     (case r of
        Inl er \<Rightarrow> ([], Some er)
      | Inr v \<Rightarrow> (case Result_Err v of Some er \<Rightarrow> ([], Some er) | None \<Rightarrow> (Result_Strings v, None)))"

definition Client_Set :: "sysenv \<Rightarrow> string \<Rightarrow> string \<Rightarrow> Client \<Rightarrow> Engine \<Rightarrow> client_error option call" where
  "Client_Set se key v c g = map_call status_result (Do se ''SET'' [key, v] c g)"

definition Client_Get :: "sysenv \<Rightarrow> string \<Rightarrow> Client \<Rightarrow> Engine \<Rightarrow> (string \<times> bool \<times> client_error option) call" where
  "Client_Get se key c g = map_call value_result (Do se ''GET'' [key] c g)"

definition Client_Del :: "sysenv \<Rightarrow> string list \<Rightarrow> Client \<Rightarrow> Engine \<Rightarrow> (int \<times> client_error option) call" where
  "Client_Del se keys c g = map_call int_result (Do se ''DEL'' keys c g)"

definition Client_Exists :: "sysenv \<Rightarrow> string list \<Rightarrow> Client \<Rightarrow> Engine \<Rightarrow> (int \<times> client_error option) call" where
  "Client_Exists se keys c g = map_call int_result (Do se ''EXISTS'' keys c g)"

definition Client_Incr :: "sysenv \<Rightarrow> string \<Rightarrow> Client \<Rightarrow> Engine \<Rightarrow> (int \<times> client_error option) call" where
  "Client_Incr se key c g = map_call int_result (Do se ''INCR'' [key] c g)"

definition Client_IncrBy :: "sysenv \<Rightarrow> string \<Rightarrow> int \<Rightarrow> Client \<Rightarrow> Engine \<Rightarrow> (int \<times> client_error option) call" where
  "Client_IncrBy se key delta c g = map_call int_result (Do se ''INCRBY'' [key, Itoa delta] c g)"

definition Client_Decr :: "sysenv \<Rightarrow> string \<Rightarrow> Client \<Rightarrow> Engine \<Rightarrow> (int \<times> client_error option) call" where
  "Client_Decr se key c g = map_call int_result (Do se ''DECR'' [key] c g)"

definition Client_DecrBy :: "sysenv \<Rightarrow> string \<Rightarrow> int \<Rightarrow> Client \<Rightarrow> Engine \<Rightarrow> (int \<times> client_error option) call" where
  "Client_DecrBy se key delta c g = map_call int_result (Do se ''DECRBY'' [key, Itoa delta] c g)"

definition Client_LPush :: "sysenv \<Rightarrow> string \<Rightarrow> string list \<Rightarrow> Client \<Rightarrow> Engine \<Rightarrow> (int \<times> client_error option) call" where
  "Client_LPush se key vs c g = map_call int_result (Do se ''LPUSH'' ([key] @ vs) c g)"

definition Client_RPush :: "sysenv \<Rightarrow> string \<Rightarrow> string list \<Rightarrow> Client \<Rightarrow> Engine \<Rightarrow> (int \<times> client_error option) call" where
  "Client_RPush se key vs c g = map_call int_result (Do se ''RPUSH'' ([key] @ vs) c g)"

definition Client_LPop :: "sysenv \<Rightarrow> string \<Rightarrow> Client \<Rightarrow> Engine \<Rightarrow> (string \<times> bool \<times> client_error option) call" where
  "Client_LPop se key c g = map_call value_result (Do se ''LPOP'' [key] c g)"

definition Client_RPop :: "sysenv \<Rightarrow> string \<Rightarrow> Client \<Rightarrow> Engine \<Rightarrow> (string \<times> bool \<times> client_error option) call" where
  "Client_RPop se key c g = map_call value_result (Do se ''RPOP'' [key] c g)"

definition Client_LRange :: "sysenv \<Rightarrow> string \<Rightarrow> int \<Rightarrow> int \<Rightarrow> Client \<Rightarrow> Engine \<Rightarrow> (string list \<times> client_error option) call" where
  "Client_LRange se key start stop c g = map_call strings_result (Do se ''LRANGE'' [key, Itoa start, Itoa stop] c g)"

definition Client_LLen :: "sysenv \<Rightarrow> string \<Rightarrow> Client \<Rightarrow> Engine \<Rightarrow> (int \<times> client_error option) call" where
  "Client_LLen se key c g = map_call int_result (Do se ''LLEN'' [key] c g)"

definition Client_SAdd :: "sysenv \<Rightarrow> string \<Rightarrow> string list \<Rightarrow> Client \<Rightarrow> Engine \<Rightarrow> (int \<times> client_error option) call" where
  "Client_SAdd se key ms c g = map_call int_result (Do se ''SADD'' ([key] @ ms) c g)"

definition Client_SRem :: "sysenv \<Rightarrow> string \<Rightarrow> string list \<Rightarrow> Client \<Rightarrow> Engine \<Rightarrow> (int \<times> client_error option) call" where
  "Client_SRem se key ms c g = map_call int_result (Do se ''SREM'' ([key] @ ms) c g)"

definition Client_SMembers :: "sysenv \<Rightarrow> string \<Rightarrow> Client \<Rightarrow> Engine \<Rightarrow> (string list \<times> client_error option) call" where
  "Client_SMembers se key c g = map_call strings_result (Do se ''SMEMBERS'' [key] c g)"

definition Client_SIsMember :: "sysenv \<Rightarrow> string \<Rightarrow> string \<Rightarrow> Client \<Rightarrow> Engine \<Rightarrow> (bool \<times> client_error option) call" where
  "Client_SIsMember se key member c g = map_call flag_result (Do se ''SISMEMBER'' [key, member] c g)"

definition Client_HSet :: "sysenv \<Rightarrow> string \<Rightarrow> string \<Rightarrow> string \<Rightarrow> Client \<Rightarrow> Engine \<Rightarrow> (bool \<times> client_error option) call" where
  "Client_HSet se key field v c g = map_call flag_result (Do se ''HSET'' [key, field, v] c g)"

definition Client_HGet :: "sysenv \<Rightarrow> string \<Rightarrow> string \<Rightarrow> Client \<Rightarrow> Engine \<Rightarrow> (string \<times> bool \<times> client_error option) call" where
  "Client_HGet se key field c g = map_call value_result (Do se ''HGET'' [key, field] c g)"

text \<open>The loop \<open>for i := 0; i+1 < len(flat); i += 2\<close> over the flat reply.\<close>

fun flat_loop :: "Value list \<Rightarrow> (string, string) fmap \<Rightarrow> (string, string) fmap" where
  "flat_loop (f # v # flat) out = flat_loop flat (fmupd (Str f) (Str v) out)"
| "flat_loop flat out = out"

definition map_result :: "client_error + Result \<Rightarrow> (string, string) fmap \<times> client_error option" where
  "map_result r =
     (case r of
        Inl er \<Rightarrow> (fmempty, Some er)
      | Inr v \<Rightarrow> (case Result_Err v of Some er \<Rightarrow> (fmempty, Some er) | None \<Rightarrow> (flat_loop (Array v) fmempty, None)))"

definition Client_HGetAll :: "sysenv \<Rightarrow> string \<Rightarrow> Client \<Rightarrow> Engine \<Rightarrow> ((string, string) fmap \<times> client_error option) call" where
  "Client_HGetAll se key c g = map_call map_result (Do se ''HGETALL'' [key] c g)"

definition Client_HDel :: "sysenv \<Rightarrow> string \<Rightarrow> string list \<Rightarrow> Client \<Rightarrow> Engine \<Rightarrow> (int \<times> client_error option) call" where
  "Client_HDel se key fs c g = map_call int_result (Do se ''HDEL'' ([key] @ fs) c g)"

definition Client_Expire :: "sysenv \<Rightarrow> string \<Rightarrow> int \<Rightarrow> Client \<Rightarrow> Engine \<Rightarrow> (bool \<times> client_error option) call" where
  "Client_Expire se key seconds c g = map_call flag_result (Do se ''EXPIRE'' [key, Itoa seconds] c g)"

definition Client_TTL :: "sysenv \<Rightarrow> string \<Rightarrow> Client \<Rightarrow> Engine \<Rightarrow> (int \<times> client_error option) call" where
  "Client_TTL se key c g = map_call int_result (Do se ''TTL'' [key] c g)"

definition Client_Persist :: "sysenv \<Rightarrow> string \<Rightarrow> Client \<Rightarrow> Engine \<Rightarrow> (bool \<times> client_error option) call" where
  "Client_Persist se key c g = map_call flag_result (Do se ''PERSIST'' [key] c g)"

definition Client_Type :: "sysenv \<Rightarrow> string \<Rightarrow> Client \<Rightarrow> Engine \<Rightarrow> (string \<times> client_error option) call" where
  "Client_Type se key c g =
     map_call (\<lambda>r. case r of Inl er \<Rightarrow> ('''', Some er) | Inr v \<Rightarrow> (Result_String v, Result_Err v))
       (Do se ''TYPE'' [key] c g)"

section \<open>Calls of a plain handler\<close>

definition engine_ok :: "Engine \<Rightarrow> bool" where
  "engine_ok g \<longleftrightarrow> length (DBs (mdb g)) = NumDatabases \<and> list_all db_wf (DBs (mdb g)) \<and> ps_inv (Broker (mdb g))"

definition client_ok :: "Client \<Rightarrow> bool" where
  "client_ok c \<longleftrightarrow> 0 \<le> client_index c \<and> client_index c < int NumDatabases"

lemma current:
  assumes "engine_ok g" and "client_ok c"
  obtains db where "currentDB c g = Some db" "db_wf db"
  using assms by (auto simp: engine_ok_def client_ok_def currentDB_def DB_def list_all_length)

lemma normalizeCmd_ToUpper: "list_all is_ascii cmd \<Longrightarrow> normalizeCmd cmd = ToUpper uni cmd"
  by (simp add: normalizeCmd_def ToUpper_def upper_char_def [abs_def])

definition put_db :: "Client \<Rightarrow> Database \<Rightarrow> Engine \<Rightarrow> Engine" where
  "put_db c db g = g\<lparr>mdb := set_DB (client_index c) db (mdb g)\<rparr>"

lemma Broker_set_DB: "Broker (set_DB i db m) = Broker m"
  by (simp add: set_DB_def)

lemma Do_Runs:
  assumes "currentDB c g = Some db" and "normalizeCmd cmd = nm" and "CommandHandlers nm = Some (Runs h)"
  shows "Do se cmd args c g = Returned (put_db c (fst (h (ev se) (map bulk args) db)) g) (Inr (snd (h (ev se) (map bulk args) db)))"
proof -
  have "nm \<notin> {''SAVE'', ''BGSAVE'', ''LASTSAVE''}"
    using assms(3) by (auto simp: CommandHandlers_def handler_table_def)
  moreover have "(set_DB i d m)\<lparr>Broker := Broker m\<rparr> = set_DB i d m" for i d m by (simp add: set_DB_def)
  ultimately show ?thesis
    using assms by (simp add: Do_def Let_def call_handler_def put_db_def case_prod_unfold)
qed

lemma currentDB_put_db:
  "client_ok c \<Longrightarrow> engine_ok g \<Longrightarrow> currentDB c' (put_db c db g) = (if client_index c' = client_index c then Some db else currentDB c' g)"
  by (simp add: currentDB_def put_db_def client_ok_def engine_ok_def DB_set_DB)

lemma engine_ok_put_db: "engine_ok g \<Longrightarrow> db_wf db \<Longrightarrow> engine_ok (put_db c db g)"
  by (auto simp: engine_ok_def put_db_def set_DB_def list_all_iff dest!: set_update_subset_insert [THEN subsetD])

text \<open>The commands behind the typed methods.\<close>

definition typed_commands :: "string list" where
  "typed_commands =
     [''SET'', ''GET'', ''DEL'', ''EXISTS'', ''INCR'', ''INCRBY'', ''DECR'', ''DECRBY'', ''LPUSH'', ''RPUSH'',
      ''LPOP'', ''RPOP'', ''LRANGE'', ''LLEN'', ''SADD'', ''SREM'', ''SMEMBERS'', ''SISMEMBER'', ''HSET'',
      ''HGET'', ''HGETALL'', ''HDEL'', ''EXPIRE'', ''TTL'', ''PERSIST'', ''TYPE'']"

lemma typed_upper: "cmd \<in> set typed_commands \<Longrightarrow> normalizeCmd cmd = cmd"
proof -
  have "list_all (\<lambda>cmd. normalizeCmd cmd = cmd) typed_commands" by code_simp
  then show "cmd \<in> set typed_commands \<Longrightarrow> normalizeCmd cmd = cmd" by (simp add: list_all_iff)
qed

lemma typed_handlers:
  "CommandHandlers ''SET'' = Some (Runs set_cmd)" "CommandHandlers ''GET'' = Some (Runs get)"
  "CommandHandlers ''DEL'' = Some (Runs del)" "CommandHandlers ''EXISTS'' = Some (Runs exists)"
  "CommandHandlers ''INCR'' = Some (Runs incr)" "CommandHandlers ''INCRBY'' = Some (Runs incrby)"
  "CommandHandlers ''DECR'' = Some (Runs decr)" "CommandHandlers ''DECRBY'' = Some (Runs decrby)"
  "CommandHandlers ''LPUSH'' = Some (Runs lpush)" "CommandHandlers ''RPUSH'' = Some (Runs rpush)"
  "CommandHandlers ''LPOP'' = Some (Runs lpop)" "CommandHandlers ''RPOP'' = Some (Runs rpop)"
  "CommandHandlers ''LRANGE'' = Some (Runs lrange)" "CommandHandlers ''LLEN'' = Some (Runs llen)"
  "CommandHandlers ''SADD'' = Some (Runs sadd)" "CommandHandlers ''SREM'' = Some (Runs srem)"
  "CommandHandlers ''SMEMBERS'' = Some (Runs smembers)" "CommandHandlers ''SISMEMBER'' = Some (Runs sismember)"
  "CommandHandlers ''HSET'' = Some (Runs hset)" "CommandHandlers ''HGET'' = Some (Runs hget)"
  "CommandHandlers ''HGETALL'' = Some (Runs hgetall)" "CommandHandlers ''HDEL'' = Some (Runs hdel)"
  "CommandHandlers ''EXPIRE'' = Some (Runs expire)" "CommandHandlers ''TTL'' = Some (Runs ttl)"
  "CommandHandlers ''PERSIST'' = Some (Runs persist)" "CommandHandlers ''TYPE'' = Some (Runs typeCmd)"
  by (simp_all add: CommandHandlers_def handler_table_def)

lemma typed_Runs: "cmd \<in> set typed_commands \<Longrightarrow> \<exists>h. CommandHandlers cmd = Some (Runs h)"
  unfolding typed_commands_def by (elim set_ConsD [THEN disjE]) (simp_all add: typed_handlers)

text \<open>A typed command always returns with a reply, and keeps the engine consistent.\<close>

lemma typed_returns:
  assumes "engine_ok g" and "client_ok c" and "fair (map_order (ev se))" and "cmd \<in> set typed_commands"
  obtains g' v where "Do se cmd args c g = Returned g' (Inr v)" "engine_ok g'"
proof -
  obtain db where db: "currentDB c g = Some db" "db_wf db" using current [OF assms(1,2)] .
  obtain h where h: "CommandHandlers cmd = Some (Runs h)" using typed_Runs [OF assms(4)] by blast
  have "command h" using h by (rule CommandHandlers_Runs)
  then have "db_wf (fst (h (ev se) (map bulk args) db))" using command.keeps_wf [OF _ assms(3) db(2)] by blast
  then show ?thesis
    using that Do_Runs [OF db(1) typed_upper [OF assms(4)] h] engine_ok_put_db [OF assms(1)] by blast
qed

section \<open>Unpacked results\<close>

lemmas result_simps =
  status_result_def int_result_def flag_result_def value_result_def strings_result_def map_result_def
  Result_Err_def IsNil_def Result_String_def Result_Int_def Result_Strings_def

lemma flat_loop_pairs:
  "flat_loop (concat (map (\<lambda>(f, v). [bulk f, bulk v]) ps)) m = fold (\<lambda>(f, v). fmupd f v) ps m"
  by (induction ps arbitrary: m) auto

section \<open>Properties of the embedded client\<close>



text \<open>
  What a client sets it gets.  \<open>Set\<close> returns without an error; afterwards \<open>Get\<close> through any client on the same
  logical database, and so through one made by \<open>NewFrom\<close>, returns the value, while every other key reads as before;
  the databases of clients that selected another index are untouched.
\<close>

lemma set_seen_by_clients:
  assumes "engine_ok g" and "client_ok c" and "client_ok c'"
  shows "\<exists>g1. Client_Set se k v c g = Returned g1 None \<and> engine_ok g1 \<and>
    (if client_index c' = client_index c
     then (\<exists>g2. Client_Get se' k c' g1 = Returned g2 (v, True, None)) \<and>
       (k' = k \<or> (\<exists>g2 g3 r. Client_Get se' k' c' g1 = Returned g2 r \<and> Client_Get se' k' c' g = Returned g3 r))
     else currentDB c' g1 = currentDB c' g)"
proof -
  obtain db where db: "currentDB c g = Some db" "db_wf db" using current [OF assms(1,2)] .
  let ?db = "fst (set_cmd (ev se) [bulk k, bulk v] db)"
  let ?g = "put_db c ?db g"
  have set: "Client_Set se k v c g = Returned ?g None"
    using Do_Runs [OF db(1) typed_upper typed_handlers(1), of se "[k, v]"]
    by (simp add: Client_Set_def typed_commands_def result_simps) (simp add: set_cmd_def)
  have ok: "engine_ok ?g"
    using engine_ok_put_db [OF assms(1)] db(2) by (simp add: set_cmd_def db_wf_def)
  have get: "Client_Get se' q c' h = Returned (put_db c' (fst (get (ev se') [bulk q] d)) h) (value_result (Inr (snd (get (ev se') [bulk q] d))))"
    if "currentDB c' h = Some d" for q h d
    using Do_Runs [OF that typed_upper typed_handlers(2), of se' "[q]"] by (simp add: Client_Get_def typed_commands_def)
  have cur: "currentDB c' ?g = (if client_index c' = client_index c then Some ?db else currentDB c' g)"
    by (rule currentDB_put_db [OF assms(2,1)])
  show ?thesis
  proof (cases "client_index c' = client_index c")
    case True
    then have "currentDB c' g = Some db" using db(1) by (simp add: currentDB_def)
    moreover have "currentDB c' ?g = Some ?db" using cur True by simp
    moreover have "snd (get (ev se') [bulk q] ?db) = (if q = k then bulk v else snd (get (ev se') [bulk q] db))" for q
      using set_then_get [of "ev se'" "bulk q" "bulk k" "bulk v" db] by (simp add: set_cmd_def)
    ultimately show ?thesis using set ok True get by (simp add: result_simps) blast
  next
    case False
    then show ?thesis using set ok cur by simp
  qed
qed

text \<open>
  The typed methods return what is stored.  An integer argument goes through text and comes out unchanged: \<open>IncrBy\<close> with any
  64-bit amount returns the sum wrapped to 64 bits, \<open>LRange\<close> the elements between any 64-bit bounds;
  \<open>HGetAll\<close> rebuilds exactly the stored hash from the flat reply, and \<open>SMembers\<close> lists the set without repetition;
  each without an error, and without a key as for an empty one.
\<close>

lemma typed_methods_return:
  assumes "currentDB c g = Some db" and "fair (map_order (ev se))" and "int64 d" and "int64 start" and "int64 stop"
    and "Atoi (case fmlookup (Store (live (now (ev se)) db)) k of None \<Rightarrow> ''0'' | Some v \<Rightarrow> v) = Inr x"
  shows "(\<exists>g'. Client_IncrBy se k d c g = Returned g' (wrap64 (x + d), None)) \<and>
    (\<exists>g'. Client_LRange se k start stop c g = Returned g' (LRange start stop (list_of (list_at (now (ev se)) k db)), None)) \<and>
    (\<exists>g'. Client_HGetAll se k c g = Returned g' (hash_of (hash_at (now (ev se)) k db), None)) \<and>
    (\<exists>g' ms. Client_SMembers se k c g = Returned g' (ms, None) \<and> distinct ms \<and> set ms = set_of (set_at (now (ev se)) k db))"
proof -
  let ?e = "ev se"
  have run: "Do se cmd args c g = Returned (put_db c (fst (h ?e (map bulk args) db)) g) (Inr (snd (h ?e (map bulk args) db)))"
    if "CommandHandlers cmd = Some (Runs h)" "cmd \<in> set typed_commands" for cmd args h
    using Do_Runs [OF assms(1) typed_upper [OF that(2)] that(1)] .
  have typed: "''INCRBY'' \<in> set typed_commands" "''LRANGE'' \<in> set typed_commands"
    "''HGETALL'' \<in> set typed_commands" "''SMEMBERS'' \<in> set typed_commands" by (simp_all add: typed_commands_def)
  have incr: "snd (incrby ?e [bulk k, bulk (Itoa d)] db) = integer (wrap64 (x + d))"
    using assms(3,6) by (simp add: incrby_def increment_def Let_def live_lookup_expireIfNeeded del: live_sel)
  have lr: "snd (lrange ?e [bulk k, bulk (Itoa start), bulk (Itoa stop)] db) =
      array (map bulk (LRange start stop (list_of (list_at (now ?e) k db))))"
    using assms(4,5)
    by (auto simp: lrange_def list_defs list_of_def LRange_eq_spec range_spec_def split: option.splits simp del: live_sel)
  have "range_map (map_order ?e) (fmempty :: string gomap) = []" by (simp add: range_map_def List.map_filter_def)
  then have hg: "snd (hgetall ?e [bulk k] db) =
      array (concat (map (\<lambda>(f, v). [bulk f, bulk v]) (range_map (map_order ?e) (hash_of (hash_at (now ?e) k db)))))"
    using assms(2)
    by (auto simp: hgetall_def container_simps live_lookup_expireIfNeeded hash_of_def HGetAll_eq
        split: option.splits simp del: live_sel)
  have "\<exists>ms. snd (smembers ?e [bulk k] db) = array (map bulk ms) \<and> distinct ms \<and> set ms = set_of (set_at (now ?e) k db)"
    using assms(2)
    by (auto simp: smembers_def container_simps live_lookup_expireIfNeeded set_of_def SMembers_def split: option.splits simp del: live_sel)
  then obtain ms where sm: "snd (smembers ?e [bulk k] db) = array (map bulk ms)" "distinct ms"
    "set ms = set_of (set_at (now ?e) k db)" by blast
  have map_Str: "map Str (map bulk xs) = xs" for xs by (simp add: o_def)
  show ?thesis
  proof (intro conjI)
    show "\<exists>g'. Client_IncrBy se k d c g = Returned g' (wrap64 (x + d), None)"
      using run [OF typed_handlers(6) typed(1), of "[k, Itoa d]"] incr by (simp add: Client_IncrBy_def result_simps)
    show "\<exists>g'. Client_LRange se k start stop c g = Returned g' (LRange start stop (list_of (list_at (now ?e) k db)), None)"
      using run [OF typed_handlers(13) typed(2), of "[k, Itoa start, Itoa stop]"] lr map_Str
      by (simp add: Client_LRange_def result_simps del: live_sel)
    show "\<exists>g'. Client_HGetAll se k c g = Returned g' (hash_of (hash_at (now ?e) k db), None)"
      using run [OF typed_handlers(21) typed(3), of "[k]"] hg
      by (simp add: Client_HGetAll_def result_simps flat_loop_pairs fold_fmupd_range_map [OF assms(2)] del: live_sel)
    show "\<exists>g' ms. Client_SMembers se k c g = Returned g' (ms, None) \<and> distinct ms \<and> set ms = set_of (set_at (now ?e) k db)"
      using run [OF typed_handlers(17) typed(4), of "[k]"] sm map_Str
      by (simp add: Client_SMembers_def result_simps del: live_sel)
  qed
qed



end
