(* ===== verification/Concurrency.thy ===== *)
theory Concurrency
  imports Handlers
begin

text \<open>
  List objects, below the grain of one handler per step.  \<open>db.Lists\<close> maps a key to a pointer, and a push or pop takes
  the map's lock and the list's lock one after the other.  Here the objects are in an explicit store, each
  critical section is a function, and the handlers are their compositions.
\<close>

section \<open>List objects\<close>

type_synonym addr = nat

record ListHeap =
  lists_map :: "(string, addr) fmap"
  objects :: "(addr, List) fmap"
  next_addr :: addr

definition obj :: "ListHeap \<Rightarrow> addr \<Rightarrow> List" where
  "obj h a = (case fmlookup (objects h) a of None \<Rightarrow> NewList | Some l \<Rightarrow> l)"

definition set_obj :: "addr \<Rightarrow> List \<Rightarrow> ListHeap \<Rightarrow> ListHeap" where
  "set_obj a l h = h\<lparr>objects := fmupd a l (objects h)\<rparr>"

text \<open>The critical sections: \<open>GetOrCreateList\<close> and \<open>GetList\<close> under \<open>db.Mu\<close>, the list methods under the list's own
  lock, and the removal of an emptied key under \<open>db.Mu\<close> again.\<close>

definition get_or_create :: "string \<Rightarrow> ListHeap \<Rightarrow> ListHeap \<times> addr" where
  "get_or_create key h =
     (case fmlookup (lists_map h) key of
        Some a \<Rightarrow> (h, a)
      | None \<Rightarrow>
          let a = next_addr h
          in (h\<lparr>lists_map := fmupd key a (lists_map h), objects := fmupd a NewList (objects h), next_addr := Suc a\<rparr>, a))"

definition get_list :: "string \<Rightarrow> ListHeap \<Rightarrow> addr option" where
  "get_list key h = fmlookup (lists_map h) key"

definition push_items :: "bool \<Rightarrow> string list \<Rightarrow> addr \<Rightarrow> ListHeap \<Rightarrow> ListHeap \<times> int" where
  "push_items left vs a h = (case (if left then LPush vs (obj h a) else RPush vs (obj h a)) of (l, n) \<Rightarrow> (set_obj a l h, n))"

definition pop_item :: "bool \<Rightarrow> addr \<Rightarrow> ListHeap \<Rightarrow> ListHeap \<times> string option" where
  "pop_item left a h = (case (if left then LPop (obj h a) else RPop (obj h a)) of (l, v) \<Rightarrow> (set_obj a l h, v))"

definition delete_key :: "string \<Rightarrow> ListHeap \<Rightarrow> ListHeap" where
  "delete_key key h = h\<lparr>lists_map := fmdrop key (lists_map h)\<rparr>"

text \<open>\<open>lpush\<close> and \<open>rpush\<close>, \<open>lpop\<close> and \<open>rpop\<close> without interruption (arguments checked, no expiry time).\<close>

definition push_objects :: "bool \<Rightarrow> string \<Rightarrow> string list \<Rightarrow> ListHeap \<Rightarrow> ListHeap \<times> int" where
  "push_objects left key vs h = (case get_or_create key h of (h, a) \<Rightarrow> push_items left vs a h)"

definition pop_objects :: "bool \<Rightarrow> string \<Rightarrow> ListHeap \<Rightarrow> ListHeap \<times> string option" where
  "pop_objects left key h =
     (case get_list key h of
        None \<Rightarrow> (h, None)
      | Some a \<Rightarrow>
          (case pop_item left a h of
             (h, None) \<Rightarrow> (h, None)
           | (h, Some v) \<Rightarrow> (if LLen (obj h a) = 0 then delete_key key h else h, Some v)))"

text \<open>What the store means, and when it is sound: no two keys share an object, and a fresh address is unused.\<close>

definition view_lists :: "ListHeap \<Rightarrow> (string, List) fmap" where
  "view_lists h = fmmap (obj h) (lists_map h)"

definition heap_ok :: "ListHeap \<Rightarrow> bool" where
  "heap_ok h \<longleftrightarrow>
     (\<forall>k k' a. fmlookup (lists_map h) k = Some a \<longrightarrow> fmlookup (lists_map h) k' = Some a \<longrightarrow> k = k') \<and>
     (\<forall>k a. fmlookup (lists_map h) k = Some a \<longrightarrow> a < next_addr h)"

lemma obj_set_obj: "obj (set_obj a l h) b = (if b = a then l else obj h b)"
  by (simp add: obj_def set_obj_def)

lemma lists_map_set_obj [simp]: "lists_map (set_obj a l h) = lists_map h" "next_addr (set_obj a l h) = next_addr h"
  by (simp_all add: set_obj_def)

lemma view_set_obj:
  assumes "heap_ok h" and "fmlookup (lists_map h) key = Some a"
  shows "view_lists (set_obj a l h) = fmupd key l (view_lists h)"
proof (rule fmap_ext)
  fix k
  show "fmlookup (view_lists (set_obj a l h)) k = fmlookup (fmupd key l (view_lists h)) k"
    using assms by (cases "fmlookup (lists_map h) k") (auto simp: view_lists_def obj_set_obj heap_ok_def)
qed

lemma heap_ok_set_obj: "heap_ok h \<Longrightarrow> heap_ok (set_obj a l h)"
  by (simp add: heap_ok_def)

lemma get_or_create_ok:
  assumes "heap_ok h" and "get_or_create key h = (h', a)"
  shows "heap_ok h'" and "fmlookup (lists_map h') key = Some a"
    and "view_lists h' = fmupd key (list_of (fmlookup (view_lists h) key)) (view_lists h)"
    and "obj h' a = list_of (fmlookup (view_lists h) key)"
proof -
  show "heap_ok h'" "fmlookup (lists_map h') key = Some a"
    using assms by (auto simp: get_or_create_def heap_ok_def Let_def less_Suc_eq split: option.splits if_splits; fastforce)+
  show o: "obj h' a = list_of (fmlookup (view_lists h) key)"
    using assms by (auto simp: get_or_create_def Let_def view_lists_def list_of_def obj_def NewList_def split: option.splits)
  show "view_lists h' = fmupd key (list_of (fmlookup (view_lists h) key)) (view_lists h)"
  proof (rule fmap_ext)
    fix k
    have "obj h' b = obj h b" if "fmlookup (lists_map h) k = Some b" for b
    proof -
      have "b \<noteq> next_addr h" using assms(1) that by (fastforce simp: heap_ok_def)
      then show ?thesis using assms(2) by (auto simp: get_or_create_def Let_def obj_def split: option.splits)
    qed
    moreover have "fmlookup (lists_map h') k = (if k = key then Some a else fmlookup (lists_map h) k)"
      using assms(2) by (auto simp: get_or_create_def Let_def split: option.splits)
    ultimately show "fmlookup (view_lists h') k = fmlookup (fmupd key (list_of (fmlookup (view_lists h) key)) (view_lists h)) k"
      using o by (cases "fmlookup (lists_map h) k") (simp_all add: view_lists_def)
  qed
qed

lemma push_objects_view:
  assumes "heap_ok h"
  shows "view_lists (fst (push_objects left key vs h)) =
      fmupd key (fst (if left then LPush vs (list_of (fmlookup (view_lists h) key)) else RPush vs (list_of (fmlookup (view_lists h) key)))) (view_lists h)"
    and "snd (push_objects left key vs h) =
      snd (if left then LPush vs (list_of (fmlookup (view_lists h) key)) else RPush vs (list_of (fmlookup (view_lists h) key)))"
    and "heap_ok (fst (push_objects left key vs h))"
proof -
  obtain h' a where g: "get_or_create key h = (h', a)" by force
  note ok = get_or_create_ok [OF assms g]
  show "view_lists (fst (push_objects left key vs h)) =
      fmupd key (fst (if left then LPush vs (list_of (fmlookup (view_lists h) key)) else RPush vs (list_of (fmlookup (view_lists h) key)))) (view_lists h)"
    using view_set_obj [OF ok(1,2)] ok(3,4)
    by (auto simp: push_objects_def g push_items_def split: prod.splits intro!: fmap_ext)
  show "snd (push_objects left key vs h) =
      snd (if left then LPush vs (list_of (fmlookup (view_lists h) key)) else RPush vs (list_of (fmlookup (view_lists h) key)))"
    using ok(4) by (auto simp: push_objects_def g push_items_def split: prod.splits)
  show "heap_ok (fst (push_objects left key vs h))"
    using heap_ok_set_obj [OF ok(1)] by (auto simp: push_objects_def g push_items_def split: prod.splits)
qed

lemma pop_objects_view:
  assumes "heap_ok h"
  shows "pop_objects left key h =
    (case fmlookup (lists_map h) key of
       None \<Rightarrow> (h, None)
     | Some a \<Rightarrow>
         (case (if left then LPop (obj h a) else RPop (obj h a)) of
            (l, None) \<Rightarrow> (set_obj a l h, None)
          | (l, Some v) \<Rightarrow> (if l = [] then delete_key key (set_obj a l h) else set_obj a l h, Some v)))"
  by (auto simp: pop_objects_def get_list_def pop_item_def LLen_def obj_set_obj split: option.splits prod.splits)

lemma view_delete_key: "view_lists (delete_key key h) = fmdrop key (view_lists h)"
  by (rule fmap_ext) (simp add: view_lists_def delete_key_def obj_def [abs_def])

lemma heap_ok_delete_key: "heap_ok h \<Longrightarrow> heap_ok (delete_key key h)"
  by (auto simp: heap_ok_def delete_key_def split: if_splits)

section \<open>Uninterrupted handlers implement the model\<close>

text \<open>
  C30.  On list objects in a store, a push or pop that is not interrupted does to the lists of a database what the handler of
  the coarser model does, with the same reply, and keeps the store sound.  (The database has well-formed lists
  and no expiry times.)
\<close>

theorem list_objects_refine:
  assumes "heap_ok h" and "view_lists h = Lists db" and "Expires db = fmempty" and "db_wf db" and "vs \<noteq> []"
  shows "(let (h', n) = push_objects left k vs h; (db', r) = (if left then lpush else rpush) e (map bulk (k # vs)) db
     in view_lists h' = Lists db' \<and> r = integer n \<and> heap_ok h') \<and>
    (let (h', v) = pop_objects left k h; (db', r) = (if left then lpop else rpop) e [bulk k] db
     in view_lists h' = Lists db' \<and> r = (case v of None \<Rightarrow> null | Some v \<Rightarrow> bulk v) \<and> heap_ok h')"
proof
  have exp: "expireIfNeeded t q db = db" for t q using assms(3) by simp
  have at: "list_at t q db = fmlookup (view_lists h) q" for t q using assms(2,3) by (simp add: expired_def)
  note push = push_objects_view [OF assms(1), of left k vs]
  show "let (h', n) = push_objects left k vs h; (db', r) = (if left then lpush else rpush) e (map bulk (k # vs)) db
     in view_lists h' = Lists db' \<and> r = integer n \<and> heap_ok h'"
    using push assms(2,5) exp
    by (auto simp: lpush_def rpush_def list_defs o_def list_of_def Suc_le_eq NewList_def split: option.splits)
  show "let (h', v) = pop_objects left k h; (db', r) = (if left then lpop else rpop) e [bulk k] db
     in view_lists h' = Lists db' \<and> r = (case v of None \<Rightarrow> null | Some v \<Rightarrow> bulk v) \<and> heap_ok h'"
  proof (cases "fmlookup (lists_map h) k")
    case None
    then have "fmlookup (Lists db) k = None" using assms(2) [symmetric] by (simp add: view_lists_def)
    then show ?thesis
      using None assms(1,2) exp by (simp add: pop_objects_view [OF assms(1)] lpop_def rpop_def list_defs)
  next
    case (Some a)
    then have l: "fmlookup (Lists db) k = Some (obj h a)" using assms(2) [symmetric] by (simp add: view_lists_def)
    then have "obj h a \<noteq> []" using assms(4) by (auto simp: db_wf_def dest: fmpredD)
    moreover obtain l v where pop: "(if left then LPop (obj h a) else RPop (obj h a)) = (l, v)" by force
    ultimately obtain w where w: "v = Some w"
      by (cases left) (auto simp: LPop_def RPop_def split: list.splits if_splits)
    have r: "pop_objects left k h = (if l = [] then delete_key k (set_obj a l h) else set_obj a l h, Some w)"
      using Some pop w by (simp add: pop_objects_view [OF assms(1)])
    have d: "(if left then lpop else rpop) e [bulk k] db =
        (if l = [] then drop_list k (put_list k l db) else put_list k l db, bulk w)"
      using l pop w exp by (cases left) (simp_all add: lpop_def rpop_def list_defs LLen_def)
    show ?thesis
      unfolding r d using view_set_obj [OF assms(1) Some] heap_ok_set_obj [OF assms(1)] assms(2)
      by (simp add: view_delete_key heap_ok_delete_key)
  qed
qed

theorem list_objects_refine_witness:
  "let h = \<lparr>lists_map = fmempty, objects = fmempty, next_addr = 0\<rparr>; (h', n) = push_objects False ''q'' [''a'', ''b''] h
   in n = 2 \<and> fmlookup (view_lists h') ''q'' = Some [''a'', ''b'']"
proof -
  let ?h = "\<lparr>lists_map = fmempty, objects = fmempty, next_addr = 0\<rparr> :: ListHeap"
  have h: "heap_ok ?h" "view_lists ?h = Lists newDatabase" "Expires newDatabase = fmempty"
    by (simp_all add: heap_ok_def view_lists_def newDatabase_def)
  have "rpush (env_at 0) (map bulk [''q'', ''a'', ''b'']) newDatabase =
      (newDatabase\<lparr>Lists := fmupd ''q'' [''a'', ''b''] fmempty\<rparr>, integer 2)"
    by (simp add: rpush_def list_defs RPush_def NewList_def newDatabase_def)
  then show ?thesis
    using list_objects_refine [OF h db_wf_newDatabase, of "[''a'', ''b'']" False "''q''" "env_at 0"]
    by (simp add: case_prod_unfold Let_def)
qed

section \<open>An interrupted push\<close>

text \<open>
  C19.  A push can be lost.  Between the two critical sections of an \<open>RPUSH\<close>, finding the list and appending to it, another
  client pops the last element: the emptied list is taken out of the map, and the push appends to an object that
  no key refers to.  The push replies with length 1, and the key does not exist; in either
  order without interruption it would hold the pushed value.
\<close>

theorem push_lost_to_pop:
  assumes "heap_ok h" and "fmlookup (lists_map h) k = Some a" and "obj h a = [x]"
  shows "(let (h1, a1) = get_or_create k h; (h2, r) = pop_objects True k h1; (h3, n) = push_items False [v] a1 h2
     in r = Some x \<and> n = 1 \<and> fmlookup (view_lists h3) k = None) \<and>
    fmlookup (view_lists (fst (push_objects False k [v] (fst (pop_objects True k h))))) k = Some [v] \<and>
    fmlookup (view_lists (fst (pop_objects True k (fst (push_objects False k [v] h))))) k = Some [v]"
proof (intro conjI)
  have pop: "pop_objects True k h = (delete_key k (set_obj a [] h), Some x)"
    using assms(2,3) by (simp add: pop_objects_view [OF assms(1)] LPop_def)
  have get: "get_or_create k h = (h, a)" using assms(2) by (simp add: get_or_create_def)
  show "let (h1, a1) = get_or_create k h; (h2, r) = pop_objects True k h1; (h3, n) = push_items False [v] a1 h2
     in r = Some x \<and> n = 1 \<and> fmlookup (view_lists h3) k = None"
    by (simp add: get pop push_items_def RPush_def obj_def set_obj_def delete_key_def view_lists_def)
  have ok: "heap_ok (fst (pop_objects True k h))" using assms(1) by (simp add: pop heap_ok_delete_key heap_ok_set_obj)
  have "fmlookup (view_lists (fst (pop_objects True k h))) k = None" by (simp add: pop view_delete_key)
  then show "fmlookup (view_lists (fst (push_objects False k [v] (fst (pop_objects True k h))))) k = Some [v]"
    by (simp add: push_objects_view(1) [OF ok] RPush_def list_of_def)
  let ?h = "fst (push_objects False k [v] h)"
  have h: "?h = set_obj a [x, v] h" using assms(3) by (simp add: push_objects_def get push_items_def RPush_def)
  then have "pop_objects True k ?h = (set_obj a [v] ?h, Some x)"
    using assms(2) push_objects_view(3) [OF assms(1), of False k "[v]"]
    by (simp add: pop_objects_view heap_ok_set_obj [OF assms(1)] obj_set_obj LPop_def)
  then show "fmlookup (view_lists (fst (pop_objects True k ?h))) k = Some [v]"
    using assms(2) by (simp add: h view_lists_def obj_set_obj)
qed

theorem push_lost_to_pop_witness:
  "let h = \<lparr>lists_map = fmupd ''q'' 0 fmempty, objects = fmupd 0 [''old''] fmempty, next_addr = 1\<rparr>;
       (h1, a1) = get_or_create ''q'' h; (h2, r) = pop_objects True ''q'' h1; (h3, n) = push_items False [''new''] a1 h2
   in n = 1 \<and> fmlookup (view_lists h3) ''q'' = None"
  using push_lost_to_pop [of "\<lparr>lists_map = fmupd ''q'' 0 fmempty, objects = fmupd 0 [''old''] fmempty, next_addr = 1\<rparr>"
      "''q''" 0 "''old''" "''new''"]
  by (simp add: heap_ok_def obj_def case_prod_unfold Let_def)

end
