(* ===== verification/Blocking.thy ===== *)
theory Blocking
  imports Handlers
begin

text \<open>
  The condition variable behind \<open>BLPOP\<close> and \<open>BRPOP\<close> (pkg/commands/database.go, \<open>waitForListSignal\<close> and \<open>signalListPush\<close>)
  as a state machine of one database, its blocked poppers and the broadcasts still to come.  A popper
  looks at its lists (\<open>Looking\<close>), and when it has found nothing goes to park (\<open>Parking\<close>) without
  holding \<open>listMu\<close> in between; a push changes the list first and broadcasts later.  \<open>may_push\<close> says whether clients still push.
\<close>

section \<open>Steps\<close>

datatype pc = Looking | Parking | Asleep | Served Value

record Popper =
  pop_left :: bool
  pop_keys :: "string list"
  pop_deadline :: "int option"
  pop_pc :: pc

record Waitroom =
  wr_db :: Database
  wr_clock :: int
  wr_poppers :: "(nat, Popper) fmap"
  wr_signals :: nat

definition wake_all :: "(nat, Popper) fmap \<Rightarrow> (nat, Popper) fmap" where
  "wake_all ps = fmmap (\<lambda>p. if pop_pc p = Asleep then p\<lparr>pop_pc := Looking\<rparr> else p) ps"

definition set_pc :: "nat \<Rightarrow> Popper \<Rightarrow> pc \<Rightarrow> Waitroom \<Rightarrow> Waitroom" where
  "set_pc i p s W = W\<lparr>wr_poppers := fmupd i (p\<lparr>pop_pc := s\<rparr>) (wr_poppers W)\<rparr>"

text \<open>The guard of \<open>waitForListSignal\<close>: with a deadline that is over it returns at once.\<close>

definition sleeps :: "int \<Rightarrow> int option \<Rightarrow> bool" where
  "sleeps t dl \<longleftrightarrow> (case dl of None \<Rightarrow> True | Some d \<Rightarrow> 0 < d - t)"

inductive wait_step :: "bool \<Rightarrow> Waitroom \<Rightarrow> Waitroom \<Rightarrow> bool" for may_push where
  Serve: "fmlookup (wr_poppers W) i = Some p \<Longrightarrow> pop_pc p = Looking \<Longrightarrow>
    block_iter (pop_left p) (wr_clock W) (pop_keys p) (pop_deadline p) (wr_db W) = Replied db' v \<Longrightarrow>
    wait_step may_push W ((set_pc i p (Served v) W)\<lparr>wr_db := db'\<rparr>)"
| Miss: "fmlookup (wr_poppers W) i = Some p \<Longrightarrow> pop_pc p = Looking \<Longrightarrow>
    block_iter (pop_left p) (wr_clock W) (pop_keys p) (pop_deadline p) (wr_db W) = Parked db' dl \<Longrightarrow>
    wait_step may_push W ((set_pc i p Parking W)\<lparr>wr_db := db'\<rparr>)"
| Sleep: "fmlookup (wr_poppers W) i = Some p \<Longrightarrow> pop_pc p = Parking \<Longrightarrow> sleeps (wr_clock W) (pop_deadline p) \<Longrightarrow>
    wait_step may_push W (set_pc i p Asleep W)"
| NoSleep: "fmlookup (wr_poppers W) i = Some p \<Longrightarrow> pop_pc p = Parking \<Longrightarrow> \<not> sleeps (wr_clock W) (pop_deadline p) \<Longrightarrow>
    wait_step may_push W (set_pc i p Looking W)"
| Push: "may_push \<Longrightarrow> h \<in> {lpush, rpush} \<Longrightarrow> now e = wr_clock W \<Longrightarrow> vs \<noteq> [] \<Longrightarrow>
    wait_step may_push W (W\<lparr>wr_db := fst (h e (map bulk (k # vs)) (wr_db W)), wr_signals := Suc (wr_signals W)\<rparr>)"
| Broadcast: "wr_signals W = Suc n \<Longrightarrow>
    wait_step may_push W (W\<lparr>wr_poppers := wake_all (wr_poppers W), wr_signals := n\<rparr>)"
| Timer: "fmlookup (wr_poppers W) i = Some p \<Longrightarrow> pop_pc p = Asleep \<Longrightarrow> pop_deadline p = Some d \<Longrightarrow> d \<le> wr_clock W \<Longrightarrow>
    wait_step may_push W (W\<lparr>wr_poppers := wake_all (wr_poppers W)\<rparr>)"
| Clock: "wr_clock W \<le> t \<Longrightarrow> wait_step may_push W (W\<lparr>wr_clock := t\<rparr>)"

lemma lookup_wake_all:
  "fmlookup (wake_all ps) i = map_option (\<lambda>p. if pop_pc p = Asleep then p\<lparr>pop_pc := Looking\<rparr> else p) (fmlookup ps i)"
  by (simp add: wake_all_def)

section \<open>A sleeper is woken by a push\<close>

lemma list_at_push:
  assumes "h \<in> {lpush, rpush}" and "vs \<noteq> []" and "db_wf db"
  shows "list_at (now e) k (fst (h e (map bulk (k # vs)) db)) \<noteq> None" and "db_wf (fst (h e (map bulk (k # vs)) db))"
  using assms by (auto simp: push_eq Let_def db_inv)

text \<open>Once its time is over a popper has at most three steps to its reply, from whatever point it is at.\<close>

lemma looking_over:
  assumes "fmlookup (wr_poppers W) i = Some p" and "pop_deadline p = Some d" and "d < wr_clock W" and "pop_pc p = Looking"
  shows "\<exists>W' v. wait_step mp W W' \<and> fmlookup (wr_poppers W') i = Some (p\<lparr>pop_pc := Served v\<rparr>)"
proof -
  obtain db' v where "block_iter (pop_left p) (wr_clock W) (pop_keys p) (pop_deadline p) (wr_db W) = Replied db' v"
    using block_iter_deadline [OF assms(3)] assms(2) by metis
  from wait_step.Serve [OF assms(1,4) this] show ?thesis
    by (intro exI conjI) (assumption, simp add: set_pc_def)
qed

lemma asleep_over:
  assumes "fmlookup (wr_poppers W) i = Some p" and "pop_deadline p = Some d" and "d < wr_clock W" and "pop_pc p = Asleep"
  shows "\<exists>W'. wait_step mp W W' \<and> fmlookup (wr_poppers W') i = Some (p\<lparr>pop_pc := Looking\<rparr>) \<and> wr_clock W' = wr_clock W"
proof -
  have "d \<le> wr_clock W" using assms(3) by simp
  from wait_step.Timer [OF assms(1,4,2) this] show ?thesis
    using assms(1,4) by (intro exI conjI) (assumption, simp_all add: lookup_wake_all)
qed

lemma parking_over:
  assumes "fmlookup (wr_poppers W) i = Some p" and "pop_deadline p = Some d" and "d < wr_clock W" and "pop_pc p = Parking"
  shows "\<exists>W'. wait_step mp W W' \<and> fmlookup (wr_poppers W') i = Some (p\<lparr>pop_pc := Looking\<rparr>) \<and> wr_clock W' = wr_clock W"
proof -
  have "\<not> sleeps (wr_clock W) (pop_deadline p)" using assms(2,3) by (simp add: sleeps_def)
  from wait_step.NoSleep [OF assms(1,4) this] show ?thesis
    by (intro exI conjI) (assumption, simp_all add: set_pc_def)
qed

section \<open>Without pushes and deadlines nobody wakes up\<close>

definition stranded :: "nat \<Rightarrow> Waitroom \<Rightarrow> bool" where
  "stranded i W \<longleftrightarrow> (\<exists>p. fmlookup (wr_poppers W) i = Some p \<and> pop_pc p = Asleep) \<and>
     fmpred (\<lambda>_ p. pop_deadline p = None) (wr_poppers W) \<and> wr_signals W = 0"

lemma stranded_set_pc:
  assumes "stranded i W" and "fmlookup (wr_poppers W) j = Some p" and "pop_pc p \<noteq> Asleep"
  shows "stranded i ((set_pc j p s W)\<lparr>wr_db := db\<rparr>)" and "stranded i (set_pc j p s W)"
  using assms by (auto simp: stranded_def set_pc_def fmpred_iff)

lemma stranded_step: "wait_step False W W' \<Longrightarrow> stranded i W \<Longrightarrow> stranded i W'"
proof (induction rule: wait_step.induct)
  case (Timer W j p d)
  then show ?case by (auto simp: stranded_def dest: fmpredD)
next
  case (Clock W t)
  then show ?case by (simp add: stranded_def)
next
  case (Broadcast W n)
  then show ?case by (simp add: stranded_def)
qed (auto intro: stranded_set_pc)

lemma stranded_forever: "(wait_step False)\<^sup>*\<^sup>* W W' \<Longrightarrow> stranded i W \<Longrightarrow> stranded i W'"
  by (induction rule: rtranclp_induct) (auto intro: stranded_step)

section \<open>Properties of the waiting\<close>


definition popper0 :: "pc \<Rightarrow> Popper" where
  "popper0 s = \<lparr>pop_left = True, pop_keys = [''q''], pop_deadline = None, pop_pc = s\<rparr>"

definition room0 :: "pc \<Rightarrow> Waitroom" where
  "room0 s = \<lparr>wr_db = newDatabase, wr_clock = 0, wr_poppers = fmupd 0 (popper0 s) fmempty, wr_signals = 0\<rparr>"


text \<open>
  C24.  A deadline is kept.  A blocking pop whose deadline is over can reply in at most two steps of its own and its timer, whatever
  it is doing (looking, going to park, or asleep), and whether or not anybody pushes.
\<close>

theorem deadline_served:
  assumes "fmlookup (wr_poppers W) i = Some p" and "pop_deadline p = Some d" and "d < wr_clock W"
    and "pop_pc p \<in> {Looking, Parking, Asleep}"
  shows "\<exists>W1 W2 v. (W1 = W \<or> wait_step may_push W W1) \<and> wait_step may_push W1 W2 \<and>
    fmlookup (wr_poppers W2) i = Some (p\<lparr>pop_pc := Served v\<rparr>)"
proof (cases "pop_pc p = Looking")
  case True
  then show ?thesis using looking_over [OF assms(1-3)] by blast
next
  case False
  then obtain W1 where W1: "wait_step may_push W W1" "fmlookup (wr_poppers W1) i = Some (p\<lparr>pop_pc := Looking\<rparr>)"
    "wr_clock W1 = wr_clock W"
    using assms(4) asleep_over [OF assms(1-3)] parking_over [OF assms(1-3)] by blast
  then show ?thesis
    using looking_over [OF W1(2), of d may_push] assms(2,3) by auto
qed

theorem deadline_served_witness:
  "\<exists>W1 W2 v. wait_step False W1 W2 \<and> fmlookup (wr_poppers W2) 0 = Some ((popper0 (Served v))\<lparr>pop_deadline := Some 5\<rparr>)"
proof -
  let ?W = "(room0 Asleep)\<lparr>wr_clock := 9, wr_poppers := fmupd 0 ((popper0 Asleep)\<lparr>pop_deadline := Some 5\<rparr>) fmempty\<rparr>"
  have "(popper0 Asleep)\<lparr>pop_deadline := Some 5, pop_pc := s\<rparr> = (popper0 s)\<lparr>pop_deadline := Some 5\<rparr>" for s
    by (simp add: popper0_def)
  then show ?thesis
    using deadline_served [of ?W 0 "(popper0 Asleep)\<lparr>pop_deadline := Some 5\<rparr>" 5 False]
    by (simp add: popper0_def) blast
qed

text \<open>
  C27.  A wake-up can be lost.  A pop without deadline looks at its empty list; before it parks, a client pushes and broadcasts, and
  there is nobody to wake; then it parks.  From that state on, as long as nobody pushes again, it sleeps
  forever, although the list of its key has an element.
\<close>

theorem wakeup_lost:
  "\<exists>W. (wait_step True)\<^sup>*\<^sup>* (room0 Looking) W \<and> list_at (wr_clock W) ''q'' (wr_db W) = Some [''a''] \<and>
     {W'. (wait_step False)\<^sup>*\<^sup>* W W'} \<subseteq> {W'. \<exists>p. fmlookup (wr_poppers W') 0 = Some p \<and> pop_pc p = Asleep}"
proof -
  have set_pc: "set_pc 0 (popper0 s) t (room0 s) = room0 t" for s t by (simp add: set_pc_def room0_def popper0_def)
  have sel: "fmlookup (wr_poppers (room0 s)) 0 = Some (popper0 s)" "pop_pc (popper0 s) = s" "wr_db (room0 s) = newDatabase"
    "pop_deadline (popper0 s) = None" for s
    by (simp_all add: room0_def popper0_def)
  have miss: "block_iter (pop_left (popper0 Looking)) (wr_clock (room0 Looking)) (pop_keys (popper0 Looking))
      (pop_deadline (popper0 Looking)) (wr_db (room0 Looking)) = Parked newDatabase None"
    by (simp add: block_iter_def popper0_def room0_def newDatabase_def lists.look)
  have 1: "wait_step True (room0 Looking) (room0 Parking)"
    using wait_step.Miss [OF sel(1,2) miss, of True] by (simp add: set_pc) (simp add: room0_def)
  let ?db = "fst (rpush (env_at 0) (map bulk [''q'', ''a'']) newDatabase)"
  let ?W2 = "(room0 Parking)\<lparr>wr_db := ?db, wr_signals := 1\<rparr>"
  have 2: "wait_step True (room0 Parking) ?W2"
    using wait_step.Push [of True rpush "env_at 0" "room0 Parking" "[''a'']" "''q''"] by (simp add: room0_def)
  have "wake_all (wr_poppers (room0 Parking)) = wr_poppers (room0 Parking)"
    by (rule fmap_ext) (simp add: lookup_wake_all room0_def popper0_def)
  then have 3: "wait_step True ?W2 ((room0 Parking)\<lparr>wr_db := ?db\<rparr>)"
    using wait_step.Broadcast [of ?W2 0 True] by (simp add: room0_def)
  have 4: "wait_step True ((room0 Parking)\<lparr>wr_db := ?db\<rparr>) ((room0 Asleep)\<lparr>wr_db := ?db\<rparr>)"
    using wait_step.Sleep [of "(room0 Parking)\<lparr>wr_db := ?db\<rparr>" 0 "popper0 Parking" True]
    by (simp add: sleeps_def set_pc_def room0_def popper0_def)
  have "(wait_step True)\<^sup>*\<^sup>* (room0 Looking) ((room0 Asleep)\<lparr>wr_db := ?db\<rparr>)"
    using 1 2 3 4 by (meson converse_rtranclp_into_rtranclp rtranclp.rtrancl_refl)
  moreover have "list_at 0 ''q'' ?db = Some [''a'']"
    by (simp add: push_eq Let_def list_of_def newDatabase_def expired_def)
  moreover have "stranded 0 ((room0 Asleep)\<lparr>wr_db := ?db\<rparr>)"
    by (auto simp: stranded_def room0_def popper0_def)
  then have "\<exists>p. fmlookup (wr_poppers W') 0 = Some p \<and> pop_pc p = Asleep"
    if "(wait_step False)\<^sup>*\<^sup>* ((room0 Asleep)\<lparr>wr_db := ?db\<rparr>) W'" for W'
    using stranded_forever [OF that] by (simp add: stranded_def)
  ultimately show ?thesis by (intro exI [of _ "(room0 Asleep)\<lparr>wr_db := ?db\<rparr>"]) (auto simp: room0_def)
qed

end
