(* ===== verification/CommandTable.thy ===== *)
theory CommandTable
  imports Handlers
begin

text \<open>
  What \<open>COMMAND INFO\<close> and \<open>COMMAND GETKEYS\<close> promise of a command (pkg/commands/admin_commands.go), and
  that the handlers of the dispatch table keep it: a command not described as \<open>write\<close> changes nothing a client
  can see, and every other command leaves alone each key that \<open>GETKEYS\<close> does not name.  The two promises
  are locales, interpreted for each handler.
\<close>

section \<open>The part of a database that belongs to a key\<close>

definition entry where
  "entry k db = (fmlookup (Store db) k, fmlookup (Lists db) k, fmlookup (Sets db) k, fmlookup (Hashes db) k,
     fmlookup (Expires db) k)"

lemma entry_live: "entry k d = entry k d' \<Longrightarrow> entry k (live t d) = entry k (live t d')"
  by (simp add: entry_def expired_def split: option.splits)

lemma entry_expireIfNeeded [simp]: "k \<noteq> k' \<Longrightarrow> entry k (expireIfNeeded t k' db) = entry k db"
  by (simp add: entry_def expireIfNeeded_eq)

lemma entry_evict [simp]: "k \<noteq> k' \<Longrightarrow> entry k (evict k' db) = entry k db"
  by (simp add: entry_def)

lemma entry_upd [simp]:
  "fmlookup m1 k = fmlookup (Store d) k \<Longrightarrow> entry k (d\<lparr>Store := m1\<rparr>) = entry k d"
  "fmlookup m2 k = fmlookup (Lists d) k \<Longrightarrow> entry k (d\<lparr>Lists := m2\<rparr>) = entry k d"
  "fmlookup m3 k = fmlookup (Sets d) k \<Longrightarrow> entry k (d\<lparr>Sets := m3\<rparr>) = entry k d"
  "fmlookup m4 k = fmlookup (Hashes d) k \<Longrightarrow> entry k (d\<lparr>Hashes := m4\<rparr>) = entry k d"
  "fmlookup m5 k = fmlookup (Expires d) k \<Longrightarrow> entry k (d\<lparr>Expires := m5\<rparr>) = entry k d"
  by (simp_all add: entry_def)

section \<open>The two promises\<close>

locale reading_command = command h for h +
  assumes reads: "live (now e) (fst (h e args db)) = live (now e) db"

locale writing_command = command h for h +
  fixes keys :: "Value list \<Rightarrow> string set"
  assumes frame: "k \<notin> keys args \<Longrightarrow> entry k (fst (h e args db)) = entry k db"
begin

lemma visible_frame: "k \<notin> keys args \<Longrightarrow> entry k (live t (fst (h e args db))) = entry k (live t db)"
  by (rule entry_live) (rule frame)

end

text \<open>The four ways in which a command names its keys.\<close>

definition first_key :: "Value list \<Rightarrow> string set" where
  "first_key args = set (map Str (take 1 args))"

definition all_keys :: "Value list \<Rightarrow> string set" where
  "all_keys args = set (map Str args)"

definition but_last_keys :: "Value list \<Rightarrow> string set" where
  "but_last_keys args = set (map Str (butlast args))"

fun pair_keys :: "Value list \<Rightarrow> string set" where
  "pair_keys (k # v # args) = insert (Str k) (pair_keys args)"
| "pair_keys args = set (map Str args)"

lemma not_first_key:
  assumes "k \<notin> first_key args"
  shows "length args = Suc 0 \<Longrightarrow> k \<noteq> Str (args ! 0)" "length args = 2 \<Longrightarrow> k \<noteq> Str (args ! 0)"
    "length args = 3 \<Longrightarrow> k \<noteq> Str (args ! 0)" "2 \<le> length args \<Longrightarrow> k \<noteq> Str (args ! 0)"
    "3 \<le> length args \<Longrightarrow> k \<noteq> Str (args ! 0)"
  using assms by (cases args; auto simp: first_key_def)+

lemmas first_key_nth = not_first_key not_first_key [symmetric]

lemma first_key_Cons [simp]: "first_key (a # args) = {Str a}" "first_key [] = {}"
  by (simp_all add: first_key_def)

section \<open>Reading commands\<close>

interpretation command_reads: reading_command command_cmd
  by unfold_locales simp

interpretation ping_reads: reading_command ping
  by unfold_locales (simp add: ping_def)

interpretation get_reads: reading_command get
  by unfold_locales (auto simp: get_def Let_def split: option.splits)

interpretation exists_reads: reading_command exists
  by unfold_locales (simp add: exists_def case_prod_unfold exists_loop_lazy [THEN conjunct2])

lemma live_fold_expire: "live t (fold (\<lambda>arg. expireIfNeeded t (Str arg)) args db) = live t db"
  by (induction args arbitrary: db) simp_all

interpretation mget_reads: reading_command mget
  by unfold_locales (simp add: mget_def Let_def live_fold_expire)

interpretation typeCmd_reads: reading_command typeCmd
  by unfold_locales (simp add: typeCmd_def GetKeyType_def Let_def)

interpretation lrange_reads: reading_command lrange
  by unfold_locales (auto simp: lrange_def list_defs split: sum.splits option.splits)

interpretation llen_reads: reading_command llen
  by unfold_locales (auto simp: llen_def list_defs split: option.splits)

interpretation lindex_reads: reading_command lindex
  by unfold_locales (auto simp: lindex_def list_defs split: sum.splits option.splits)

interpretation sismember_reads: reading_command sismember
  by unfold_locales (auto simp: sismember_def set_defs split: option.splits)

interpretation smembers_reads: reading_command smembers
  by unfold_locales (auto simp: smembers_def set_defs split: option.splits)

interpretation scard_reads: reading_command scard
  by unfold_locales (auto simp: scard_def set_defs split: option.splits)

interpretation sinter_reads: reading_command sinter
  by unfold_locales (auto simp: sinter_def set_defs inter_sets_eq simp del: live_sel split: option.splits)

interpretation sunion_reads: reading_command sunion
  by unfold_locales (auto simp: sunion_def set_defs other_sets_eq simp del: live_sel)

interpretation sdiff_reads: reading_command sdiff
  by unfold_locales (auto simp: sdiff_def set_defs other_sets_eq simp del: live_sel split: option.splits)

interpretation hget_reads: reading_command hget
  by unfold_locales (auto simp: hget_def hash_defs split: option.splits)

interpretation hexists_reads: reading_command hexists
  by unfold_locales (auto simp: hexists_def hash_defs split: option.splits)

interpretation hgetall_reads: reading_command hgetall
  by unfold_locales (auto simp: hgetall_def hash_defs split: option.splits)

interpretation hkeys_reads: reading_command hkeys
  by unfold_locales (auto simp: hkeys_def hash_defs split: option.splits)

interpretation hvals_reads: reading_command hvals
  by unfold_locales (auto simp: hvals_def hash_defs split: option.splits)

interpretation hlen_reads: reading_command hlen
  by unfold_locales (auto simp: hlen_def hash_defs split: option.splits)

interpretation hmget_reads: reading_command hmget
  by unfold_locales (auto simp: hmget_def hash_defs split: option.splits)

interpretation ttl_reads: reading_command ttl
  by unfold_locales (auto simp: ttl_def ttlValue_def Let_def split: option.splits)

interpretation pttl_reads: reading_command pttl
  by unfold_locales (auto simp: pttl_def ttlValue_def Let_def split: option.splits)

interpretation keysCmd_reads: reading_command keysCmd
  by unfold_locales (simp add: keysCmd_def sweep_simps)

interpretation scan_reads: reading_command scan
  by unfold_locales (auto simp: scan_def keysCmd_def sweep_simps split: sum.splits)

interpretation dbsize_reads: reading_command dbsize
  by unfold_locales (simp add: dbsize_def sweep_simps)

interpretation hello_reads: reading_command hello
  by unfold_locales (simp add: hello_def)

section \<open>Writing commands\<close>

text \<open>The loops over keys, and the helpers of the counters and expiry times.\<close>

lemma del_loop_frame: "k \<notin> all_keys args \<Longrightarrow> entry k (fst (del_loop t args db n)) = entry k db"
  by (induction args arbitrary: db n) (auto simp: DeleteKey_eq all_keys_def)

lemma mset_loop_frame: "k \<notin> pair_keys args \<Longrightarrow> entry k (mset_loop args db) = entry k db"
  by (induction args db rule: mset_loop.induct) auto

lemma pop_first_frame: "k \<notin> set keys \<Longrightarrow> entry k (fst (pop_first left t keys db)) = entry k db"
  by (induction keys arbitrary: db)
    (auto simp: lists.look Let_def case_prod_unfold split: option.splits)

lemma increment_frame: "k \<noteq> key \<Longrightarrow> entry k (fst (increment t db key n)) = entry k db"
  by (auto simp: increment_def Let_def split: sum.splits)

lemma setExpire_frame: "k \<noteq> key \<Longrightarrow> entry k (fst (setExpire t db key a u)) = entry k db"
  by (auto simp: setExpire_def Let_def split: sum.splits)

interpretation set_writes: writing_command set_cmd first_key
  by unfold_locales (auto simp: set_cmd_def Let_def first_key_nth)

interpretation del_writes: writing_command del all_keys
  by unfold_locales (simp add: del_def case_prod_unfold del_loop_frame)

interpretation mset_writes: writing_command mset_cmd pair_keys
  by unfold_locales (simp add: mset_cmd_def mset_loop_frame)

interpretation incr_writes: writing_command incr first_key
  by unfold_locales (auto simp: incr_def increment_frame first_key_nth)

interpretation decr_writes: writing_command decr first_key
  by unfold_locales (auto simp: decr_def increment_frame first_key_nth)

interpretation incrby_writes: writing_command incrby first_key
  by unfold_locales (auto simp: incrby_def increment_frame first_key_nth split: sum.splits)

interpretation decrby_writes: writing_command decrby first_key
  by unfold_locales (auto simp: decrby_def increment_frame first_key_nth split: sum.splits)

interpretation lpush_writes: writing_command lpush first_key
  by unfold_locales (auto simp: lpush_def container_simps case_prod_unfold first_key_nth split: option.splits)

interpretation rpush_writes: writing_command rpush first_key
  by unfold_locales (auto simp: rpush_def container_simps case_prod_unfold first_key_nth split: option.splits)

interpretation lpop_writes: writing_command lpop first_key
  by unfold_locales (auto simp: lpop_def container_simps case_prod_unfold first_key_nth split: option.splits)

interpretation rpop_writes: writing_command rpop first_key
  by unfold_locales (auto simp: rpop_def container_simps case_prod_unfold first_key_nth split: option.splits)

interpretation lset_writes: writing_command lset first_key
  by unfold_locales
    (auto simp: lset_def container_simps case_prod_unfold first_key_nth split: option.splits sum.splits bool.splits)

interpretation lrem_writes: writing_command lrem first_key
  by unfold_locales
    (auto simp: lrem_def container_simps case_prod_unfold first_key_nth split: option.splits sum.splits)

interpretation sadd_writes: writing_command sadd first_key
  by unfold_locales (auto simp: sadd_def container_simps case_prod_unfold first_key_nth split: option.splits)

interpretation srem_writes: writing_command srem first_key
  by unfold_locales (auto simp: srem_def container_simps case_prod_unfold first_key_nth split: option.splits)

interpretation spop_writes: writing_command spop first_key
  by unfold_locales (auto simp: spop_def container_simps case_prod_unfold first_key_nth split: option.splits)

interpretation hset_writes: writing_command hset first_key
  by unfold_locales (auto simp: hset_def container_simps case_prod_unfold first_key_nth split: option.splits)

interpretation hdel_writes: writing_command hdel first_key
  by unfold_locales (auto simp: hdel_def container_simps case_prod_unfold first_key_nth split: option.splits)

interpretation hmset_writes: writing_command hmset first_key
  by unfold_locales (auto simp: hmset_def container_simps case_prod_unfold first_key_nth split: option.splits)

interpretation hincrby_writes: writing_command hincrby first_key
  by unfold_locales
    (auto simp: hincrby_def container_simps case_prod_unfold first_key_nth split: option.splits sum.splits)

interpretation expire_writes: writing_command expire first_key
  by unfold_locales (auto simp: expire_def setExpire_frame first_key_nth)

interpretation pexpire_writes: writing_command pexpire first_key
  by unfold_locales (auto simp: pexpire_def setExpire_frame first_key_nth)

interpretation persist_writes: writing_command persist first_key
  by unfold_locales (auto simp: persist_def Let_def first_key_nth)

text \<open>A blocking pop looks at all arguments but the timeout.\<close>

lemma block_iter_frame:
  "k \<notin> set keys \<Longrightarrow> entry k (blocking_db (block_iter left t keys dl db)) = entry k db"
  using pop_first_frame [of k keys left t db] by (auto simp: block_iter_def split: prod.splits option.splits)

lemma blockingPop_frame:
  "k \<notin> but_last_keys args \<Longrightarrow> entry k (blocking_db (blockingPop e args db left)) = entry k db"
  by (auto simp: blockingPop_def Let_def but_last_keys_def butlast_conv_take block_iter_frame
      split: option.splits float_reading.splits)

section \<open>What the descriptions say\<close>

text \<open>Whether the command is described as writing, and the place of its keys.\<close>

definition shape :: "string \<Rightarrow> (bool \<times> int \<times> int \<times> int) option" where
  "shape c = map_option (\<lambda>sp. (''write'' \<in> set (flags sp), firstKey sp, lastKey sp, step sp))
     (List.find (\<lambda>sp. name sp = c) commandSpecs)"

definition keys_of :: "int \<times> int \<times> int \<Rightarrow> Value list \<Rightarrow> string set" where
  "keys_of p = (if p = (1, 1, 1) then first_key else if p = (1, -1, 1) then all_keys
     else if p = (1, -1, 2) then pair_keys else if p = (1, -2, 1) then but_last_keys else (\<lambda>_. {}))"

lemma shape_reads:
  "list_all (\<lambda>c. shape c = Some (False, 0, 0, 0))
    [''COMMAND'', ''PING'', ''KEYS'', ''SCAN'', ''DBSIZE'', ''HELLO'', ''PUBLISH'']"
  "list_all (\<lambda>c. shape c = Some (False, 1, 1, 1))
    [''GET'', ''TYPE'', ''LRANGE'', ''LLEN'', ''LINDEX'', ''SISMEMBER'', ''SMEMBERS'', ''SCARD'',
     ''HGET'', ''HEXISTS'', ''HGETALL'', ''HKEYS'', ''HVALS'', ''HLEN'', ''HMGET'', ''TTL'', ''PTTL'']"
  "list_all (\<lambda>c. shape c = Some (False, 1, -1, 1))
    [''EXISTS'', ''MGET'', ''SINTER'', ''SUNION'', ''SDIFF'']"
  by code_simp+

lemma shape_first_key:
  "list_all (\<lambda>c. shape c = Some (True, 1, 1, 1))
    [''SET'', ''INCR'', ''DECR'', ''INCRBY'', ''DECRBY'', ''LPUSH'', ''RPUSH'', ''LPOP'', ''RPOP'',
     ''LSET'', ''LREM'', ''SADD'', ''SREM'', ''SPOP'', ''HSET'', ''HDEL'', ''HMSET'', ''HINCRBY'',
     ''EXPIRE'', ''PEXPIRE'', ''PERSIST'']"
  by code_simp

lemma shape_others:
  "shape ''DEL'' = Some (True, 1, -1, 1)" "shape ''MSET'' = Some (True, 1, -1, 2)"
  "shape ''BLPOP'' = Some (True, 1, -2, 1)" "shape ''BRPOP'' = Some (True, 1, -2, 1)"
  by code_simp+

lemmas shapes = shape_reads [unfolded list.pred_inject] shape_first_key [unfolded list.pred_inject] shape_others

lemmas reading_interps =
  command_reads.reading_command_axioms ping_reads.reading_command_axioms get_reads.reading_command_axioms
  exists_reads.reading_command_axioms mget_reads.reading_command_axioms typeCmd_reads.reading_command_axioms
  lrange_reads.reading_command_axioms llen_reads.reading_command_axioms lindex_reads.reading_command_axioms
  sismember_reads.reading_command_axioms smembers_reads.reading_command_axioms
  scard_reads.reading_command_axioms sinter_reads.reading_command_axioms sunion_reads.reading_command_axioms
  sdiff_reads.reading_command_axioms hget_reads.reading_command_axioms hexists_reads.reading_command_axioms
  hgetall_reads.reading_command_axioms hkeys_reads.reading_command_axioms hvals_reads.reading_command_axioms
  hlen_reads.reading_command_axioms hmget_reads.reading_command_axioms ttl_reads.reading_command_axioms
  pttl_reads.reading_command_axioms keysCmd_reads.reading_command_axioms scan_reads.reading_command_axioms
  dbsize_reads.reading_command_axioms hello_reads.reading_command_axioms

lemmas writing_interps =
  set_writes.writing_command_axioms incr_writes.writing_command_axioms decr_writes.writing_command_axioms
  incrby_writes.writing_command_axioms decrby_writes.writing_command_axioms
  lpush_writes.writing_command_axioms rpush_writes.writing_command_axioms lpop_writes.writing_command_axioms
  rpop_writes.writing_command_axioms lset_writes.writing_command_axioms lrem_writes.writing_command_axioms
  sadd_writes.writing_command_axioms srem_writes.writing_command_axioms spop_writes.writing_command_axioms
  hset_writes.writing_command_axioms hdel_writes.writing_command_axioms hmset_writes.writing_command_axioms
  hincrby_writes.writing_command_axioms expire_writes.writing_command_axioms
  pexpire_writes.writing_command_axioms persist_writes.writing_command_axioms
  del_writes.writing_command_axioms mset_writes.writing_command_axioms

definition keeps_promise :: "string \<Rightarrow> handler \<Rightarrow> bool" where
  "keeps_promise c h \<longleftrightarrow> (case shape c of None \<Rightarrow> False
     | Some (w, p) \<Rightarrow> if w then writing_command h (keys_of p) else reading_command h)"

lemma keys_of_simps [simp]:
  "keys_of (1, 1, 1) = first_key" "keys_of (1, -1, 1) = all_keys" "keys_of (1, -1, 2) = pair_keys"
  "keys_of (1, -2, 1) = but_last_keys"
  by (simp_all add: keys_of_def)

lemma table_keeps_promise: "(c, Runs h) \<in> set handler_table \<Longrightarrow> keeps_promise c h"
  unfolding handler_table_def
  by (elim set_ConsD [THEN disjE])
    (simp_all add: keeps_promise_def shapes reading_interps writing_interps)

section \<open>What \<open>COMMAND GETKEYS\<close> replies\<close>

definition reported_keys :: "env \<Rightarrow> string \<Rightarrow> Value list \<Rightarrow> Database \<Rightarrow> string set" where
  "reported_keys e c args db =
     (let v = snd (command_cmd e (bulk ''GETKEYS'' # bulk c # args) db)
      in if is_error v then {} else set (map Str (Array v)))"

lemma specs_upper: "list_all (\<lambda>sp. list_all is_ascii (name sp) \<and> map upper_char (name sp) = name sp) commandSpecs"
  by code_simp

lemma findCommandSpec_eq:
  assumes "List.find (\<lambda>sp. name sp = c) commandSpecs = Some sp"
  shows "findCommandSpec e c = Some sp"
proof -
  have "sp \<in> set commandSpecs" "name sp = c" using assms by (auto simp: find_Some_iff)
  then have "ToUpper (unicode_ToUpper e) c = c" using specs_upper by (auto simp: ToUpper_def list_all_iff)
  then show ?thesis using assms by (simp add: findCommandSpec_def)
qed

lemma getkeys_loop_one:
  "i \<le> l \<Longrightarrow> l \<le> length args \<Longrightarrow> map Str (getkeys_loop (int i) (int l) 1 args) = map Str (take (l - i) (drop i args))"
proof (induction "l - i" arbitrary: i)
  case (Suc n)
  then have "n = l - Suc i" "i < l" "i < length args" by auto
  then show ?case
    using Suc(1) [of "Suc i"] Suc.prems
    by (subst getkeys_loop.simps) (simp add: Suc_diff_le [symmetric] Cons_nth_drop_Suc [symmetric] take_Cons' add.commute)
qed (simp add: getkeys_loop.simps)

lemma getkeys_set_one:
  "l \<le> length args \<Longrightarrow> Str ` set (getkeys_loop 0 (int l) 1 args) = Str ` set (take l args)"
  using arg_cong [OF getkeys_loop_one [of 0 l args], of set] by simp

lemma getkeys_loop_two:
  "set (map Str (getkeys_loop (int i) (int (length args)) 2 args)) = pair_keys (drop i args)"
proof (induction "length args - i" arbitrary: i rule: less_induct)
  case less
  consider "length args \<le> i" | "Suc i = length args" | "Suc i < length args" by linarith
  then show ?case
  proof cases
    case 1
    then show ?thesis by (simp add: getkeys_loop.simps)
  next
    case 2
    then have "drop i args = [args ! i]" by (metis Cons_nth_drop_Suc drop_all lessI order_refl)
    then show ?thesis using 2 by (simp add: getkeys_loop.simps)
  next
    case 3
    then have "drop i args = args ! i # args ! Suc i # drop (Suc (Suc i)) args" by (simp add: Cons_nth_drop_Suc)
    then show ?thesis using less [of "Suc (Suc i)"] 3 by (subst getkeys_loop.simps) (simp add: add.commute)
  qed
qed

lemma reported_keys_loop:
  assumes "List.find (\<lambda>sp. name sp = c) commandSpecs = Some sp" and "firstKey sp = 1" and "args \<noteq> []"
  shows "reported_keys e c args db = set (map Str (getkeys_loop 0
    (max 1 (if lastKey sp < 0 then int (length args) + lastKey sp + 1 else lastKey sp)) (step sp) args))"
proof -
  have "map upper_char ''GETKEYS'' = ''GETKEYS''" "list_all is_ascii ''GETKEYS''" by code_simp+
  then have up: "ToUpper (unicode_ToUpper e) ''GETKEYS'' = ''GETKEYS''" by (simp add: ToUpper_def)
  show ?thesis
    using assms(2,3) findCommandSpec_eq [OF assms(1), of e]
    by (auto simp: reported_keys_def command_cmd_def up getKeys_def Let_def max_def)
qed

text \<open>\<open>GETKEYS\<close> names every key that the description places.\<close>

lemma reported_keys_shape:
  assumes "shape c = Some (w, p)"
  shows "keys_of p args \<subseteq> reported_keys e c args db"
proof (cases "args = [] \<or> fst p \<noteq> 1")
  case True
  then show ?thesis by (auto simp: keys_of_def all_keys_def but_last_keys_def)
next
  case False
  obtain sp where sp: "List.find (\<lambda>sp. name sp = c) commandSpecs = Some sp" "p = (firstKey sp, lastKey sp, step sp)"
    using assms by (auto simp: shape_def)
  have n: "1 \<le> length args" "args \<noteq> []" using False by (cases args; simp)+
  note reply = reported_keys_loop [OF sp(1) _ n(2), of e db]
  consider "p = (1, 1, 1)" | "p = (1, -1, 1)" | "p = (1, -1, 2)" | "p = (1, -2, 1)" | "keys_of p args = {}"
    unfolding keys_of_def by presburger
  then show ?thesis
  proof cases
    case 1
    then show ?thesis using reply sp(2) getkeys_set_one [of 1 args] n by (simp add: first_key_def)
  next
    case 2
    then show ?thesis using reply sp(2) getkeys_set_one [of "length args" args] n
      by (simp add: all_keys_def max_def)
  next
    case 3
    then show ?thesis using reply sp(2) getkeys_loop_two [of 0 args] n by (simp add: max_def)
  next
    case 4
    have "max 1 (int (length args) - 1) = int (max 1 (length args - 1))" using n by auto
    moreover have "set (map Str (butlast args)) \<subseteq> set (map Str (take (max 1 (length args - 1)) args))"
      unfolding butlast_conv_take set_map by (intro image_mono set_take_subset_set_take) simp
    ultimately show ?thesis
      using 4 reply sp(2) getkeys_set_one [of "max 1 (length args - 1)" args] n by (simp add: but_last_keys_def)
  qed simp
qed

section \<open>Property of the command table\<close>

lemma promise_kept:
  assumes "CommandHandlers c = Some ch" and "shape c = Some (w, p)"
    and "call_handler ch e args db ps = Answer db' ps' v \<or> call_handler ch e args db ps = Waiting db' dl"
  shows "if w then \<forall>k. k \<notin> keys_of p args \<longrightarrow> entry k (live (now e) db') = entry k (live (now e) db)
    else live (now e) db' = live (now e) db"
proof (cases ch)
  case (Runs h)
  have "keeps_promise c h" using assms(1) Runs table_keeps_promise by (simp add: CommandHandlers_def map_of_SomeD)
  moreover have "db' = fst (h e args db)" using assms(3) Runs by (auto simp: call_handler_def split: prod.splits)
  ultimately show ?thesis
    using assms(2) by (cases w) (auto simp: keeps_promise_def reading_command.reads intro: writing_command.visible_frame)
next
  case (Waits h)
  then have "c \<in> {''BLPOP'', ''BRPOP''}"
    using assms(1) by (auto simp: CommandHandlers_def handler_table_def split: if_splits)
  then have "w" "p = (1, -2, 1)" using assms(2) shape_others(3,4) by auto
  moreover obtain left where "h e args db = blockingPop e args db left"
    using waits_blockingPop assms(1) Waits by blast
  then have "db' = blocking_db (blockingPop e args db left)"
    using assms(3) Waits by (auto simp: call_handler_def split: blocking.splits)
  ultimately show ?thesis using blockingPop_frame by (auto intro: entry_live)
next
  case (Broadcasts h)
  then have "db' = db" using assms(3) by (auto simp: call_handler_def split: option.splits)
  then show ?thesis by simp
qed

text \<open>
  C16.  The command table tells the truth about every command of the dispatch table.  A command that is
  not described as \<open>write\<close> leaves the database as every client sees it.  Any command, with any
  arguments, whether it replies or waits, leaves the value and the expiry time of every key alone that \<open>COMMAND GETKEYS\<close>
  does not report for these arguments.
\<close>

theorem command_table_truthful:
  assumes "CommandHandlers c = Some ch" and "sp \<in> set commandSpecs" and "name sp = c"
    and "call_handler ch e args db ps = Answer db' ps' v \<or> call_handler ch e args db ps = Waiting db' dl"
  shows "(''write'' \<notin> set (flags sp) \<longrightarrow> live (now e) db' = live (now e) db) \<and>
    (k \<notin> reported_keys e c args db \<longrightarrow> entry k (live (now e) db') = entry k (live (now e) db))"
proof -
  have "List.find (\<lambda>sp. name sp = c) commandSpecs \<noteq> None" using assms(2,3) by (auto simp: find_None_iff)
  then obtain sp' where sp': "List.find (\<lambda>sp. name sp = c) commandSpecs = Some sp'" by auto
  then have "sp' \<in> set commandSpecs" "name sp' = c" by (auto simp: find_Some_iff)
  then have "sp' = sp" using assms(2,3) commandSpecs_distinct by (auto simp: distinct_map inj_on_def)
  then have "shape c = Some (''write'' \<in> set (flags sp), firstKey sp, lastKey sp, step sp)"
    using sp' by (simp add: shape_def)
  from promise_kept [OF assms(1) this assms(4)] reported_keys_shape [OF this, of args e db]
  show ?thesis by (auto split: if_splits)
qed

theorem command_table_truthful_witness:
  "reported_keys (env_at 0) ''SADD'' [bulk ''s'', bulk ''x''] newDatabase = {''s''} \<and>
   entry ''x'' (live 0 (fst (sadd (env_at 0) [bulk ''s'', bulk ''x''] newDatabase))) = entry ''x'' (live 0 newDatabase)"
proof -
  let ?sp = "spec ''SADD'' (-3) [''write'', ''fast''] 1 1 1"
  have find: "List.find (\<lambda>sp. name sp = ''SADD'') commandSpecs = Some ?sp" by (simp add: commandSpecs_def)
  have "getkeys_loop 0 1 1 [bulk ''s'', bulk ''x''] = [bulk ''s'']" by (simp add: getkeys_loop.simps)
  then have keys: "reported_keys (env_at 0) ''SADD'' [bulk ''s'', bulk ''x''] newDatabase = {''s''}"
    using reported_keys_loop [OF find, of "[bulk ''s'', bulk ''x'']" "env_at 0" newDatabase] by simp
  have "CommandHandlers ''SADD'' = Some (Runs sadd)" by (simp add: CommandHandlers_def handler_table_def)
  moreover have "?sp \<in> set commandSpecs" using find by (auto simp: find_Some_iff)
  moreover obtain v where "call_handler (Runs sadd) (env_at 0) [bulk ''s'', bulk ''x''] newDatabase New =
      Answer (fst (sadd (env_at 0) [bulk ''s'', bulk ''x''] newDatabase)) New v"
    by (simp add: call_handler_def case_prod_unfold)
  ultimately show ?thesis
    using command_table_truthful [of "''SADD''" "Runs sadd" ?sp "env_at 0" "[bulk ''s'', bulk ''x'']" newDatabase New _ New v None "''x''"] keys
    by simp
qed

end
