(* ===== verification/System.thy ===== *)
theory System
  imports Server
begin

text \<open>
  The running server as a state machine: connections come and go, each receives values one at a time,
  blocking pops wait and are resumed, and the background loops tick.  A step is one atomic piece of
  one goroutine's work.  The relation is indexed by the Unicode table the process uses and by a
  predicate on the values clients send.
\<close>

section \<open>Steps\<close>

record System =
  server :: Server
  conns :: "(nat, Conn) fmap"
  waiting :: "(nat, Waiter) fmap"

definition start :: "Server \<Rightarrow> System" where
  "start s = \<lparr>server = s, conns = fmempty, waiting = fmempty\<rparr>"

definition env_ok :: "(string \<Rightarrow> string) \<Rightarrow> env \<Rightarrow> bool" where
  "env_ok uni e \<longleftrightarrow> fair (map_order e) \<and> unicode_ToUpper e = uni"

inductive sys_step :: "(string \<Rightarrow> string) \<Rightarrow> (Value \<Rightarrow> bool) \<Rightarrow> System \<Rightarrow> System \<Rightarrow> bool"
  for uni and sends where
  Accept: "fmlookup (conns S) i = None \<Longrightarrow>
    sys_step uni sends S (S\<lparr>conns := fmupd i (new_conn (server S)) (conns S)\<rparr>)"
| Receive: "fmlookup (conns S) i = Some c \<Longrightarrow> fmlookup (waiting S) i = None \<Longrightarrow>
    env_ok uni (ev se) \<Longrightarrow> wf_value v \<Longrightarrow> sends v \<Longrightarrow>
    handle_value se v c (server S) = Sent s' c' out \<Longrightarrow>
    sys_step uni sends S (S\<lparr>server := s', conns := fmupd i c' (conns S)\<rparr>)"
| Block: "fmlookup (conns S) i = Some c \<Longrightarrow> fmlookup (waiting S) i = None \<Longrightarrow>
    env_ok uni (ev se) \<Longrightarrow> wf_value v \<Longrightarrow> sends v \<Longrightarrow>
    handle_value se v c (server S) = Suspended s' c' w \<Longrightarrow>
    sys_step uni sends S (S\<lparr>server := s', conns := fmupd i c' (conns S), waiting := fmupd i w (waiting S)\<rparr>)"
| Wake: "fmlookup (conns S) i = Some c \<Longrightarrow> fmlookup (waiting S) i = Some w \<Longrightarrow> env_ok uni (ev se) \<Longrightarrow>
    resume se w c (server S) = Sent s' c' out \<Longrightarrow>
    sys_step uni sends S (S\<lparr>server := s', conns := fmupd i c' (conns S), waiting := fmdrop i (waiting S)\<rparr>)"
| Wait: "fmlookup (conns S) i = Some c \<Longrightarrow> fmlookup (waiting S) i = Some w \<Longrightarrow> env_ok uni (ev se) \<Longrightarrow>
    resume se w c (server S) = Suspended s' c' w' \<Longrightarrow>
    sys_step uni sends S (S\<lparr>server := s', conns := fmupd i c' (conns S), waiting := fmupd i w' (waiting S)\<rparr>)"
| Close: "fmlookup (conns S) i = Some c \<Longrightarrow> fmlookup (waiting S) i = None \<Longrightarrow> fair iter \<Longrightarrow>
    disconnect iter c (server S) = Some s' \<Longrightarrow>
    sys_step uni sends S (S\<lparr>server := s', conns := fmdrop i (conns S)\<rparr>)"
| Deliver: "sys_step uni sends S
    (S\<lparr>server := (server S)\<lparr>databases := (databases (server S))
        \<lparr>Broker := fst (receive ch (Broker (databases (server S))))\<rparr>\<rparr>\<rparr>)"
| Sweep: "env_ok uni e \<Longrightarrow> sys_step uni sends S (S\<lparr>server := expiry_tick e (server S)\<rparr>)"
| Tick: "env_ok uni e \<Longrightarrow> sys_step uni sends S
    (S\<lparr>server := (server S)\<lparr>rdb_service :=
        map_option (snapshot_tick fault e rules (DBs (databases (server S)))) (rdb_service (server S))\<rparr>\<rparr>)"
| BgSave: "env_ok uni (ev se) \<Longrightarrow>
    sys_step uni sends S (S\<lparr>server := run_background_save se (server S)\<rparr>)"

section \<open>Invariant\<close>

text \<open>
  Sixteen well-formed databases, a consistent broker, valid database indexes, and subscriptions that
  belong to exactly one connection.
\<close>

definition server_ok :: "Server \<Rightarrow> bool" where
  "server_ok s \<longleftrightarrow> length (DBs (databases s)) = NumDatabases \<and> list_all db_wf (DBs (databases s)) \<and>
     ps_inv (Broker (databases s))"

definition index_ok :: "Conn \<Rightarrow> bool" where
  "index_ok c \<longleftrightarrow> 0 \<le> dbIndex c \<and> dbIndex c < int NumDatabases"

definition owns :: "Conn \<Rightarrow> string \<Rightarrow> chan \<Rightarrow> bool" where
  "owns c channel ch \<longleftrightarrow> fmlookup (subscriptions c) channel = Some ch"

definition subs_ok :: "PubSub \<Rightarrow> (nat, Conn) fmap \<Rightarrow> bool" where
  "subs_ok ps cs \<longleftrightarrow>
     (\<forall>i c channel ch. fmlookup cs i = Some c \<longrightarrow> owns c channel ch \<longrightarrow> subscribed ps channel ch) \<and>
     (\<forall>i c j d channel channel' ch. fmlookup cs i = Some c \<longrightarrow> fmlookup cs j = Some d \<longrightarrow>
        owns c channel ch \<longrightarrow> owns d channel' ch \<longrightarrow> i = j)"

definition sys_inv :: "System \<Rightarrow> bool" where
  "sys_inv S \<longleftrightarrow> server_ok (server S) \<and> fmpred (\<lambda>_. index_ok) (conns S) \<and>
     subs_ok (Broker (databases (server S))) (conns S)"

section \<open>Subscriptions of one connection\<close>

definition held :: "PubSub \<Rightarrow> (string, chan) fmap \<Rightarrow> bool" where
  "held ps sm \<longleftrightarrow> (\<forall>channel ch. fmlookup sm channel = Some ch \<longrightarrow> subscribed ps channel ch)"

text \<open>
  What a connection may do to the broker: it ends up holding channels it held before or new ones, and
  the channels of others stay subscribed.
\<close>

definition sub_rel :: "(string, chan) fmap \<Rightarrow> PubSub \<Rightarrow> (string, chan) fmap \<Rightarrow> PubSub \<Rightarrow> bool" where
  "sub_rel sm ps sm' ps' \<longleftrightarrow>
     ps_inv ps' \<and> held ps' sm' \<and>
     (\<forall>channel ch. fmlookup sm' channel = Some ch \<longrightarrow>
        (\<exists>channel'. fmlookup sm channel' = Some ch) \<or> (\<forall>channel'. \<not> subscribed ps channel' ch)) \<and>
     (\<forall>channel ch. subscribed ps channel ch \<longrightarrow> (\<forall>channel'. fmlookup sm channel' \<noteq> Some ch) \<longrightarrow>
        subscribed ps' channel ch)"

lemma sub_rel_refl: "ps_inv ps \<Longrightarrow> held ps sm \<Longrightarrow> sub_rel sm ps sm ps"
  by (auto simp: sub_rel_def)

lemma sub_rel_trans:
  "sub_rel sm ps sm' ps' \<Longrightarrow> sub_rel sm' ps' sm'' ps'' \<Longrightarrow> sub_rel sm ps sm'' ps''"
  unfolding sub_rel_def by metis

lemma sub_rel_Subscribe:
  assumes "ps_inv ps" and "held ps sm" and "fmlookup sm channel = None"
  shows "sub_rel sm ps (fmupd channel (snd (Subscribe channel ps)) sm) (fst (Subscribe channel ps))"
  using assms fresh_not_subscribed [OF assms(1)]
  by (auto simp: sub_rel_def held_def ps_inv_Subscribe subscribed_Subscribe Subscribe_chan split: if_splits)

lemma handleSubscribe_rel:
  assumes "ps_inv ps" and "held ps sm" and "handleSubscribe args sm ps out = (sm', ps', out')"
  shows "sub_rel sm ps sm' ps'"
  using assms
proof (induction args sm ps out rule: handleSubscribe.induct)
  case (1 sm ps out)
  then show ?case by (simp add: sub_rel_refl)
next
  case (2 arg args sm ps out)
  obtain ps1 ch where sub: "Subscribe (Str arg) ps = (ps1, ch)" by force
  show ?case
  proof (cases "fmlookup sm (Str arg) = None")
    case True
    have rel: "sub_rel sm ps (fmupd (Str arg) ch sm) ps1"
      using sub_rel_Subscribe [OF "2.prems"(1,2) True] sub by simp
    then have inv: "ps_inv ps1" "held ps1 (fmupd (Str arg) ch sm)" by (simp_all add: sub_rel_def)
    have eq: "handleSubscribe args (fmupd (Str arg) ch sm) ps1
        (out @ [array [bulk ''subscribe'', bulk (Str arg), integer (int (maplen (fmupd (Str arg) ch sm)))]]) = (sm', ps', out')"
      using "2.prems"(3) True sub by (simp add: Let_def)
    have "sub_rel (fmupd (Str arg) ch sm) ps1 sm' ps'"
      by (rule "2.IH"(2) [of "Str arg" _ ps1 ch "fmupd (Str arg) ch sm"]) (use True sub inv eq in simp_all)
    with rel show ?thesis by (rule sub_rel_trans)
  next
    case False
    then show ?thesis using 2 by (simp add: Let_def)
  qed
qed

lemma sub_rel_unsub:
  assumes "ps_inv ps" and "held ps sm" and "fmlookup sm channel = Some ch"
  shows "sub_rel sm ps (fmdrop channel sm) (unsub channel ch ps)"
proof -
  have "subscribed ps channel ch" using assms(2,3) by (simp add: held_def)
  then have "ps_inv (unsub channel ch ps)" using assms(1) by (rule ps_inv_unsub [rotated])
  moreover have "subscribed (unsub channel ch ps) c' ch' \<longleftrightarrow> subscribed ps c' ch' \<and> \<not> (c' = channel \<and> ch' = ch)" for c' ch'
    by (auto simp: subscribed_iff subscribers_unsub)
  ultimately show ?thesis using assms by (auto simp: sub_rel_def held_def)
qed

text \<open>Unsubscribing never closes a channel twice.\<close>

lemma unsubscribe_loop_rel:
  assumes "ps_inv ps" and "held ps sm"
  shows "\<exists>sm' ps' out'. unsubscribe_loop channels sm ps out = Some (sm', ps', out') \<and> sub_rel sm ps sm' ps'"
  using assms
proof (induction channels arbitrary: sm ps out)
  case Nil
  then show ?case by (simp add: sub_rel_refl)
next
  case (Cons channel channels)
  show ?case
  proof (cases "fmlookup sm channel")
    case None
    then show ?thesis using Cons by simp
  next
    case (Some ch)
    then have sub: "subscribed ps channel ch" using Cons.prems(2) by (simp add: held_def)
    have rel: "sub_rel sm ps (fmdrop channel sm) (unsub channel ch ps)"
      using Cons.prems Some by (rule sub_rel_unsub)
    then have "ps_inv (unsub channel ch ps)" "held (unsub channel ch ps) (fmdrop channel sm)"
      by (simp_all add: sub_rel_def)
    with Cons.IH [of "unsub channel ch ps" "fmdrop channel sm"] rel
    show ?thesis using Some Unsubscribe_eq [OF Cons.prems(1) sub] sub_rel_trans by fastforce
  qed
qed

lemma handleUnsubscribe_rel:
  assumes "ps_inv ps" and "held ps sm"
  obtains sm' ps' out' where "handleUnsubscribe iter args sm ps = Some (sm', ps', out')" "sub_rel sm ps sm' ps'"
  using unsubscribe_loop_rel [OF assms] by (metis handleUnsubscribe_def)

section \<open>One received value\<close>

text \<open>What a step of one connection guarantees, as a predicate on its result.\<close>

definition conn_step_ok :: "Conn \<Rightarrow> Server \<Rightarrow> Conn \<Rightarrow> Server \<Rightarrow> bool" where
  "conn_step_ok c s c' s' \<longleftrightarrow> server_ok s' \<and> index_ok c' \<and>
     sub_rel (subscriptions c) (Broker (databases s)) (subscriptions c') (Broker (databases s'))"

definition result_ok :: "Conn \<Rightarrow> Server \<Rightarrow> result \<Rightarrow> bool" where
  "result_ok c s r \<longleftrightarrow>
     (case r of Sent s' c' out \<Rightarrow> conn_step_ok c s c' s' | Suspended s' c' w \<Rightarrow> conn_step_ok c s c' s' | Down \<Rightarrow> False)"

lemma server_ok_DB:
  assumes "server_ok s" and "index_ok c"
  obtains db where "DB (dbIndex c) (databases s) = Some db" "db_wf db"
  using assms by (auto simp: server_ok_def index_ok_def DB_def list_all_length)

lemma server_ok_put_state:
  "server_ok s \<Longrightarrow> db_wf db \<Longrightarrow> ps_inv ps \<Longrightarrow> server_ok (put_state i db ps s)"
  by (auto simp: server_ok_def put_state_def set_DB_def list_all_iff dest!: subsetD [OF set_update_subset_insert])

lemma log_command_sel [simp]: "databases (log_command cmd orig i v s) = databases s"
  by (simp add: log_command_def)

lemma server_ok_log [simp]: "server_ok (log_command cmd orig i v s) = server_ok s"
  by (simp add: server_ok_def)

lemma server_ok_upd [simp]:
  "server_ok (s\<lparr>rdb_service := r\<rparr>) = server_ok s"
  "server_ok (s\<lparr>background_saves := n\<rparr>) = server_ok s"
  by (simp_all add: server_ok_def)

lemma Broker_put_state [simp]: "Broker (databases (put_state i db ps s)) = ps"
  by (simp add: put_state_def)

lemma held_Broker: "ps_inv ps \<Longrightarrow> (\<And>c ch. subscribed ps' c ch = subscribed ps c ch) \<Longrightarrow> ps_inv ps' \<Longrightarrow>
  held ps sm \<Longrightarrow> sub_rel sm ps sm ps'"
  by (auto simp: sub_rel_def held_def)

lemma publish_sub_rel:
  assumes "ps_inv ps" and "held ps sm" and "publish args ps = Some (ps', v)"
  shows "sub_rel sm ps sm ps'"
proof (cases "length args = 2")
  case True
  obtain q' n where "Publish (Str (args ! 0)) (Str (args ! 1)) ps = Some (ps\<lparr>queue := q'\<rparr>, n)"
    using Publish_spec [OF assms(1)] by metis
  with True assms(3) ps_inv_Publish [OF assms(1), of "Str (args ! 0)" "Str (args ! 1)"]
  have "ps' = ps\<lparr>queue := q'\<rparr>" "ps_inv ps'" by (auto simp: publish_def)
  then show ?thesis using assms by (intro held_Broker) (auto simp: subscribed_def)
next
  case False
  then show ?thesis using assms by (simp add: publish_def sub_rel_refl)
qed

lemma call_handler_ok:
  assumes "CommandHandlers cmd = Some h" and "fair (map_order e)" and "db_wf db" and "ps_inv ps" and "held ps sm"
  shows "case call_handler h e args db ps of
      Answer db' ps' v \<Rightarrow> db_wf db' \<and> sub_rel sm ps sm ps'
    | Waiting db' dl \<Rightarrow> db_wf db' | Crash \<Rightarrow> False"
proof (cases h)
  case (Broadcasts p)
  then have "p = publish" using assms(1) CommandHandlers_Broadcasts by blast
  then show ?thesis
    using Broadcasts call_handler_wf [OF assms(1-4), of args] publish_sub_rel [OF assms(4,5)]
    by (auto simp: call_handler_def split: option.splits prod.splits)
qed (use call_handler_wf [OF assms(1-4), of args] sub_rel_refl [OF assms(4,5)] in
    \<open>auto simp: call_handler_def split: outcome.splits prod.splits blocking.splits\<close>)

lemma processCommand_ok:
  assumes "server_ok s" and "index_ok c" and "held (Broker (databases s)) (subscriptions c)"
    and "fair (map_order (ev se))"
  shows "result_ok c s (processCommand se cmd args orig c s)"
proof -
  let ?ps = "Broker (databases s)"
  have ps: "ps_inv ?ps" using assms(1) by (simp add: server_ok_def)
  have refl: "sub_rel (subscriptions c) ?ps (subscriptions c) ?ps" using ps assms(3) by (rule sub_rel_refl)
  obtain db where db: "DB (dbIndex c) (databases s) = Some db" "db_wf db"
    using assms(1,2) by (rule server_ok_DB)
  show ?thesis
  proof (cases "cmd \<in> {''SAVE'', ''BGSAVE'', ''LASTSAVE''} \<or> CommandHandlers cmd = None")
    case True
    then show ?thesis using assms(1,2) db refl
      by (auto simp: processCommand_def result_ok_def conn_step_ok_def split: prod.splits)
  next
    case False
    then obtain h where h: "CommandHandlers cmd = Some h" by auto
    note ok = call_handler_ok [OF h assms(4) db(2) ps assms(3), of args]
    have "result_ok c s (case call_handler h (ev se) args db ?ps of
        Crash \<Rightarrow> Down
      | Waiting db' dl \<Rightarrow> Suspended (put_state (dbIndex c) db' ?ps s) c
            \<lparr>from_left = (cmd = ''BLPOP''), original = orig, until = dl\<rparr>
      | Answer db' ps' v \<Rightarrow>
          Sent (log_command cmd orig (dbIndex c) v (put_state (dbIndex c) db' ps' s)) c [v])"
      using ok assms(1,2) ps refl
      by (auto simp: result_ok_def conn_step_ok_def server_ok_put_state sub_rel_def split: outcome.splits)
    then show ?thesis using False db h by (simp add: processCommand_def)
  qed
qed

lemma resume_ok:
  assumes "server_ok s" and "index_ok c" and "held (Broker (databases s)) (subscriptions c)"
  shows "result_ok c s (resume se w c s)"
proof -
  let ?ps = "Broker (databases s)"
  have ps: "ps_inv ?ps" using assms(1) by (simp add: server_ok_def)
  have refl: "sub_rel (subscriptions c) ?ps (subscriptions c) ?ps" using ps assms(3) by (rule sub_rel_refl)
  obtain db where db: "DB (dbIndex c) (databases s) = Some db" "db_wf db"
    using assms(1,2) by (rule server_ok_DB)
  have "db_wf (blocking_db (block_iter left t keys dl db))" for left t keys dl
    using db(2) by (rule block_iter_wf)
  from this [of "from_left w" "now (ev se)" "blocking_args (drop 1 (Array (original w)))" "until w"]
  show ?thesis using db assms(1,2) ps refl
    by (auto simp: resume_def result_ok_def conn_step_ok_def server_ok_put_state split: blocking.splits)
qed

lemma server_ok_Broker: "server_ok s \<Longrightarrow> ps_inv ps \<Longrightarrow> server_ok (s\<lparr>databases := (databases s)\<lparr>Broker := ps\<rparr>\<rparr>)"
  by (simp add: server_ok_def)

lemma handleSelect_range:
  "index_ok c \<Longrightarrow> handleSelect args (dbIndex c) = (i, v) \<Longrightarrow> 0 \<le> i \<and> i < int NumDatabases"
  by (auto simp: handleSelect_def index_ok_def split: if_splits sum.splits)

lemma handle_value_ok:
  assumes "server_ok s" and "index_ok c" and "held (Broker (databases s)) (subscriptions c)"
    and "fair (map_order (ev se))"
  shows "result_ok c s (handle_value se v c s)"
proof -
  let ?ps = "Broker (databases s)"
  have ps: "ps_inv ?ps" using assms(1) by (simp add: server_ok_def)
  have refl: "sub_rel (subscriptions c) ?ps (subscriptions c) ?ps" using ps assms(3) by (rule sub_rel_refl)
  note sub = handleSubscribe_rel [OF ps assms(3)]
  have unsub: "\<exists>sm' ps' out'. handleUnsubscribe (map_order (ev se)) args (subscriptions c) ?ps = Some (sm', ps', out') \<and>
      sub_rel (subscriptions c) ?ps sm' ps'" for args
    using handleUnsubscribe_rel [OF ps assms(3)] by metis
  have sel: "\<exists>i v. handleSelect args (dbIndex c) = (i, v) \<and> 0 \<le> i \<and> i < int NumDatabases" for args
    using handleSelect_range [OF assms(2)] by (metis prod.exhaust)
  show ?thesis
    using assms(1,2) refl processCommand_ok [OF assms]
      unsub [of "drop 1 (Array v)"] sel [of "drop 1 (Array v)"] sub [of "drop 1 (Array v)" "[]"]
    by (auto simp: handle_value_def Let_def result_ok_def conn_step_ok_def index_ok_def server_ok_Broker
        sub_rel_def split: prod.splits)
qed

section \<open>Every reachable state is consistent\<close>

lemma sys_inv_held: "sys_inv S \<Longrightarrow> fmlookup (conns S) i = Some c \<Longrightarrow>
  held (Broker (databases (server S))) (subscriptions c)"
  by (auto simp: sys_inv_def subs_ok_def held_def owns_def)

lemma subs_ok_step:
  assumes "subs_ok ps cs" and "fmlookup cs i = Some c"
    and "sub_rel (subscriptions c) ps (subscriptions c') ps'"
  shows "subs_ok ps' (fmupd i c' cs)" and "subscriptions c' = fmempty \<Longrightarrow> subs_ok ps' (fmdrop i cs)"
proof -
  have mine: "owns c' channel ch \<Longrightarrow> subscribed ps' channel ch" for channel ch
    using assms(3) by (auto simp: sub_rel_def held_def owns_def)
  have other: "subscribed ps' channel ch" if "fmlookup cs j = Some d" "owns d channel ch" "j \<noteq> i" for j d channel ch
  proof -
    have "subscribed ps channel ch" using assms(1) that by (auto simp: subs_ok_def)
    moreover have "\<not> owns c channel' ch" for channel'
      using assms(1,2) that by (auto simp: subs_ok_def)
    ultimately show ?thesis using assms(3) by (auto simp: sub_rel_def owns_def)
  qed
  have apart: "\<not> owns c' channel ch" if "fmlookup cs j = Some d" "owns d channel' ch" "j \<noteq> i" for j d channel channel' ch
  proof
    assume "owns c' channel ch"
    with assms(3) have "(\<exists>k. owns c k ch) \<or> (\<forall>k. \<not> subscribed ps k ch)"
      by (auto simp: sub_rel_def owns_def)
    moreover have "subscribed ps channel' ch" using assms(1) that by (auto simp: subs_ok_def)
    ultimately obtain k where "owns c k ch" by blast
    then show False using assms(1,2) that by (auto simp: subs_ok_def)
  qed
  have old: "j = k" if "fmlookup cs j = Some d" "fmlookup cs k = Some f" "owns d channel ch" "owns f channel' ch"
    for j k d f channel channel' ch
    using assms(1) that unfolding subs_ok_def by blast
  show "subs_ok ps' (fmupd i c' cs)"
    unfolding subs_ok_def using mine other apart old by (simp split: if_splits) metis
  show "subs_ok ps' (fmdrop i cs)"
    unfolding subs_ok_def using other old by (auto split: if_splits)
qed

lemma sys_inv_conn_step:
  assumes "sys_inv S" and "fmlookup (conns S) i = Some c" and "conn_step_ok c (server S) c' s'"
  shows "sys_inv (S\<lparr>server := s', conns := fmupd i c' (conns S)\<rparr>)"
  using assms subs_ok_step(1) [of "Broker (databases (server S))" "conns S" i c c' "Broker (databases s')"]
  by (auto simp: sys_inv_def conn_step_ok_def)

lemma sys_inv_waiting [simp]: "sys_inv (S\<lparr>waiting := w\<rparr>) = sys_inv S"
  by (simp add: sys_inv_def)

lemma sys_inv_server:
  assumes "sys_inv S" and "server_ok s'"
    and "\<And>c ch. subscribed (Broker (databases s')) c ch = subscribed (Broker (databases (server S))) c ch"
  shows "sys_inv (S\<lparr>server := s'\<rparr>)"
  using assms by (simp add: sys_inv_def subs_ok_def)

lemma conn_results:
  assumes "sys_inv S" and "fmlookup (conns S) i = Some c"
  shows "fair (map_order (ev se)) \<Longrightarrow> result_ok c (server S) (handle_value se v c (server S))"
    and "result_ok c (server S) (resume se w c (server S))"
proof -
  have c: "server_ok (server S)" "index_ok c" "held (Broker (databases (server S))) (subscriptions c)"
    using assms sys_inv_held by (auto simp: sys_inv_def dest: fmpredD)
  show "fair (map_order (ev se)) \<Longrightarrow> result_ok c (server S) (handle_value se v c (server S))"
    using c by (rule handle_value_ok)
  show "result_ok c (server S) (resume se w c (server S))" using c by (rule resume_ok)
qed

lemma conn_steps:
  assumes "sys_inv S" and "fmlookup (conns S) i = Some c"
  shows "env_ok uni (ev se) \<Longrightarrow> handle_value se v c (server S) = Sent s' c' out \<Longrightarrow> sys_inv (S\<lparr>server := s', conns := fmupd i c' (conns S)\<rparr>)"
    and "env_ok uni (ev se) \<Longrightarrow> handle_value se v c (server S) = Suspended s' c' w \<Longrightarrow> sys_inv (S\<lparr>server := s', conns := fmupd i c' (conns S)\<rparr>)"
    and "resume se w c (server S) = Sent s' c' out \<Longrightarrow> sys_inv (S\<lparr>server := s', conns := fmupd i c' (conns S)\<rparr>)"
    and "resume se w c (server S) = Suspended s' c' w' \<Longrightarrow> sys_inv (S\<lparr>server := s', conns := fmupd i c' (conns S)\<rparr>)"
  using conn_results(1) [OF assms, of se v] conn_results(2) [OF assms, of se w] sys_inv_conn_step [OF assms]
  by (auto simp: result_ok_def env_ok_def)

lemma subscribed_receive: "subscribed (fst (receive ch ps)) c ch' = subscribed ps c ch'"
  by (simp add: receive_def subscribed_def split: option.splits list.splits)

lemma server_ok_sweep: "server_ok s \<Longrightarrow> server_ok (expiry_tick e s)"
  by (auto simp: server_ok_def expiry_tick_def MultiDB_SweepExpired_def list_all_iff intro: db_wf_SweepExpired)

text \<open>The clean-up of a connection releases all its channels and no others.\<close>

lemma disconnect_step:
  assumes "sys_inv S" and "fmlookup (conns S) i = Some c"
  obtains s' where "disconnect iter c (server S) = Some s'"
    "server_ok s'" "subs_ok (Broker (databases s')) (fmdrop i (conns S))"
proof -
  let ?ps = "Broker (databases (server S))"
  have ok: "server_ok (server S)" "ps_inv ?ps" "subs_ok ?ps (conns S)"
    using assms(1) by (simp_all add: sys_inv_def server_ok_def)
  obtain sm' ps' out' where u: "unsubscribe_loop (range_keys iter (subscriptions c)) (subscriptions c) ?ps [] = Some (sm', ps', out')"
    "sub_rel (subscriptions c) ?ps sm' ps'"
    using unsubscribe_loop_rel [OF ok(2) sys_inv_held [OF assms]] by blast
  then have rel: "sub_rel (subscriptions c) ?ps (subscriptions (c\<lparr>subscriptions := fmempty\<rparr>)) ps'"
    by (auto simp: sub_rel_def held_def)
  show thesis
    using that [of "(server S)\<lparr>databases := (databases (server S))\<lparr>Broker := ps'\<rparr>\<rparr>"] u ok
      subs_ok_step(2) [OF ok(3) assms(2) rel]
    by (simp add: disconnect_def server_ok_Broker sub_rel_def)
qed

lemma sys_step_inv:
  assumes "sys_step uni sends S S'" and "sys_inv S"
  shows "sys_inv S'"
  using assms
proof (induction rule: sys_step.induct)
  case (Accept S i)
  then show ?case
    by (auto simp: sys_inv_def subs_ok_def new_conn_def index_ok_def NumDatabases_def owns_def)
next
  case (Receive S i c se v s' c' out)
  then show ?case using conn_steps(1) by blast
next
  case (Block S i c se v s' c' w)
  then show ?case using conn_steps(2) [OF Block.prems Block.hyps(1,3,6)] by simp
next
  case (Wake S i c w se s' c' out)
  then show ?case using conn_steps(3) [OF Wake.prems Wake.hyps(1,4)] by simp
next
  case (Wait S i c w se s' c' w')
  then show ?case using conn_steps(4) [OF Wait.prems Wait.hyps(1,4)] by simp
next
  case (Close S i c iter s')
  then show ?case using disconnect_step [OF Close.prems Close.hyps(1), of iter]
    by (auto simp: sys_inv_def)
next
  case (Deliver S ch)
  then show ?case
    by (intro sys_inv_server) (auto simp: subscribed_receive sys_inv_def server_ok_def intro: ps_inv_receive)
next
  case (Sweep e S)
  then show ?case
    by (intro sys_inv_server) (simp_all add: sys_inv_def server_ok_sweep,
      simp_all add: expiry_tick_def MultiDB_SweepExpired_def)
next
  case (Tick e S fault rules)
  then show ?case by (intro sys_inv_server) (auto simp: sys_inv_def)
next
  case (BgSave se S)
  then show ?case by (intro sys_inv_server) (auto simp: sys_inv_def run_background_save_def server_ok_def)
qed

definition reach :: "(string \<Rightarrow> string) \<Rightarrow> (Value \<Rightarrow> bool) \<Rightarrow> System \<Rightarrow> System \<Rightarrow> bool" where
  "reach uni sends = (sys_step uni sends)\<^sup>*\<^sup>*"

lemma reach_inv: "reach uni sends S S' \<Longrightarrow> sys_inv S \<Longrightarrow> sys_inv S'"
  unfolding reach_def by (induction rule: rtranclp_induct) (auto intro: sys_step_inv)

lemma start_inv: "server_ok s \<Longrightarrow> sys_inv (start s)"
  by (simp add: sys_inv_def start_def subs_ok_def)

section \<open>Authentication\<close>

text \<open>The one request that opens a protected server: \<open>AUTH\<close>, in any spelling, with the password.\<close>

definition presents_password :: "(string \<Rightarrow> string) \<Rightarrow> string \<Rightarrow> Value \<Rightarrow> bool" where
  "presents_password uni pw v \<longleftrightarrow>
     Type v = ArrayType \<and> (\<exists>a b. Array v = [a, b] \<and> ToUpper uni (Str a) = ''AUTH'' \<and> Str b = pw)"

lemma handleAuth_refused:
  "password s \<noteq> [] \<Longrightarrow> \<not> (\<exists>b. args = [b] \<and> Str b = password s) \<Longrightarrow>
   \<exists>reply. handleAuth args s = (False, reply) \<and> is_error reply"
  by (cases args) (auto simp: handleAuth_def)

lemma unauthenticated_refused:
  assumes "\<not> authenticated c" and "password s \<noteq> []"
    and "\<not> presents_password (unicode_ToUpper (ev se)) (password s) v"
  shows "\<exists>reply. handle_value se v c s = Sent s c [reply] \<and> is_error reply"
proof (cases "Type v = ArrayType \<and> Array v \<noteq> [] \<and> ToUpper (unicode_ToUpper (ev se)) (Str (Array v ! 0)) = ''AUTH''")
  case True
  then obtain a args where v: "Array v = a # args" by (cases "Array v") auto
  then have "\<not> (\<exists>b. args = [b] \<and> Str b = password s)"
    using True assms(3) by (auto simp: presents_password_def)
  then obtain reply where "handleAuth args s = (False, reply)" "is_error reply"
    using handleAuth_refused [OF assms(2)] by blast
  moreover have "c\<lparr>authenticated := False\<rparr> = c" using assms(1) by simp
  ultimately show ?thesis using True v by (simp add: handle_value_def Let_def)
next
  case False
  then show ?thesis using assms(1) by (auto simp: handle_value_def Let_def)
qed

text \<open>What a server whose password nobody presents looks like at any time.\<close>

definition locked :: "Server \<Rightarrow> System \<Rightarrow> bool" where
  "locked s0 S \<longleftrightarrow> fmpred (\<lambda>_ c. \<not> authenticated c \<and> subscriptions c = fmempty) (conns S) \<and> waiting S = fmempty \<and>
     password (server S) = password s0 \<and> aof (server S) = aof s0 \<and>
     DBs (databases (server S)) = DBs (databases s0)"

lemma sweep_no_ttl: "list_all (\<lambda>db. Expires db = fmempty) dbs \<Longrightarrow> map (SweepExpired e) dbs = dbs"
  by (induction dbs) (simp_all add: Expires_empty_SweepExpired)

lemma locked_step:
  assumes "sys_step uni (\<lambda>v. \<not> presents_password uni (password s0) v) S S'" and "locked s0 S"
    and "password s0 \<noteq> []" and "list_all (\<lambda>db. Expires db = fmempty) (DBs (databases s0))"
  shows "locked s0 S'"
  using assms(1)
proof cases
  case (Accept i)
  then show ?thesis using assms(2,3) by (auto simp: locked_def new_conn_def)
next
  case (Receive i c se v s' c' out)
  then have c: "\<not> authenticated c" "password (server S) = password s0"
    using assms(2) by (auto simp: locked_def dest: fmpredD)
  then obtain reply where "handle_value se v c (server S) = Sent (server S) c [reply]"
    using unauthenticated_refused [of c "server S" se v] Receive assms(3) by (auto simp: env_ok_def)
  then have "s' = server S" "c' = c" using Receive by simp_all
  then show ?thesis using assms(2) Receive by (auto simp: locked_def dest: fmpredD)
next
  case (Block i c se v s' c' w)
  then have c: "\<not> authenticated c" "password (server S) = password s0"
    using assms(2) by (auto simp: locked_def dest: fmpredD)
  then show ?thesis
    using unauthenticated_refused [of c "server S" se v] Block assms(3) by (auto simp: env_ok_def)
next
  case (Close i c iter s')
  then have "subscriptions c = fmempty" using assms(2) by (auto simp: locked_def dest: fmpredD)
  then show ?thesis using assms(2) Close by (auto simp: locked_def disconnect_def intro: fmpred_drop)
next
  case (Sweep e)
  then show ?thesis
    using assms(2,4) by (simp add: locked_def expiry_tick_def MultiDB_SweepExpired_def sweep_no_ttl)
qed (use assms(2) in \<open>auto simp: locked_def run_background_save_def\<close>)

lemma locked_reach:
  assumes "reach uni (\<lambda>v. \<not> presents_password uni (password s0) v) (start s0) S"
    and "password s0 \<noteq> []" and "list_all (\<lambda>db. Expires db = fmempty) (DBs (databases s0))"
  shows "locked s0 S"
  using assms(1) unfolding reach_def
proof (induction rule: rtranclp_induct)
  case base
  show ?case by (simp add: locked_def start_def)
next
  case (step T U)
  then show ?case using locked_step [OF _ _ assms(2,3)] by blast
qed

section \<open>A command in two parts\<close>

text \<open>
  No lock spans the two halves of \<open>processCommand\<close>: the goroutines of two connections can run their
  commands in one order and log them in the other.  \<open>execute\<close> is the first half, \<open>log_command\<close> the second;
  the steps above take both at once.
\<close>

definition execute :: "sysenv \<Rightarrow> string \<Rightarrow> Value list \<Rightarrow> int \<Rightarrow> Server \<Rightarrow> (Server \<times> Value) option" where
  "execute se cmd args i s =
     (case (DB i (databases s), CommandHandlers cmd) of
        (Some db, Some h) \<Rightarrow>
          (case call_handler h (ev se) args db (Broker (databases s)) of
             Answer db' ps' v \<Rightarrow> Some (put_state i db' ps' s, v)
           | _ \<Rightarrow> None)
      | _ \<Rightarrow> None)"

lemma processCommand_split:
  "execute se cmd args (dbIndex c) s = Some (s', v) \<Longrightarrow> cmd \<notin> {''SAVE'', ''BGSAVE'', ''LASTSAVE''} \<Longrightarrow>
   processCommand se cmd args orig c s = Sent (log_command cmd orig (dbIndex c) v s') c [v]"
  by (auto simp: execute_def processCommand_def split: option.splits outcome.splits)

lemma execute_aof: "execute se cmd args i s = Some (s', v) \<Longrightarrow> aof s' = aof s"
  by (auto simp: execute_def put_state_def split: option.splits outcome.splits)

end
