(* ===== verification/Durability.thy ===== *)
theory Durability
  imports System
begin

text \<open>
  Restarting from the append-only file.  As long as no expiry time is set and \<open>SPOP\<close> is not used
  (the log records neither expiry times nor the member a pop chose), the databases rebuilt from the
  log are the databases the server had.
\<close>

section \<open>Commands that are not logged change nothing\<close>

locale readonly_command = ttl_free_command h for h +
  assumes readonly: "Expires db = fmempty \<Longrightarrow> fst (h e args db) = db"
begin

text \<open>Without expiry times a read-only command can be repeated.\<close>

lemma readonly_repeat: "Expires db = fmempty \<Longrightarrow> snd (h e args (fst (h e' args' db))) = snd (h e args db)"
  by (simp add: readonly)

end

interpretation command_ro: readonly_command command_cmd
  by unfold_locales simp

interpretation ping_ro: readonly_command ping
  by unfold_locales (simp add: ping_def)

interpretation get_ro: readonly_command get
  by unfold_locales (auto simp: get_def Let_def split: option.splits)

interpretation exists_ro: readonly_command exists
  by unfold_locales (auto simp: exists_def case_prod_unfold exists_loop_ttl)

interpretation mget_ro: readonly_command mget
  by unfold_locales (auto simp: mget_def Let_def mget_expiry)

interpretation typeCmd_ro: readonly_command typeCmd
  by unfold_locales (auto simp: typeCmd_def GetKeyType_def Let_def)

interpretation lrange_ro: readonly_command lrange
  by unfold_locales (auto simp: lrange_def list_defs split: sum.splits option.splits)

interpretation llen_ro: readonly_command llen
  by unfold_locales (auto simp: llen_def list_defs split: option.splits)

interpretation lindex_ro: readonly_command lindex
  by unfold_locales (auto simp: lindex_def list_defs split: sum.splits option.splits)

interpretation sismember_ro: readonly_command sismember
  by unfold_locales (auto simp: sismember_def set_defs split: option.splits)

interpretation smembers_ro: readonly_command smembers
  by unfold_locales (auto simp: smembers_def set_defs split: option.splits)

interpretation scard_ro: readonly_command scard
  by unfold_locales (auto simp: scard_def set_defs split: option.splits)

interpretation sinter_ro: readonly_command sinter
  by unfold_locales (auto simp: sinter_def set_defs inter_sets_eq(4) split: option.splits)

interpretation sunion_ro: readonly_command sunion
  by unfold_locales (auto simp: sunion_def set_defs other_sets_eq(4))

interpretation sdiff_ro: readonly_command sdiff
  by unfold_locales (auto simp: sdiff_def set_defs other_sets_eq(4) split: option.splits)

interpretation hget_ro: readonly_command hget
  by unfold_locales (auto simp: hget_def hash_defs split: option.splits)

interpretation hexists_ro: readonly_command hexists
  by unfold_locales (auto simp: hexists_def hash_defs split: option.splits)

interpretation hgetall_ro: readonly_command hgetall
  by unfold_locales (auto simp: hgetall_def hash_defs split: option.splits)

interpretation hkeys_ro: readonly_command hkeys
  by unfold_locales (auto simp: hkeys_def hash_defs split: option.splits)

interpretation hvals_ro: readonly_command hvals
  by unfold_locales (auto simp: hvals_def hash_defs split: option.splits)

interpretation hlen_ro: readonly_command hlen
  by unfold_locales (auto simp: hlen_def hash_defs split: option.splits)

interpretation hmget_ro: readonly_command hmget
  by unfold_locales (auto simp: hmget_def hash_defs)

interpretation ttl_ro: readonly_command ttl
  by unfold_locales (auto simp: ttl_def ttlValue_data)

interpretation pttl_ro: readonly_command pttl
  by unfold_locales (auto simp: pttl_def ttlValue_data)

interpretation persist_ro: readonly_command persist
  by unfold_locales (auto simp: persist_def Let_def)

interpretation keysCmd_ro: readonly_command keysCmd
  by unfold_locales (auto simp: keysCmd_def sweep_simps)

interpretation scan_ro: readonly_command scan
  by unfold_locales (auto simp: scan_def keysCmd_def sweep_simps split: sum.splits)

interpretation dbsize_ro: readonly_command dbsize
  by unfold_locales (auto simp: dbsize_def sweep_simps)

interpretation hello_ro: readonly_command hello
  by unfold_locales (auto simp: hello_def)

lemmas readonly_interps =
  command_ro.readonly_command_axioms ping_ro.readonly_command_axioms get_ro.readonly_command_axioms
  exists_ro.readonly_command_axioms mget_ro.readonly_command_axioms typeCmd_ro.readonly_command_axioms
  lrange_ro.readonly_command_axioms llen_ro.readonly_command_axioms lindex_ro.readonly_command_axioms
  sismember_ro.readonly_command_axioms smembers_ro.readonly_command_axioms scard_ro.readonly_command_axioms
  sinter_ro.readonly_command_axioms sunion_ro.readonly_command_axioms sdiff_ro.readonly_command_axioms
  hget_ro.readonly_command_axioms hexists_ro.readonly_command_axioms hgetall_ro.readonly_command_axioms
  hkeys_ro.readonly_command_axioms hvals_ro.readonly_command_axioms hlen_ro.readonly_command_axioms
  hmget_ro.readonly_command_axioms ttl_ro.readonly_command_axioms pttl_ro.readonly_command_axioms
  persist_ro.readonly_command_axioms keysCmd_ro.readonly_command_axioms scan_ro.readonly_command_axioms
  dbsize_ro.readonly_command_axioms hello_ro.readonly_command_axioms

text \<open>Every handler either is logged, or is read-only, or sets expiry times.\<close>

lemma unlogged_Runs:
  assumes "CommandHandlers cmd = Some (Runs h)" and "\<not> shouldPersist cmd" and "cmd \<notin> {''EXPIRE'', ''PEXPIRE''}"
  shows "readonly_command h"
proof -
  have "(cmd, Runs h) \<in> set handler_table"
    using map_of_SomeD [OF assms(1) [unfolded CommandHandlers_def]] .
  then show ?thesis
    using assms(2,3) unfolding handler_table_def list.set insert_iff empty_iff prod.inject
    by (elim disjE conjE; simp add: shouldPersist_def readonly_interps)
qed

lemma spop_Runs: "CommandHandlers cmd = Some (Runs h) \<Longrightarrow> cmd = ''SPOP'' \<Longrightarrow> h = spop"
  by (simp add: CommandHandlers_def handler_table_def)

lemma ttl_free_Runs:
  assumes "CommandHandlers cmd = Some (Runs h)" and "cmd \<notin> {''EXPIRE'', ''PEXPIRE''}"
  shows "ttl_free_command h"
proof (cases "shouldPersist cmd")
  case True
  show ?thesis
  proof (cases "cmd = ''SPOP''")
    case True
    then show ?thesis using spop_Runs [OF assms(1)] spop.ttl_free_command_axioms by simp
  next
    case False
    then show ?thesis using True assms(1) logged_Runs logged_command.axioms(1) by blast
  qed
next
  case False
  then show ?thesis using assms unlogged_Runs readonly_command.axioms(1) by blast
qed

section \<open>What a call does to a database without expiry times\<close>

lemma pop_first_no_ttl:
  "Expires db = fmempty \<Longrightarrow> Expires (fst (pop_first left t keys db)) = fmempty \<and>
     (snd (pop_first left t keys db) = None \<longrightarrow> db_wf db \<longrightarrow> fst (pop_first left t keys db) = db)"
proof (induction keys arbitrary: db)
  case (Cons k keys)
  show ?case
  proof (cases "fmlookup (Lists db) k")
    case None
    then show ?thesis using Cons by (simp add: lists.look)
  next
    case (Some l)
    obtain l' v where pop: "(if left then LPop l else RPop l) = (l', v)" by force
    show ?thesis using Cons Some by (cases v) (simp_all add: lists.look pop Let_def)
  qed
qed simp

lemma block_iter_no_ttl:
  assumes "Expires db = fmempty" and "db_wf db"
  shows "Expires (blocking_db (block_iter left t keys dl db)) = fmempty"
    and "block_iter left t keys dl db = Parked db' dl' \<Longrightarrow> db' = db"
  using pop_first_no_ttl [OF assms(1), of left t keys] assms(2)
  by (auto simp: block_iter_def split: prod.splits option.splits if_splits)

lemma blockingPop_no_ttl:
  assumes "Expires db = fmempty" and "db_wf db"
  shows "Expires (blocking_db (blockingPop e args db left)) = fmempty"
    and "blockingPop e args db left = Parked db' dl' \<Longrightarrow> db' = db"
    and "blockingPop e args db left = Replied db' v \<Longrightarrow> is_error v \<Longrightarrow> db' = db"
  using block_iter_no_ttl [OF assms] assms(1)
  by (auto simp: blockingPop_def Let_def block_iter_def
      split: if_splits option.splits float_reading.splits prod.splits)

lemma call_no_ttl:
  assumes "CommandHandlers cmd = Some h" and "cmd \<notin> {''EXPIRE'', ''PEXPIRE''}"
    and "Expires db = fmempty" and "db_wf db"
  shows "call_handler h e args db ps = Answer db' ps' v \<Longrightarrow> Expires db' = fmempty"
    and "call_handler h e args db ps = Answer db' ps' v \<Longrightarrow> is_error v \<or> \<not> shouldPersist cmd \<Longrightarrow> db' = db"
    and "call_handler h e args db ps = Waiting db' dl \<Longrightarrow> db' = db"
proof -
  have "(call_handler h e args db ps = Answer db' ps' v \<longrightarrow> Expires db' = fmempty \<and>
      (is_error v \<or> \<not> shouldPersist cmd \<longrightarrow> db' = db)) \<and> (call_handler h e args db ps = Waiting db' dl \<longrightarrow> db' = db)"
  proof (cases h)
    case (Runs f)
    then have free: "ttl_free_command f" using assms(1,2) ttl_free_Runs by blast
    have ro: "\<not> shouldPersist cmd \<Longrightarrow> fst (f e args db) = db"
      using assms(1-3) Runs unlogged_Runs readonly_command.readonly by blast
    show ?thesis
      using Runs assms(3) ro ttl_free_command.no_ttl [OF free assms(3)]
        ttl_free_command.error_fixed [OF free assms(3)]
      by (auto simp: call_handler_def split: prod.splits) (metis fst_conv snd_conv)+
  next
    case (Waits f)
    then obtain left where left: "cmd = (if left then ''BLPOP'' else ''BRPOP'')" "f = (\<lambda>e args db. blockingPop e args db left)"
      using assms(1) logged_Waits by blast
    then have "shouldPersist cmd" by (simp add: shouldPersist_def)
    then show ?thesis
      using Waits left blockingPop_no_ttl [OF assms(3,4), of e args left]
      by (cases "blockingPop e args db left") (auto simp: call_handler_def)
  next
    case (Broadcasts f)
    then show ?thesis using assms(3) by (auto simp: call_handler_def split: option.splits)
  qed
  then show "call_handler h e args db ps = Answer db' ps' v \<Longrightarrow> Expires db' = fmempty"
    and "call_handler h e args db ps = Answer db' ps' v \<Longrightarrow> is_error v \<or> \<not> shouldPersist cmd \<Longrightarrow> db' = db"
    and "call_handler h e args db ps = Waiting db' dl \<Longrightarrow> db' = db" by blast+
qed

section \<open>The log describes the databases\<close>

definition fold_upper :: "(string \<Rightarrow> string) \<Rightarrow> bool" where
  "fold_upper uni \<longleftrightarrow> (\<forall>s. EqualFold s ''SELECT'' \<longrightarrow> ToUpper uni s = ''SELECT'')"

abbreviation command_name :: "(string \<Rightarrow> string) \<Rightarrow> Value \<Rightarrow> string" where
  "command_name uni v \<equiv> ToUpper uni (Str (Array v ! 0))"

definition durable_value :: "(string \<Rightarrow> string) \<Rightarrow> Value \<Rightarrow> bool" where
  "durable_value uni v \<longleftrightarrow> command_name uni v \<notin> {''EXPIRE'', ''PEXPIRE'', ''SPOP''}"

definition durable_entry :: "(string \<Rightarrow> string) \<Rightarrow> int \<times> Value \<Rightarrow> bool" where
  "durable_entry uni iv \<longleftrightarrow> entry_ok iv \<and> durable_value uni (snd iv)"

text \<open>
  \<open>log_describes e base m0 s\<close>: the server's log is \<open>base\<close> followed by the entries of this run, and
  replaying those entries on the databases at start-up, in environment \<open>e\<close>, gives the databases the
  server has now.
\<close>

definition log_describes :: "env \<Rightarrow> string \<Rightarrow> MultiDB \<Rightarrow> Server \<Rightarrow> bool" where
  "log_describes e base m0 s \<longleftrightarrow>
     list_all (\<lambda>db. Expires db = fmempty) (DBs (databases s)) \<and>
     (\<exists>es m. aof s = Some (write_entries es (NewAof base)) \<and> list_all (durable_entry (unicode_ToUpper e)) es \<and>
        run_entries (replay_entry e) es m0 = ReadOk m \<and> DBs m = DBs (databases s))"

lemma list_all_update: "list_all P xs \<Longrightarrow> P x \<Longrightarrow> list_all P (xs[i := x])"
  using set_update_subset_insert [of xs i x] by (auto simp: list_all_iff)

lemma log_describesI:
  "aof s = Some (write_entries es (NewAof base)) \<Longrightarrow> list_all (durable_entry (unicode_ToUpper e)) es \<Longrightarrow>
   run_entries (replay_entry e) es m0 = ReadOk m \<Longrightarrow> DBs m = DBs (databases s) \<Longrightarrow>
   list_all (\<lambda>db. Expires db = fmempty) (DBs (databases s)) \<Longrightarrow> log_describes e base m0 s"
  unfolding log_describes_def by blast

lemma not_select:
  "fold_upper uni \<Longrightarrow> command_name uni v \<noteq> ''SELECT'' \<Longrightarrow> \<not> isSelectEntry v"
  unfolding fold_upper_def isSelectEntry_def by blast

lemma write_entries_snoc: "write_entries (es @ [(i, v)]) a = Aof_Write i v (write_entries es a)"
  by (simp add: write_entries_def)

lemma DB_cong: "DBs m = DBs m' \<Longrightarrow> DB i m = DB i m'"
  by (simp add: DB_def)

lemma log_describes_cong:
  "log_describes e base m0 s \<Longrightarrow> aof s' = aof s \<Longrightarrow> DBs (databases s') = DBs (databases s) \<Longrightarrow>
   log_describes e base m0 s'"
  by (simp add: log_describes_def)

lemma DBs_put_same: "DB i (databases s) = Some db \<Longrightarrow> DBs (databases (put_state i db ps s)) = DBs (databases s)"
  by (auto simp: put_state_def set_DB_def DB_def split: if_splits)

lemma log_describes_put_same:
  assumes "log_describes e base m0 s" and "DB i (databases s) = Some db"
  shows "log_describes e base m0 (put_state i db ps s)"
  using assms(1) by (rule log_describes_cong) (simp_all add: DBs_put_same assms(2), simp add: put_state_def)

lemma log_describes_append:
  assumes "log_describes e base m0 s" and "DB i (databases s) = Some db" and "durable_entry (unicode_ToUpper e) (i, orig)"
    and "replayCommand e orig db = db'" and "Expires db' = fmempty"
  shows "log_describes e base m0
    ((put_state i db' ps s)\<lparr>aof := map_option (Aof_Write i orig) (aof s), rdb_service := r\<rparr>)"
proof -
  obtain es m where log: "aof s = Some (write_entries es (NewAof base))" "list_all (durable_entry (unicode_ToUpper e)) es"
    "run_entries (replay_entry e) es m0 = ReadOk m" "DBs m = DBs (databases s)"
    using assms(1) unfolding log_describes_def by blast
  have "DB i m = Some db" using assms(2) DB_cong [OF log(4), of i] by simp
  then have "run_entries (replay_entry e) (es @ [(i, orig)]) m0 = ReadOk (set_DB i db' m)"
    using log(3) assms(4) by (simp add: run_entries_append replay_entry_def)
  moreover have "DBs (set_DB i db' m) = DBs (databases (put_state i db' ps s))"
    using log(4) by (simp add: set_DB_def put_state_def)
  moreover have "list_all (\<lambda>db. Expires db = fmempty) (DBs (databases (put_state i db' ps s)))"
    using assms(1,5) by (simp add: log_describes_def put_state_def set_DB_def list_all_update)
  moreover have "list_all (durable_entry (unicode_ToUpper e)) (es @ [(i, orig)])" using log(2) assms(3) by simp
  moreover have "map_option (Aof_Write i orig) (aof s) = Some (write_entries (es @ [(i, orig)]) (NewAof base))"
    using log(1) by (simp add: write_entries_snoc)
  ultimately show ?thesis
    by (intro log_describesI [where es = "es @ [(i, orig)]" and m = "set_DB i db' m"]) simp_all
qed

lemma replayCommand_eq:
  "Type v = ArrayType \<Longrightarrow> Array v \<noteq> [] \<Longrightarrow> command_name (unicode_ToUpper e) v = cmd \<Longrightarrow>
   replayCommand e v db = replay_switch e cmd (drop 1 (Array v)) db"
  by (simp add: replayCommand_def)

lemma index_entry: "index_ok c \<Longrightarrow> wf_value v \<Longrightarrow> \<not> isSelectEntry v \<Longrightarrow> entry_ok (dbIndex c, v)"
  by (simp add: entry_ok_def index_ok_def NumDatabases_def)

text \<open>A command that was answered: logged with its effect, or without effect on the databases.\<close>

lemma log_describes_answer:
  assumes log: "log_describes e' base m0 s" and ok: "server_ok s" "index_ok c"
    and v: "wf_value v" "Type v = ArrayType" "Array v \<noteq> []" "\<not> isSelectEntry v"
    and cmd: "command_name (unicode_ToUpper e') v = cmd"
    and db: "DB (dbIndex c) (databases s) = Some db"
    and logged: "\<not> is_error reply \<and> shouldPersist cmd \<Longrightarrow> replay_switch e' cmd (drop 1 (Array v)) db = db'"
    and unlogged: "is_error reply \<or> \<not> shouldPersist cmd \<Longrightarrow> db' = db"
    and ttl: "Expires db' = fmempty" and dv: "durable_value (unicode_ToUpper e') v"
  shows "log_describes e' base m0 (log_command cmd v (dbIndex c) reply (put_state (dbIndex c) db' ps s))"
proof (cases "\<not> is_error reply \<and> shouldPersist cmd")
  case True
  have "replayCommand e' v db = db'" using logged [OF True] replayCommand_eq [OF v(2,3) cmd] by simp
  moreover have "durable_entry (unicode_ToUpper e') (dbIndex c, v)"
    using index_entry [OF ok(2) v(1,4)] dv by (simp add: durable_entry_def)
  ultimately have "log_describes e' base m0 ((put_state (dbIndex c) db' ps s)
      \<lparr>aof := map_option (Aof_Write (dbIndex c) v) (aof s), rdb_service := r\<rparr>)" for r
    using log_describes_append [OF log db _ _ ttl] by blast
  then
  show ?thesis using True by (simp add: log_command_def put_state_def)
next
  case False
  then have "log_command cmd v (dbIndex c) reply (put_state (dbIndex c) db' ps s) = put_state (dbIndex c) db ps s"
    using unlogged by (auto simp: log_command_def)
  then show ?thesis using log_describes_put_same [OF log db] by simp
qed

section \<open>Every step keeps the log complete\<close>

definition waiter_ok :: "(string \<Rightarrow> string) \<Rightarrow> Waiter \<Rightarrow> bool" where
  "waiter_ok uni w \<longleftrightarrow> wf_value (original w) \<and> Type (original w) = ArrayType \<and> 3 \<le> length (Array (original w)) \<and>
     command_name uni (original w) = (if from_left w then ''BLPOP'' else ''BRPOP'')"

text \<open>A value that is a command for a handler, and what \<open>handle_value\<close> does with it.\<close>

definition dispatched :: "(string \<Rightarrow> string) \<Rightarrow> Value \<Rightarrow> Conn \<Rightarrow> bool" where
  "dispatched uni v c \<longleftrightarrow> Type v = ArrayType \<and> Array v \<noteq> [] \<and> authenticated c \<and>
     command_name uni v \<notin> {''AUTH'', ''SELECT'', ''SUBSCRIBE'', ''UNSUBSCRIBE'', ''SAVE'', ''BGSAVE'', ''LASTSAVE''} \<and>
     CommandHandlers (command_name uni v) \<noteq> None"

lemma handle_value_dispatched:
  assumes "dispatched uni v c" and "unicode_ToUpper (ev se) = uni" and "CommandHandlers (command_name uni v) = Some h"
    and "DB (dbIndex c) (databases s) = Some db"
  shows "handle_value se v c s =
    (case call_handler h (ev se) (drop 1 (Array v)) db (Broker (databases s)) of
       Crash \<Rightarrow> Down
     | Waiting db' dl \<Rightarrow> Suspended (put_state (dbIndex c) db' (Broker (databases s)) s) c
           \<lparr>from_left = (command_name uni v = ''BLPOP''), original = v, until = dl\<rparr>
     | Answer db' ps' reply \<Rightarrow>
         Sent (log_command (command_name uni v) v (dbIndex c) reply (put_state (dbIndex c) db' ps' s)) c [reply])"
  using assms by (simp add: dispatched_def handle_value_def processCommand_def Let_def)

lemma log_describes_no_ttl:
  "log_describes e base m0 s \<Longrightarrow> DB i (databases s) = Some db \<Longrightarrow> Expires db = fmempty"
  by (auto simp: log_describes_def DB_def list_all_length split: if_splits)

lemma log_describes_call:
  assumes log: "log_describes e' base m0 s" and ok: "server_ok s" "index_ok c"
    and se: "env_ok uni (ev se)" and e': "env_ok uni e'" and fold: "fold_upper uni"
    and v: "wf_value v" "durable_value uni v" "dispatched uni v c"
    and h: "CommandHandlers (command_name uni v) = Some h" and db: "DB (dbIndex c) (databases s) = Some db" "db_wf db"
  shows "call_handler h (ev se) (drop 1 (Array v)) db ps = Answer db' ps' reply \<Longrightarrow>
      log_describes e' base m0 (log_command (command_name uni v) v (dbIndex c) reply (put_state (dbIndex c) db' ps' s))"
    and "call_handler h (ev se) (drop 1 (Array v)) db ps = Waiting db' dl \<Longrightarrow>
      log_describes e' base m0 (put_state (dbIndex c) db' ps s) \<and>
      waiter_ok uni \<lparr>from_left = (command_name uni v = ''BLPOP''), original = v, until = dl\<rparr>"
proof -
  let ?cmd = "command_name uni v" and ?args = "drop 1 (Array v)"
  have uni: "unicode_ToUpper e' = uni" "fair (map_order (ev se))" "fair (map_order e')" using se e' by (simp_all add: env_ok_def)
  have d: "Type v = ArrayType" "Array v \<noteq> []" "?cmd \<noteq> ''SELECT''" using v(3) by (simp_all add: dispatched_def)
  note no_ttl = log_describes_no_ttl [OF log db(1)]
  have ex: "?cmd \<notin> {''EXPIRE'', ''PEXPIRE''}" "?cmd \<noteq> ''SPOP''" using v(2) by (auto simp: durable_value_def)
  note quiet = call_no_ttl [OF h ex(1) no_ttl db(2), of "ev se" ?args ps]
  show "log_describes e' base m0 (log_command ?cmd v (dbIndex c) reply (put_state (dbIndex c) db' ps' s))"
    if Answer: "call_handler h (ev se) ?args db ps = Answer db' ps' reply"
  proof (rule log_describes_answer [OF log ok v(1) _ _ _ _ db(1)])
    show "\<not> isSelectEntry v" using not_select [OF fold d(3)] .
    show "replay_switch e' ?cmd ?args db = db'" if "\<not> is_error reply \<and> shouldPersist ?cmd"
      using replay_call [OF h _ _ Answer _ no_ttl db(2) uni(2,3)] that ex(2) by blast
  qed (use d uni(1) v(2) quiet(1,2) [OF Answer] in auto)
  show "log_describes e' base m0 (put_state (dbIndex c) db' ps s) \<and>
      waiter_ok uni \<lparr>from_left = (?cmd = ''BLPOP''), original = v, until = dl\<rparr>"
    if Waiting: "call_handler h (ev se) ?args db ps = Waiting db' dl"
  proof -
    obtain f where f: "h = Waits f" using Waiting
      by (cases h) (auto simp: call_handler_def split: prod.splits option.splits)
    obtain left where left: "?cmd = (if left then ''BLPOP'' else ''BRPOP'')"
      "f = (\<lambda>e args db. blockingPop e args db left)" using logged_Waits h f by blast
    have "2 \<le> length ?args"
      using Waiting f left(2) by (auto simp: call_handler_def blockingPop_def split: blocking.splits if_splits)
    then show ?thesis
      using quiet(3) [OF Waiting] left(1) d v(1) log_describes_put_same [OF log db(1)] by (auto simp: waiter_ok_def)
  qed
qed

lemma log_describes_handle:
  assumes log: "log_describes e' base m0 s" and ok: "server_ok s" "index_ok c"
    and se: "env_ok uni (ev se)" and e': "env_ok uni e'" and fold: "fold_upper uni"
    and v: "wf_value v" "durable_value uni v"
  shows "case handle_value se v c s of
      Sent s' c' out \<Rightarrow> log_describes e' base m0 s'
    | Suspended s' c' w \<Rightarrow> log_describes e' base m0 s' \<and> waiter_ok uni w
    | Down \<Rightarrow> True"
proof -
  obtain db where db: "DB (dbIndex c) (databases s) = Some db" "db_wf db" using ok by (rule server_ok_DB)
  have uni: "unicode_ToUpper (ev se) = uni" using se by (simp add: env_ok_def)
  show ?thesis
  proof (cases "dispatched uni v c")
    case True
    then obtain h where h: "CommandHandlers (command_name uni v) = Some h" by (auto simp: dispatched_def)
    show ?thesis
      unfolding handle_value_dispatched [OF True uni h db(1)]
      using log_describes_call [OF log ok se e' fold v True h db] by (auto split: outcome.splits)
  next
    case False
    moreover have "log_describes e' base m0 (s\<lparr>databases := (databases s)\<lparr>Broker := ps\<rparr>\<rparr>)"
      "log_describes e' base m0 (s\<lparr>rdb_service := r\<rparr>)" "log_describes e' base m0 (s\<lparr>background_saves := n\<rparr>)" for ps r n
      using log by (simp_all add: log_describes_def)
    ultimately show ?thesis using log db(1)
      by (auto simp: dispatched_def handle_value_def processCommand_def Let_def uni split: prod.splits option.splits)
  qed
qed

lemma log_describes_resume:
  assumes log: "log_describes e' base m0 s" and ok: "server_ok s" "index_ok c"
    and e': "env_ok uni e'" and fold: "fold_upper uni" and w: "waiter_ok uni w"
  shows "case resume se w c s of
      Sent s' c' out \<Rightarrow> log_describes e' base m0 s'
    | Suspended s' c' w' \<Rightarrow> log_describes e' base m0 s' \<and> w' = w
    | Down \<Rightarrow> True"
proof -
  let ?cmd = "if from_left w then ''BLPOP'' else ''BRPOP''" and ?args = "drop 1 (Array (original w))"
  let ?ps = "Broker (databases s)"
  obtain db where db: "DB (dbIndex c) (databases s) = Some db" "db_wf db" using ok by (rule server_ok_DB)
  note no_ttl = log_describes_no_ttl [OF log db(1)]
  have v: "wf_value (original w)" "Type (original w) = ArrayType" "Array (original w) \<noteq> []"
    "2 \<le> length ?args" "command_name (unicode_ToUpper e') (original w) = ?cmd"
    using w e' by (auto simp: waiter_ok_def env_ok_def)
  have sel: "\<not> isSelectEntry (original w)"
    using not_select [OF fold, of "original w"] w by (auto simp: waiter_ok_def)
  show ?thesis
  proof (cases "block_iter (from_left w) (now (ev se)) (blocking_args ?args) (until w) db")
    case (Replied db' reply)
    have "log_describes e' base m0 (log_command ?cmd (original w) (dbIndex c) reply (put_state (dbIndex c) db' ?ps s))"
    proof (rule log_describes_answer [OF log ok v(1-3) sel v(5) db(1)])
      show "replay_switch e' ?cmd ?args db = db'" using replay_blocking [OF no_ttl v(4) Replied] .
      show "db' = db" if "is_error reply \<or> \<not> shouldPersist ?cmd"
        using that Replied by (auto simp: shouldPersist_def block_iter_def split: prod.splits option.splits if_splits)
      show "durable_value (unicode_ToUpper e') (original w)" using v(5) by (simp add: durable_value_def)
      show "Expires db' = fmempty" using block_iter_no_ttl(1) [OF no_ttl db(2)] Replied by (metis blocking_db.simps(1))
    qed
    then show ?thesis unfolding resume_def db(1) option.case Replied by simp
  next
    case (Parked db' dl)
    then have "db' = db" by (rule block_iter_no_ttl(2) [OF no_ttl db(2)])
    then show ?thesis unfolding resume_def db(1) option.case Parked
      using log_describes_put_same [OF log db(1)] by simp
  qed
qed

definition durable_system :: "env \<Rightarrow> string \<Rightarrow> MultiDB \<Rightarrow> System \<Rightarrow> bool" where
  "durable_system e base m0 S \<longleftrightarrow> log_describes e base m0 (server S) \<and>
     fmpred (\<lambda>_. waiter_ok (unicode_ToUpper e)) (waiting S)"

lemma durable_step:
  assumes "sys_step uni (durable_value uni) S S'" and "sys_inv S" and "durable_system e base m0 S"
    and "env_ok uni e" and "fold_upper uni"
  shows "durable_system e base m0 S'"
  using assms
proof (induction rule: sys_step.induct)
  case (Receive S i c se v s' c' out)
  then have "server_ok (server S)" "index_ok c" by (auto simp: sys_inv_def dest: fmpredD)
  with log_describes_handle [OF _ _ _ Receive.hyps(3) Receive.prems(3,4) Receive.hyps(4,5), of base m0 "server S" c] Receive
  show ?case by (simp add: durable_system_def)
next
  case (Block S i c se v s' c' w)
  then have "server_ok (server S)" "index_ok c" by (auto simp: sys_inv_def dest: fmpredD)
  with log_describes_handle [OF _ _ _ Block.hyps(3) Block.prems(3,4) Block.hyps(4,5), of base m0 "server S" c] Block
  show ?case by (auto simp: durable_system_def env_ok_def intro: fmpred_upd)
next
  case (Wake S i c w se s' c' out)
  then have "server_ok (server S)" "index_ok c" "waiter_ok uni w"
    by (auto simp: sys_inv_def durable_system_def env_ok_def dest: fmpredD)
  with log_describes_resume [OF _ _ _ Wake.prems(3,4), of base m0 "server S" c w se] Wake
  show ?case by (auto simp: durable_system_def)
next
  case (Wait S i c w se s' c' w')
  then have "server_ok (server S)" "index_ok c" "waiter_ok uni w"
    by (auto simp: sys_inv_def durable_system_def env_ok_def dest: fmpredD)
  with log_describes_resume [OF _ _ _ Wait.prems(3,4), of base m0 "server S" c w se] Wait
  show ?case by (auto simp: durable_system_def env_ok_def intro: fmpred_upd)
next
  case (Sweep e1 S)
  have "map (SweepExpired e1) (DBs (databases (server S))) = DBs (databases (server S))"
    using Sweep.prems(2) by (auto simp: durable_system_def log_describes_def list_all_iff
        Expires_empty_SweepExpired intro!: map_idI)
  then show ?case using Sweep
    by (auto simp: durable_system_def expiry_tick_def MultiDB_SweepExpired_def intro: log_describes_cong)
next
  case (Close S i c iter s')
  then show ?case by (auto simp: durable_system_def disconnect_def intro: log_describes_cong)
next
  case (BgSave se S)
  then show ?case by (auto simp: durable_system_def run_background_save_def intro: log_describes_cong)
qed (auto simp: durable_system_def intro: log_describes_cong)

lemma durable_reach:
  assumes "reach uni (durable_value uni) S S'" and "sys_inv S" and "durable_system e base m0 S"
    and "env_ok uni e" and "fold_upper uni"
  shows "durable_system e base m0 S' \<and> sys_inv S'"
  using assms unfolding reach_def
  by (induction rule: rtranclp_induct) (auto intro: durable_step sys_step_inv)

section \<open>Replay keeps databases well-formed\<close>

definition calm :: "Database \<Rightarrow> bool" where
  "calm db \<longleftrightarrow> db_wf db \<and> Expires db = fmempty"

lemma calm_if: "(b \<Longrightarrow> calm x) \<Longrightarrow> (\<not> b \<Longrightarrow> calm y) \<Longrightarrow> calm (if b then x else y)"
  by simp

lemma calm_upd:
  "calm db \<Longrightarrow> calm (db\<lparr>Store := a\<rparr>)"
  "calm db \<Longrightarrow> calm (db\<lparr>Store := a, Expires := fmdrop k (Expires db)\<rparr>)"
  "calm db \<Longrightarrow> l \<noteq> [] \<Longrightarrow> calm (put_list k l db)"
  "calm db \<Longrightarrow> st \<noteq> {||} \<Longrightarrow> calm (put_set k st db)"
  "calm db \<Longrightarrow> h \<noteq> fmempty \<Longrightarrow> calm (put_hash k h db)"
  "calm db \<Longrightarrow> calm (evict k db)"
  by (auto simp: calm_def intro!: db_inv)

lemma calm_drop:
  "calm db \<Longrightarrow> calm (db\<lparr>Lists := fmdrop k (fmupd k l (Lists db))\<rparr>)"
  "calm db \<Longrightarrow> calm (db\<lparr>Sets := fmdrop k (fmupd k st (Sets db))\<rparr>)"
  "calm db \<Longrightarrow> calm (db\<lparr>Hashes := fmdrop k (fmupd k h (Hashes db))\<rparr>)"
  by (auto simp: calm_def fmdrop_fmupd_same intro!: db_inv)

lemma calm_expireIfNeeded [simp]: "calm db \<Longrightarrow> expireIfNeeded t k db = db"
  by (simp add: calm_def)

lemma calm_look:
  "calm db \<Longrightarrow> GetList t k db = (db, fmlookup (Lists db) k)"
  "calm db \<Longrightarrow> GetSet t k db = (db, fmlookup (Sets db) k)"
  "calm db \<Longrightarrow> GetHash t k db = (db, fmlookup (Hashes db) k)"
  by (simp_all add: lists.look sets.look hashes.look)

lemma calm_del: "calm db \<Longrightarrow> calm (fold (\<lambda>arg db. fst (DeleteKey t (Str arg) db)) args db)"
  by (induction args arbitrary: db) (simp_all add: DeleteKey_eq calm_upd)

lemma calm_mset: "calm db \<Longrightarrow> calm (mset_loop args db)"
  by (simp add: calm_def mset_loop_wf mset_loop_ttl)

lemma calm_incr: "calm db \<Longrightarrow> calm (replayIncrement db k n)"
  by (simp add: replayIncrement_def calm_upd Let_def split: sum.splits)

lemma calm_pop: "calm db \<Longrightarrow> calm (replayListPop t args db left)"
  using pop_first_wf pop_first_no_ttl by (simp add: calm_def replayListPop_eq)

lemma calm_nonempty [simp]: "calm db \<Longrightarrow> fmlookup (Lists db) k \<noteq> Some []"
  by (auto simp: calm_def db_wf_def)

lemma calm_create:
  assumes "calm db"
  shows "(case GetOrCreateList t k db of (db', l) \<Rightarrow> put_list k (f l) db') =
      put_list k (f (list_of (fmlookup (Lists db) k))) db"
    and "(case GetOrCreateSet t k db of (db', st) \<Rightarrow> put_set k (g st) db') =
      put_set k (g (case_option {||} id (fmlookup (Sets db) k))) db"
    and "(case GetOrCreateHash t k db of (db', h) \<Rightarrow> put_hash k (j h) db') =
      put_hash k (j (hash_of (fmlookup (Hashes db) k))) db"
  using assms
  by (simp_all add: lists.create sets.create hashes.create Let_def list_of_def hash_of_def NewList_def
      NewSet_def NewHash_def split: option.splits)

lemma members_nonempty: "2 \<le> length args \<Longrightarrow> fset_of_list (map Str (drop (Suc 0) args)) \<noteq> {||}"
  by (cases "drop (Suc 0) args") auto

lemma calm_replay_switch:
  assumes "calm db" and "fair (map_order e)"
  shows "calm (replay_switch e cmd args db)"
  unfolding replay_switch_def
  using assms hmset_pairs_nonempty [of args] members_nonempty [of args]
  by (intro calm_if)
    (auto simp: calm_look calm_create Let_def LLen_def SCard_def HLen_def left.push_Nil_iff right.push_Nil_iff
      SAdd_eq HSet_def HMSet_eq fmadd_empty_iff simp del: replayListPop.simps
      intro!: calm_del calm_mset calm_incr calm_pop calm_upd calm_drop
      split: sum.splits option.splits)

section \<open>Start-up\<close>

text \<open>Neither the clock nor the iteration order of the run that replays matters.\<close>

lemma replay_switch_env:
  assumes "calm db" and "fair (map_order e)" and "fair (map_order e')" and "cmd \<noteq> ''SPOP''"
  shows "replay_switch e cmd args db = replay_switch e' cmd args db"
proof -
  have "Expires db = fmempty" using assms(1) by (simp add: calm_def)
  then have "fold (\<lambda>arg db. fst (DeleteKey (now e) (Str arg) db)) args db =
      fold (\<lambda>arg db. fst (DeleteKey (now e') (Str arg) db)) args db"
    and "replayListPop (now e) as db left = replayListPop (now e') as db left" for as left
    by (rule fold_DeleteKey_time) (use \<open>Expires db = fmempty\<close> in \<open>simp add: replayListPop_eq pop_first_time\<close>)
  then show ?thesis
    using assms by (simp add: replay_switch_def calm_look calm_create Let_def HMSet_eq split: sum.splits)
qed

definition steady :: "MultiDB \<Rightarrow> bool" where
  "steady m \<longleftrightarrow> length (DBs m) = NumDatabases \<and> list_all calm (DBs m) \<and> Broker m = New"

lemma calm_replayCommand: "calm db \<Longrightarrow> fair (map_order e) \<Longrightarrow> calm (replayCommand e v db)"
  by (simp add: replayCommand_def calm_replay_switch)

lemma steady_DB: "steady m \<Longrightarrow> DB i m = Some db \<Longrightarrow> calm db"
  by (auto simp: steady_def DB_def list_all_length split: if_splits)

lemma replay_entry_steady:
  "fair (map_order e) \<Longrightarrow> steady m \<Longrightarrow> replay_entry e i v m = Some m' \<Longrightarrow> steady m'"
  using steady_DB [of m i] calm_replayCommand
  by (auto simp: replay_entry_def steady_def set_DB_def list_all_update)

lemma read_loop_invariant:
  assumes "\<And>i v st st'. P st \<Longrightarrow> fn i v st = Some st' \<Longrightarrow> P st'" and "P st"
  shows "case read_loop fn bytes i st of ReadOk st' \<Rightarrow> P st' | ReadFailed er st' \<Rightarrow> P st' | ReadPanic \<Rightarrow> True"
  using assms(2)
proof (induction bytes arbitrary: i st rule: length_induct)
  case (1 bytes)
  show ?case
  proof (cases "Parse bytes")
    case (Ok v rest)
    then have IH: "P st1 \<Longrightarrow> case read_loop fn rest j st1 of ReadOk st' \<Rightarrow> P st' | ReadFailed er st' \<Rightarrow> P st' | ReadPanic \<Rightarrow> True" for j st1
      using 1(1) Parse_consumes by blast
    show ?thesis using IH 1(2) assms(1) Ok
      by (subst read_loop.simps) (auto split: sum.splits option.splits)
  qed (subst read_loop.simps, simp add: 1(2))+
qed

lemma steady_NewMultiDB: "steady NewMultiDB"
  by (simp add: steady_def NewMultiDB_def calm_def db_wf_newDatabase list_all_length)
    (simp add: newDatabase_def)

lemma NewServer_aof:
  assumes "aofEnabled config" and "fair (map_order e)" and "NewServer e config d log = Some s"
  shows "steady (databases s)" and "aof s = Some (NewAof log)"
    and "server_ok s"
proof -
  have "case Aof_Read (replay_entry e) (NewAof log) NewMultiDB of
      ReadOk m \<Rightarrow> steady m | ReadFailed er m \<Rightarrow> steady m | ReadPanic \<Rightarrow> True"
    unfolding Aof_Read_def
    by (rule read_loop_invariant) (use replay_entry_steady [OF assms(2)] steady_NewMultiDB in auto)
  with assms(1,3) show st: "steady (databases s)" and "aof s = Some (NewAof log)"
    by (auto simp: NewServer_def split: read_result.splits)
  show "server_ok s"
    using st by (auto simp: server_ok_def steady_def calm_def list_all_iff ps_inv_New)
qed

lemma run_entries_env:
  assumes "env_ok uni e" and "env_ok uni e'" and "steady m" and "list_all (durable_entry uni) es"
  shows "run_entries (replay_entry e) es m = run_entries (replay_entry e') es m"
  using assms(3,4)
proof (induction es arbitrary: m)
  case (Cons iv es)
  obtain i v where iv: "iv = (i, v)" by (cases iv)
  have dv: "durable_value uni v" using Cons.prems iv by (simp add: durable_entry_def)
  have "replayCommand e v db = replayCommand e' v db" if "calm db" for db
    using that dv assms(1,2) replay_switch_env
    by (simp add: replayCommand_def env_ok_def durable_value_def)
  then have same: "replay_entry e i v m = replay_entry e' i v m"
    using steady_DB [OF Cons.prems(1)] by (cases "DB i m") (simp_all add: replay_entry_def)
  show ?case
  proof (cases "replay_entry e i v m")
    case (Some m')
    then have "steady m'" using replay_entry_steady Cons.prems(1) assms(1) by (auto simp: env_ok_def)
    moreover have "replay_entry e' i v m = Some m'" using same Some by simp
    ultimately show ?thesis using Cons Some by (simp add: iv)
  qed (use same in \<open>simp add: iv\<close>)
qed simp

lemma run_entries_not_failed: "run_entries fn es st \<noteq> ReadFailed er st'"
  by (induction es arbitrary: st) (auto split: option.splits)

text \<open>A run that starts from the log of earlier runs.\<close>

lemma durable_start:
  assumes "aofEnabled config" and "env_ok uni e" and "env_ok uni e'" and "NewServer e config d log = Some s0"
  shows "sys_inv (start s0)" and "durable_system e' log (databases s0) (start s0)" and "aof s0 = Some (NewAof log)"
proof -
  have "fair (map_order e)" using assms(2) by (simp add: env_ok_def)
  note start = NewServer_aof [OF assms(1) this assms(4)]
  show "sys_inv (start s0)" using start(3) by (rule start_inv)
  show "aof s0 = Some (NewAof log)" by (rule start(2))
  have "list_all (\<lambda>db. Expires db = fmempty) (DBs (databases s0))"
    using start(1) by (auto simp: steady_def calm_def list_all_iff)
  then have "log_describes e' log (databases s0) s0"
    using start(2) by (intro log_describesI [where es = "[]"]) (simp_all add: write_entries_def)
  then show "durable_system e' log (databases s0) (start s0)" by (simp add: durable_system_def start_def)
qed

text \<open>
  The databases after a restart are those before it, whatever happened in between, over any number of
  runs of the server.
\<close>

lemma restart_from_log:
  assumes conf: "aofEnabled config" and e: "env_ok uni e" "env_ok uni e'" and fold: "fold_upper uni"
    and ess: "list_all (list_all (durable_entry uni)) ess"
    and s0: "NewServer e config d (sessions ess) = Some s0"
    and run: "reach uni (durable_value uni) (start s0) S"
  shows "\<exists>es a s1. list_all (durable_entry uni) es \<and> aof (server S) = Some a \<and> contents a = sessions (ess @ [es]) \<and>
    NewServer e' config d' (contents a) = Some s1 \<and> DBs (databases s1) = DBs (databases (server S))"
proof -
  have uni: "unicode_ToUpper e' = uni" using e by (simp add: env_ok_def)
  note start = durable_start [OF conf e s0]
  have oks: "list_all (list_all entry_ok) ess" using ess by (auto simp: list_all_iff durable_entry_def)
  have "log_describes e' (sessions ess) (databases s0) (server S)"
    using durable_reach [OF run start(1,2) e(2) fold] by (simp add: durable_system_def)
  then obtain es m where es: "aof (server S) = Some (write_entries es (NewAof (sessions ess)))"
    "list_all (durable_entry uni) es" "run_entries (replay_entry e') es (databases s0) = ReadOk m"
    "DBs m = DBs (databases (server S))"
    unfolding log_describes_def uni by blast
  have bytes: "contents (write_entries es (NewAof (sessions ess))) = sessions (ess @ [es])"
    by (simp add: sessions_def)
  have read: "Aof_Read fn (NewAof (sessions xs)) st = run_entries fn (concat xs) st"
    if "list_all (list_all entry_ok) xs" for fn xs and st :: MultiDB
    using read_loop_sessions [OF that] by (simp add: Aof_Read_def NewAof_def sessions_bytes)
  have "list_all (durable_entry uni) (concat ess)" using ess by (auto simp: list_all_iff)
  then have same: "run_entries (replay_entry e) (concat ess) NewMultiDB = run_entries (replay_entry e') (concat ess) NewMultiDB"
    using e steady_NewMultiDB by (intro run_entries_env)
  have "run_entries (replay_entry e) (concat ess) NewMultiDB = ReadOk (databases s0)"
    using s0 conf read [OF oks, of "replay_entry e" NewMultiDB] run_entries_not_failed [of "replay_entry e" "concat ess" NewMultiDB]
    by (auto simp: NewServer_def split: read_result.splits)
  then have "run_entries (replay_entry e') (concat (ess @ [es])) NewMultiDB = ReadOk m"
    using es(3) same by (simp add: run_entries_append)
  moreover have "list_all (list_all entry_ok) (ess @ [es])" using oks es(2) by (auto simp: list_all_iff durable_entry_def)
  ultimately have "Aof_Read (replay_entry e') (NewAof (sessions (ess @ [es]))) NewMultiDB = ReadOk m"
    by (simp only: read)
  then show ?thesis using es bytes conf by (auto simp: NewServer_def)
qed

end
