(* ===== verification/Recovery.thy ===== *)
theory Recovery
  imports Durability
begin

text \<open>
  Restarting after a crash.  A crash can cut the append-only file inside the record that was being
  appended.  Reading such a file stops at the cut, so the server comes back in the state it had when
  the last complete record was written.  The file is not truncated at the cut, however: what the
  restarted server appends stands behind the torn bytes.
\<close>

section \<open>More input does not change what was parsed\<close>

named_theorems parse_mono

lemma ReadBytes_mono [parse_mono]: "ReadBytes d s = Ok l r \<Longrightarrow> ReadBytes d (s @ tail) = Ok l (r @ tail)"
  by (induction d s arbitrary: l rule: ReadBytes.induct) (auto split: if_splits parsed.splits)

lemma ReadBytes_Panic [simp]: "ReadBytes d s \<noteq> Panic"
  by (induction d s rule: ReadBytes.induct) (auto split: parsed.splits)

lemma ReadFull_mono [parse_mono]: "ReadFull n s = Ok b r \<Longrightarrow> ReadFull n (s @ tail) = Ok b (r @ tail)"
  by (auto simp: ReadFull_def split: if_splits)

lemma ReadFull_Panic [simp]: "ReadFull n s \<noteq> Panic"
  by (simp add: ReadFull_def)

lemma readLine_mono [parse_mono]: "readLine s = Ok l r \<Longrightarrow> readLine (s @ tail) = Ok l (r @ tail)"
  by (auto simp: readLine_def parse_mono split: parsed.splits if_splits)

lemma readLine_Panic [simp]: "readLine s \<noteq> Panic"
  by (simp add: readLine_def split: parsed.splits)

lemma read_values_mono [parse_mono]:
  "readSimpleString s = Ok v r \<Longrightarrow> readSimpleString (s @ tail) = Ok v (r @ tail)"
  "readError s = Ok v r \<Longrightarrow> readError (s @ tail) = Ok v (r @ tail)"
  "readInt s = Ok v r \<Longrightarrow> readInt (s @ tail) = Ok v (r @ tail)"
  by (auto simp: readSimpleString_def readError_def readInt_def parse_mono split: parsed.splits sum.splits)

lemma read_values_Panic [simp]:
  "readSimpleString s \<noteq> Panic" "readError s \<noteq> Panic" "readInt s \<noteq> Panic"
  by (simp_all add: readSimpleString_def readError_def readInt_def split: parsed.splits sum.splits)

lemma readBulkString_mono [parse_mono]:
  "readBulkString s = Ok v r \<Longrightarrow> readBulkString (s @ tail) = Ok v (r @ tail)"
  "readBulkString s = Panic \<Longrightarrow> readBulkString (s @ tail) = Panic"
  by (auto simp: readBulkString_def parse_mono split: parsed.splits sum.splits if_splits)

lemma Parse_mono:
  "(\<forall>v r. Parse s = Ok v r \<longrightarrow> Parse (s @ tail) = Ok v (r @ tail)) \<and>
   (Parse s = Panic \<longrightarrow> Parse (s @ tail) = Panic)"
  "(\<forall>v r. readArray s = Ok v r \<longrightarrow> readArray (s @ tail) = Ok v (r @ tail)) \<and>
   (readArray s = Panic \<longrightarrow> readArray (s @ tail) = Panic)"
  "(\<forall>vs r. readElems n s = Ok vs r \<longrightarrow> readElems n (s @ tail) = Ok vs (r @ tail)) \<and>
   (readElems n s = Panic \<longrightarrow> readElems n (s @ tail) = Panic)"
proof (induction s and s and n s rule: Parse_readArray_readElems.induct)
  case (2 prefix s)
  then show ?case by (auto simp: parse_mono)
next
  case (3 s)
  then show ?case
    by (cases "readLine s") (auto simp: readArray.simps parse_mono split: parsed.splits sum.splits if_splits)
next
  case (5 n s)
  then show ?case by (cases "Parse s") (auto split: parsed.splits)
qed simp_all

text \<open>A record that is not complete is an error, never a different value.\<close>

lemma Parse_torn:
  assumes "wf_value v" and "n < length (fst (Write v))"
  shows "\<exists>e. Parse (take n (fst (Write v))) = Err e"
proof -
  let ?w = "fst (Write v)"
  have whole: "Parse (take n ?w @ drop n ?w) = Ok v []" using Parse_Write [OF assms(1), of "[]"] by simp
  show ?thesis
  proof (cases "Parse (take n ?w)")
    case (Ok v' r)
    then show ?thesis using whole Parse_mono(1) [of "take n ?w" "drop n ?w"] assms(2) by auto
  qed (use whole Parse_mono(1) [of "take n ?w" "drop n ?w"] in auto)
qed

section \<open>Reading a torn log\<close>

text \<open>The state the callback has reached when the read ends, with or without an error.\<close>

definition read_state :: "'s read_result \<Rightarrow> 's option" where
  "read_state r = (case r of ReadOk st \<Rightarrow> Some st | ReadFailed _ st \<Rightarrow> Some st | ReadPanic \<Rightarrow> None)"

lemma read_state_simps [simp]:
  "read_state (ReadOk st) = Some st" "read_state (ReadFailed e st) = Some st" "read_state ReadPanic = None"
  by (simp_all add: read_state_def)

lemma read_loop_Err: "Parse bytes = Err e \<Longrightarrow> read_state (read_loop fn bytes i st) = Some st"
  by (subst read_loop.simps) (auto simp: read_state_def)

lemma read_loop_torn_value:
  "wf_value v \<Longrightarrow> n < length (fst (Write v)) \<Longrightarrow> read_state (read_loop fn (take n (fst (Write v))) i st) = Some st"
  by (drule (1) Parse_torn) (auto intro: read_loop_Err)

text \<open>One record of the log, with the \<open>SELECT\<close> before it: read as a whole, or cut somewhere.\<close>

lemma read_loop_record:
  assumes "entry_ok (k, v)" and "j = -1 \<or> j = i"
  shows "read_loop fn (entry_bytes j [(k, v)] @ rest) i st =
    (case fn k v st of None \<Rightarrow> ReadPanic | Some st' \<Rightarrow> read_loop fn rest k st')"
  using assms by (auto simp: entry_ok_def read_loop_select read_loop_entry)

lemma read_loop_torn_record:
  assumes ok: "entry_ok (k, v)" and j: "j = -1 \<or> j = i" and n: "n < length (entry_bytes j [(k, v)])"
  shows "read_state (read_loop fn (take n (entry_bytes j [(k, v)])) i st) = Some st"
proof -
  let ?sel = "if k \<noteq> j then fst (Write (selectEntry k)) else []"
  have k: "0 \<le> k" "k < 2 ^ 32" "wf_value v" using ok by (simp_all add: entry_ok_def)
  show ?thesis
  proof (cases "n < length ?sel")
    case True
    then show ?thesis using read_loop_torn_value [OF wf_selectEntry [OF k(1,2)]] by (auto split: if_splits)
  next
    case False
    then have "n - length ?sel < length (fst (Write v))" using n by (auto split: if_splits)
    moreover have "read_loop fn (?sel @ rest) i st = read_loop fn rest k st" for rest
      using j k by (auto simp: read_loop_select)
    ultimately show ?thesis using False read_loop_torn_value [OF k(3)] by (cases "k = j") simp_all
  qed
qed

text \<open>\<open>fits_cut j es n k\<close>: the first \<open>k\<close> records are complete in the first \<open>n\<close> bytes, the next is not.\<close>

definition fits_cut :: "int \<Rightarrow> (int \<times> Value) list \<Rightarrow> nat \<Rightarrow> nat \<Rightarrow> bool" where
  "fits_cut j es n k \<longleftrightarrow> k \<le> length es \<and> length (entry_bytes j (take k es)) \<le> n \<and>
     (k = length es \<or> n < length (entry_bytes j (take (Suc k) es)))"

lemma fits_cut_Cons:
  assumes "n \<ge> length (entry_bytes j [(i, v)])" and "fits_cut i es (n - length (entry_bytes j [(i, v)])) k"
  shows "fits_cut j ((i, v) # es) n (Suc k)"
  using assms by (auto simp: fits_cut_def)

lemma read_loop_torn:
  assumes "list_all entry_ok es" and "j = -1 \<or> j = i"
  shows "\<exists>k. fits_cut j es n k \<and>
    read_state (read_loop fn (take n (entry_bytes j es)) i st) = read_state (run_entries fn (take k es) st)"
  using assms
proof (induction es arbitrary: i j n st)
  case (Cons ev es)
  obtain k v where ev: "ev = (k, v)" by (cases ev)
  have ok: "entry_ok (k, v)" "list_all entry_ok es" using Cons.prems(1) ev by simp_all
  let ?r = "entry_bytes j [(k, v)]"
  let ?n = "n - length ?r"
  have bytes: "entry_bytes j (ev # es) = ?r @ entry_bytes k es" by (simp add: ev)
  show ?case
  proof (cases "n < length ?r")
    case True
    then have "fits_cut j (ev # es) n 0" by (simp add: fits_cut_def ev)
    then show ?thesis
      using read_loop_torn_record [OF ok(1) Cons.prems(2) True]
      by (intro exI [of _ 0]) (simp add: bytes True less_imp_le del: entry_bytes.simps)
  next
    case False
    then have loop: "read_loop fn (take n (entry_bytes j (ev # es))) i st =
        (case fn k v st of None \<Rightarrow> ReadPanic | Some st' \<Rightarrow> read_loop fn (take ?n (entry_bytes k es)) k st')"
      using read_loop_record [OF ok(1) Cons.prems(2)] by (simp add: bytes del: entry_bytes.simps)
    obtain st' where st': "fn k v st = None \<or> fn k v st = Some st'" by (cases "fn k v st") auto
    obtain m where "fits_cut k es ?n m" "read_state (read_loop fn (take ?n (entry_bytes k es)) k st') =
        read_state (run_entries fn (take m es) st')" using Cons.IH [OF ok(2), of k k ?n st'] by auto
    then show ?thesis
      using fits_cut_Cons [of j k v n es m] False st'
      by (intro exI [of _ "Suc m"]) (auto simp: loop [unfolded ev] ev simp del: entry_bytes.simps)
  qed
qed (auto simp: fits_cut_def read_loop_Nil)

lemma read_loop_sessions_append:
  assumes "list_all (list_all entry_ok) ess"
  obtains j where "\<And>st. read_loop fn (sessions ess @ rest) i st =
    (case run_entries fn (concat ess) st of
       ReadOk st' \<Rightarrow> read_loop fn rest j st' | ReadFailed e st' \<Rightarrow> ReadFailed e st' | ReadPanic \<Rightarrow> ReadPanic)"
proof -
  have "\<exists>j. \<forall>st. read_loop fn (sessions ess @ rest) i st =
    (case run_entries fn (concat ess) st of
       ReadOk st' \<Rightarrow> read_loop fn rest j st' | ReadFailed e st' \<Rightarrow> ReadFailed e st' | ReadPanic \<Rightarrow> ReadPanic)"
    using assms unfolding sessions_bytes
  proof (induction ess arbitrary: i)
    case (Cons es ess)
    let ?i = "if es = [] then i else fst (last es)"
    obtain j where "\<forall>st. read_loop fn (concat (map (entry_bytes (-1)) ess) @ rest) ?i st =
      (case run_entries fn (concat ess) st of
         ReadOk st' \<Rightarrow> read_loop fn rest j st' | ReadFailed e st' \<Rightarrow> ReadFailed e st' | ReadPanic \<Rightarrow> ReadPanic)"
      using Cons.IH [of ?i] Cons.prems by auto
    then show ?case using Cons.prems
      by (intro exI [of _ j], cases "es = []")
        (simp_all add: read_loop_entry_bytes run_entries_append split: read_result.splits)
  qed auto
  then show ?thesis using that by blast
qed

lemma read_loop_sessions_tail:
  assumes "list_all (list_all entry_ok) ess"
  shows "(\<And>j st. read_loop fn rest j st = ReadOk st) \<Longrightarrow> read_loop fn (sessions ess @ rest) i st = read_loop fn (sessions ess) i st"
    and "(\<And>j st. read_state (read_loop fn rest j st) = Some st) \<Longrightarrow>
      read_state (read_loop fn (sessions ess @ rest) i st) = read_state (read_loop fn (sessions ess) i st)"
proof -
  obtain j where j: "\<And>st. read_loop fn (sessions ess @ rest) i st =
    (case run_entries fn (concat ess) st of
       ReadOk st' \<Rightarrow> read_loop fn rest j st' | ReadFailed e st' \<Rightarrow> ReadFailed e st' | ReadPanic \<Rightarrow> ReadPanic)"
    using read_loop_sessions_append [OF assms, of fn rest i] by blast
  have whole: "read_loop fn (sessions ess) i st = run_entries fn (concat ess) st"
    using read_loop_sessions [OF assms] by (simp add: sessions_bytes)
  show "read_loop fn (sessions ess @ rest) i st = read_loop fn (sessions ess) i st" if "\<And>j st. read_loop fn rest j st = ReadOk st"
    unfolding j whole by (simp add: that split: read_result.splits)
  show "read_state (read_loop fn (sessions ess @ rest) i st) = read_state (read_loop fn (sessions ess) i st)"
    if "\<And>j st. read_state (read_loop fn rest j st) = Some st"
    unfolding j whole by (simp add: that split: read_result.splits)
qed

lemma log_torn:
  assumes "list_all (list_all entry_ok) ess" and "list_all entry_ok es"
  shows "\<exists>k. fits_cut (-1) es n k \<and>
    read_state (read_loop fn (sessions ess @ take n (entry_bytes (-1) es)) i st) =
    read_state (run_entries fn (concat ess @ take k es) st)"
proof -
  obtain j where j: "\<And>st. read_loop fn (sessions ess @ take n (entry_bytes (-1) es)) i st =
    (case run_entries fn (concat ess) st of ReadOk st' \<Rightarrow> read_loop fn (take n (entry_bytes (-1) es)) j st'
     | ReadFailed e st' \<Rightarrow> ReadFailed e st' | ReadPanic \<Rightarrow> ReadPanic)"
    using read_loop_sessions_append [OF assms(1), of fn "take n (entry_bytes (-1) es)" i] by blast
  obtain st' where st': "run_entries fn (concat ess) st = ReadPanic \<or> run_entries fn (concat ess) st = ReadOk st'"
    using run_entries_not_failed [of fn "concat ess" st] by (cases "run_entries fn (concat ess) st") auto
  obtain k where "fits_cut (-1) es n k" "read_state (read_loop fn (take n (entry_bytes (-1) es)) j st') =
      read_state (run_entries fn (take k es) st')"
    using read_loop_torn [OF assms(2), of "-1" j n fn st'] by auto
  then show ?thesis using st' by (intro exI [of _ k]) (auto simp: j run_entries_append)
qed

section \<open>The log determines its records\<close>

lemma run_entries_collect: "run_entries (\<lambda>i v st. Some (st @ [(i, v)])) es st = ReadOk (st @ es)"
  by (induction es arbitrary: st) auto

lemma write_entries_inject:
  assumes "write_entries es (NewAof b) = write_entries es' (NewAof b)"
    and "list_all entry_ok es" and "list_all entry_ok es'"
  shows "es = es'"
proof -
  have "read_loop (\<lambda>i v st. Some (st @ [(i, v)])) (entry_bytes (-1) xs) 0 [] = ReadOk xs" if "list_all entry_ok xs" for xs
    using read_loop_entry_bytes [OF that, of "-1" 0 "\<lambda>i v st. Some (st @ [(i, v)])" "[]" "[]"]
    by (simp add: run_entries_collect read_loop_Nil)
  moreover have "entry_bytes (-1) es = entry_bytes (-1) es'"
    using assms(1) write_entries_contents [of es "NewAof b"] write_entries_contents [of es' "NewAof b"]
    by (simp add: NewAof_def)
  ultimately show ?thesis using assms(2,3) by (metis read_result.inject(1))
qed

section \<open>A step appends at most one record\<close>

definition appends :: "Aof option \<Rightarrow> Aof option \<Rightarrow> bool" where
  "appends a a' \<longleftrightarrow> a' = a \<or> (\<exists>i v. entry_ok (i, v) \<and> a' = map_option (Aof_Write i v) a)"

lemma appends_refl [simp]: "appends a a"
  by (simp add: appends_def)

lemma aof_put_state [simp]: "aof (put_state i db ps s) = aof s"
  by (simp add: put_state_def)

lemma aof_log_command:
  "entry_ok (i, v) \<Longrightarrow> appends (aof s) (aof (log_command cmd v i reply (put_state j db ps s)))"
  by (auto simp: appends_def log_command_def)

lemma handle_value_appends:
  assumes "fold_upper uni" and "unicode_ToUpper (ev se) = uni" and "wf_value v" and "index_ok c"
  shows "case handle_value se v c s of
      Sent s' c' out \<Rightarrow> appends (aof s) (aof s') | Suspended s' c' w \<Rightarrow> aof s' = aof s | Down \<Rightarrow> True"
proof (cases "command_name uni v = ''SELECT''")
  case False
  then have "entry_ok (dbIndex c, v)" using assms not_select index_entry by blast
  then show ?thesis using assms(2)
    by (auto simp: handle_value_def processCommand_def Let_def aof_log_command
        split: prod.splits option.splits outcome.splits)
qed (use assms(2) in \<open>auto simp: handle_value_def Let_def split: prod.splits\<close>)

lemma resume_appends:
  assumes "fold_upper uni" and "waiter_ok uni w" and "index_ok c"
  shows "case resume se w c s of
      Sent s' c' out \<Rightarrow> appends (aof s) (aof s') | Suspended s' c' w \<Rightarrow> aof s' = aof s | Down \<Rightarrow> True"
proof -
  have "entry_ok (dbIndex c, original w)"
    using assms not_select [OF assms(1), of "original w"] index_entry by (auto simp: waiter_ok_def)
  then show ?thesis
    by (auto simp: resume_def Let_def aof_log_command split: option.splits blocking.splits)
qed

lemma step_appends:
  assumes "sys_step uni (durable_value uni) S S'" and "sys_inv S" and "durable_system e base m0 S"
    and "env_ok uni e" and "fold_upper uni"
  shows "appends (aof (server S)) (aof (server S'))"
  using assms
proof (induction rule: sys_step.induct)
  case (Receive S i c se v s' c' out)
  then have "index_ok c" by (auto simp: sys_inv_def dest: fmpredD)
  then show ?case using handle_value_appends [of uni se v c "server S"] Receive by (simp add: env_ok_def)
next
  case (Block S i c se v s' c' w)
  then have "index_ok c" by (auto simp: sys_inv_def dest: fmpredD)
  then show ?case using handle_value_appends [of uni se v c "server S"] Block by (simp add: env_ok_def)
next
  case (Wake S i c w se s' c' out)
  then have "index_ok c" "waiter_ok uni w" by (auto simp: sys_inv_def durable_system_def env_ok_def dest: fmpredD)
  then show ?case using resume_appends [of uni w c "server S" se] Wake by simp
next
  case (Wait S i c w se s' c' w')
  then have "index_ok c" "waiter_ok uni w" by (auto simp: sys_inv_def durable_system_def env_ok_def dest: fmpredD)
  then show ?case using resume_appends [of uni w c "server S" se] Wait by simp
next
  case (Close S i c iter s')
  then show ?case by (auto simp: disconnect_def)
qed (auto simp: expiry_tick_def run_background_save_def)

section \<open>The states a run passes through\<close>

lemma appends_entries:
  assumes "appends (Some (write_entries es a)) (Some a')"
  obtains es' where "list_all entry_ok es'" "length es' \<le> 1" "a' = write_entries (es @ es') a"
proof -
  consider "a' = write_entries es a" | i v where "entry_ok (i, v)" "a' = Aof_Write i v (write_entries es a)"
    using assms by (auto simp: appends_def)
  then show ?thesis
  proof cases
    case 1
    then show ?thesis using that [of "[]"] by simp
  next
    case 2
    then show ?thesis using that [of "[(i, v)]"] by (simp add: write_entries_snoc)
  qed
qed

text \<open>Every prefix of the records of a run was the whole log at some moment of the run.\<close>

lemma entries_path:
  assumes "reach uni (durable_value uni) S0 S" and "sys_inv S0" and "durable_system e base m0 S0"
    and "env_ok uni e" and "fold_upper uni" and "aof (server S0) = Some (write_entries es0 (NewAof base))"
  shows "\<exists>es. list_all entry_ok es \<and> aof (server S) = Some (write_entries (es0 @ es) (NewAof base)) \<and>
    (\<forall>k \<le> length es. \<exists>S1. reach uni (durable_value uni) S0 S1 \<and> reach uni (durable_value uni) S1 S \<and>
       aof (server S1) = Some (write_entries (es0 @ take k es) (NewAof base)))"
  using assms(1) unfolding reach_def
proof (induction rule: rtranclp_induct)
  case base
  show ?case using assms(6) by (intro exI [of _ "[]"]) auto
next
  case (step S S')
  then obtain es where es: "list_all entry_ok es" "aof (server S) = Some (write_entries (es0 @ es) (NewAof base))"
    "\<And>k. k \<le> length es \<Longrightarrow> \<exists>S1. (sys_step uni (durable_value uni))\<^sup>*\<^sup>* S0 S1 \<and>
       (sys_step uni (durable_value uni))\<^sup>*\<^sup>* S1 S \<and> aof (server S1) = Some (write_entries (es0 @ take k es) (NewAof base))"
    by blast
  have "durable_system e base m0 S" "sys_inv S"
    using durable_reach [of uni S0 S] step.hyps(1) assms(2-5) by (simp_all add: reach_def)
  then have app: "appends (aof (server S)) (aof (server S'))"
    using step_appends step.hyps(2) assms(4,5) by blast
  then obtain a' where a': "aof (server S') = Some a'" using es(2) by (auto simp: appends_def)
  then obtain es' where es': "list_all entry_ok es'" "length es' \<le> 1" "a' = write_entries ((es0 @ es) @ es') (NewAof base)"
    using appends_entries app es(2) by metis
  have "\<exists>S1. (sys_step uni (durable_value uni))\<^sup>*\<^sup>* S0 S1 \<and> (sys_step uni (durable_value uni))\<^sup>*\<^sup>* S1 S' \<and>
      aof (server S1) = Some (write_entries (es0 @ take k (es @ es')) (NewAof base))" if "k \<le> length (es @ es')" for k
  proof (cases "k \<le> length es")
    case True
    then show ?thesis using es(3) [of k] step.hyps(2) by (auto intro: rtranclp.rtrancl_into_rtrancl)
  next
    case False
    then have "take k (es @ es') = es @ es'" using that es'(2) by simp
    moreover have "(sys_step uni (durable_value uni))\<^sup>*\<^sup>* S0 S'" using step.hyps by (rule rtranclp.rtrancl_into_rtrancl)
    ultimately show ?thesis using a' es'(3) by (intro exI [of _ S']) simp
  qed
  then show ?case using es(1) es'(1,3) a' by (intro exI [of _ "es @ es'"]) simp
qed

section \<open>Recovery\<close>

lemma NewServer_databases:
  "aofEnabled config \<Longrightarrow>
   map_option databases (NewServer e config d log) = read_state (read_loop (replay_entry e) log 0 NewMultiDB)"
  by (auto simp: NewServer_def Aof_Read_def NewAof_def read_state_def split: read_result.splits)

lemma sessions_snoc: "contents (write_entries es (NewAof (sessions ess))) = sessions ess @ entry_bytes (-1) es"
  by (simp add: write_entries_contents NewAof_def)

lemma fits_cut_longest:
  assumes "fits_cut j es n k" and "length (entry_bytes j (take k' es)) \<le> n"
  shows "length (entry_bytes j (take k' es)) \<le> length (entry_bytes j (take k es))"
proof -
  have mono: "length (entry_bytes j (take m es)) \<le> length (entry_bytes j (take m' es))" if "m \<le> m'" for m m'
    using that
  proof (induction es arbitrary: j m m')
    case (Cons iv es)
    then show ?case by (cases iv; cases m; cases m') auto
  qed simp
  show ?thesis
  proof (cases "k' \<le> k")
    case False
    then have "k = length es"
      using assms mono [of "Suc k" k'] by (auto simp: fits_cut_def)
    then show ?thesis using False by simp
  qed (rule mono)
qed

lemma cut_restart:
  assumes conf: "aofEnabled config" and oks: "list_all (list_all entry_ok) ess" and es: "list_all entry_ok es"
    and n: "length (sessions ess) \<le> n"
  shows "\<exists>k. fits_cut (-1) es (n - length (sessions ess)) k \<and>
    map_option databases (NewServer e config d (take n (contents (write_entries es (NewAof (sessions ess)))))) =
    map_option databases (NewServer e config d (contents (write_entries (take k es) (NewAof (sessions ess)))))"
proof -
  let ?n = "n - length (sessions ess)"
  obtain k where k: "fits_cut (-1) es ?n k"
    "read_state (read_loop (replay_entry e) (sessions ess @ take ?n (entry_bytes (-1) es)) 0 NewMultiDB) =
     read_state (run_entries (replay_entry e) (concat ess @ take k es) NewMultiDB)"
    using log_torn [OF oks es, of ?n "replay_entry e" 0 NewMultiDB] by blast
  have "list_all (list_all entry_ok) (ess @ [take k es])"
    using oks es by (auto simp: list_all_iff dest: in_set_takeD)
  from read_loop_sessions [OF this]
  have "read_loop (replay_entry e) (sessions ess @ entry_bytes (-1) (take k es)) 0 NewMultiDB =
      run_entries (replay_entry e) (concat ess @ take k es) NewMultiDB"
    by (simp add: sessions_bytes)
  then show ?thesis using k n by (intro exI [of _ k]) (simp add: NewServer_databases [OF conf] sessions_snoc)
qed

text \<open>The log at an earlier moment of the run is a prefix of its records.\<close>

lemma earlier_log:
  assumes "reach uni (durable_value uni) S0 S1" and "reach uni (durable_value uni) S1 S"
    and "sys_inv S0" and "durable_system e base m0 S0" and "env_ok uni e" and "fold_upper uni"
    and "aof (server S0) = Some (NewAof base)"
    and "list_all entry_ok es" and "aof (server S) = Some (write_entries es (NewAof base))"
  shows "\<exists>k. aof (server S1) = Some (write_entries (take k es) (NewAof base))"
proof -
  have aof0: "aof (server S0) = Some (write_entries [] (NewAof base))" using assms(7) by (simp add: write_entries_def)
  obtain es1 where es1: "list_all entry_ok es1" "aof (server S1) = Some (write_entries es1 (NewAof base))"
    using entries_path [OF assms(1,3-6) aof0] by auto
  have "sys_inv S1 \<and> durable_system e base m0 S1" using durable_reach [OF assms(1,3-6)] by blast
  then obtain es' where "list_all entry_ok es'" "aof (server S) = Some (write_entries (es1 @ es') (NewAof base))"
    using entries_path [OF assms(2) _ _ assms(5,6) es1(2)] by blast
  then have "es = es1 @ es'" using assms(8,9) es1 by (intro write_entries_inject [of es base]) auto
  then have "take (length es1) es = es1" by simp
  then show ?thesis using es1(2) by (intro exI [of _ "length es1"]) simp
qed

lemma crash_recovery:
  assumes conf: "aofEnabled config" and e: "env_ok uni e" "env_ok uni e'" and fold: "fold_upper uni"
    and ess: "list_all (list_all (durable_entry uni)) ess"
    and s0: "NewServer e config d (sessions ess) = Some s0"
    and run: "reach uni (durable_value uni) (start s0) S" and a: "aof (server S) = Some a"
    and n: "length (sessions ess) \<le> n"
  shows "\<exists>S1 a1 s1. reach uni (durable_value uni) (start s0) S1 \<and> reach uni (durable_value uni) S1 S \<and>
    aof (server S1) = Some a1 \<and> length (contents a1) \<le> n \<and>
    NewServer e' config d' (take n (contents a)) = Some s1 \<and> DBs (databases s1) = DBs (databases (server S1)) \<and>
    (\<forall>S2 a2. reach uni (durable_value uni) (start s0) S2 \<and> reach uni (durable_value uni) S2 S \<and>
       aof (server S2) = Some a2 \<and> length (contents a2) \<le> n \<longrightarrow> length (contents a2) \<le> length (contents a1))"
proof -
  let ?b = "sessions ess" and ?reach = "reach uni (durable_value uni)"
  note start = durable_start [OF conf e s0]
  have aof0: "aof (server (start s0)) = Some (NewAof ?b)" using start(3) by (simp add: start_def)
  obtain es where es: "list_all entry_ok es" "aof (server S) = Some (write_entries es (NewAof ?b))"
    "\<And>k. k \<le> length es \<Longrightarrow> \<exists>S1. ?reach (start s0) S1 \<and> ?reach S1 S \<and> aof (server S1) = Some (write_entries (take k es) (NewAof ?b))"
    using entries_path [OF run start(1,2) e(2) fold, of "[]"] aof0 by (auto simp: write_entries_def)
  have "list_all (list_all entry_ok) ess" using ess by (auto simp: list_all_iff durable_entry_def)
  then obtain k where k: "fits_cut (-1) es (n - length ?b) k"
    "map_option databases (NewServer e' config d' (take n (contents a))) =
     map_option databases (NewServer e' config d' (contents (write_entries (take k es) (NewAof ?b))))"
    using cut_restart [OF conf _ es(1) n] a es(2) by auto
  obtain S1 where S1: "?reach (start s0) S1" "?reach S1 S" "aof (server S1) = Some (write_entries (take k es) (NewAof ?b))"
    using es(3) [of k] k(1) by (auto simp: fits_cut_def)
  obtain s1 where "NewServer e' config d' (contents (write_entries (take k es) (NewAof ?b))) = Some s1"
    "DBs (databases s1) = DBs (databases (server S1))"
    using restart_from_log [OF conf e fold ess s0 S1(1), of d'] S1(3) by auto
  then obtain s1' where s1': "NewServer e' config d' (take n (contents a)) = Some s1'"
    "DBs (databases s1') = DBs (databases (server S1))" using k(2) by auto
  have "length (contents a2) \<le> length (contents (write_entries (take k es) (NewAof ?b)))"
    if "?reach (start s0) S2" "?reach S2 S" "aof (server S2) = Some a2" "length (contents a2) \<le> n" for S2 a2
    using earlier_log [OF that(1,2) start(1,2) e(2) fold aof0 es(1,2)] that(3,4) fits_cut_longest [OF k(1)]
    by (auto simp: sessions_snoc)
  moreover have "length (contents (write_entries (take k es) (NewAof ?b))) \<le> n"
    using k(1) n by (auto simp: fits_cut_def sessions_snoc)
  ultimately show ?thesis using S1 s1' by blast
qed

section \<open>Writing behind a torn record\<close>

text \<open>
  A log cut right behind the first byte of a record ends with a lone \<open>*\<close>; the next record makes
  this an array whose length does not parse.
\<close>

lemma Parse_star: "Parse ''*'' = Err EOF"
  by (simp add: readArray.simps readLine_def)

lemma Atoi_star: "Atoi ''*2'' = Inl ErrSyntax"
  by code_simp

lemma Parse_star_array: "Parse (ArrayType # fst (Write (selectEntry i)) @ rest) = Err (InvalidArrayLength ErrSyntax)"
proof -
  have "Itoa 2 = ''2''" by code_simp
  then obtain r where r: "fst (Write (selectEntry i)) @ rest = ''*2'' @ CR # LF # r"
    by (simp add: selectEntry_def split: prod.splits)
  have "readLine (''*2'' @ CR # LF # r) = Ok ''*2'' r" by (rule readLine_CRLF) simp
  then show ?thesis unfolding r by (simp add: readArray.simps Atoi_star)
qed

lemma read_loop_behind_star:
  assumes "list_all entry_ok es"
  shows "read_state (read_loop fn (ArrayType # entry_bytes (-1) es) i st) = Some st"
proof (cases es)
  case Nil
  then show ?thesis using read_loop_Err [OF Parse_star] by simp
next
  case (Cons iv es')
  obtain k v where iv: "iv = (k, v)" by (cases iv)
  then have "k \<noteq> -1" using assms Cons by (auto simp: entry_ok_def)
  then show ?thesis using read_loop_Err [OF Parse_star_array] by (simp add: Cons iv)
qed

text \<open>
  C21.  What a server logs behind a torn record is lost.  Let a crash leave the log of any earlier runs
  with one byte of the next record behind it.  The next start reads this log to the same state as the
  complete records alone, and without an error.  But the torn byte stays in the file: whatever
  commands that server then executes and logs, the following start restores the databases
  of the earlier runs only, and none of those commands.
\<close>

theorem torn_record_hides_later_ones:
  assumes "aofEnabled config" and "list_all (list_all entry_ok) ess" and "list_all entry_ok es"
  shows "Aof_Read (replay_entry e) (NewAof (sessions ess @ ''*'')) NewMultiDB =
      Aof_Read (replay_entry e) (NewAof (sessions ess)) NewMultiDB \<and>
    map_option databases (NewServer e config d (contents (write_entries es (NewAof (sessions ess @ ''*''))))) =
      map_option databases (NewServer e config d (sessions ess))"
proof -
  have "read_loop (replay_entry e) ''*'' j st = ReadOk st" for j st
    by (subst read_loop.simps) (simp add: Parse_star del: Parse.simps)
  then have "read_loop (replay_entry e) (sessions ess @ ''*'') 0 NewMultiDB = read_loop (replay_entry e) (sessions ess) 0 NewMultiDB"
    by (intro read_loop_sessions_tail(1) assms(2))
  moreover have "read_state (read_loop (replay_entry e) (sessions ess @ ArrayType # entry_bytes (-1) es) 0 NewMultiDB) =
      read_state (read_loop (replay_entry e) (sessions ess) 0 NewMultiDB)"
    by (intro read_loop_sessions_tail(2) read_loop_behind_star assms(2,3))
  ultimately show ?thesis
    by (simp add: Aof_Read_def NewAof_def NewServer_databases [OF assms(1)] write_entries_contents)
qed

theorem torn_record_hides_later_ones_witness:
  "map_option databases (NewServer (env_at 0) (NewConfig\<lparr>aofEnabled := True\<rparr>) \<lparr>snapshot = None, tmp = None\<rparr>
     (contents (write_entries [(0, array [bulk ''SET'', bulk ''k'', bulk ''v''])] (NewAof (sessions [] @ ''*''))))) =
   Some NewMultiDB"
  using torn_record_hides_later_ones [of "NewConfig\<lparr>aofEnabled := True\<rparr>" "[]"
      "[(0, array [bulk ''SET'', bulk ''k'', bulk ''v''])]" "env_at 0" "\<lparr>snapshot = None, tmp = None\<rparr>"]
    NewServer_databases [of "NewConfig\<lparr>aofEnabled := True\<rparr>" "env_at 0" "\<lparr>snapshot = None, tmp = None\<rparr>" "[]"]
  by (simp add: entry_ok_def makeslice_ok_def value_size_def isSelectEntry_def sessions_def read_loop_Nil)

end
