(* ===== verification/Program.thy ===== *)
theory Program
  imports Durability
begin

text \<open>
  The command-line program of cmd/shoredb-server/main.go: its options, start-up from the configuration file they
  name, and the shut-down on a signal.  \<open>read_file\<close> gives the contents of a file; the flags and environment variables
  are arguments, empty when not set.
\<close>

section \<open>Options\<close>

record Options =
  ListenAddr :: string
  ConfigPath :: string

fun firstNonEmpty :: "string list \<Rightarrow> string" where
  "firstNonEmpty [] = ''''"
| "firstNonEmpty (v # vs) = (if v \<noteq> '''' then v else firstNonEmpty vs)"

definition main_options :: "string \<Rightarrow> string \<Rightarrow> string \<Rightarrow> string \<Rightarrow> Options" where
  "main_options portFlag portEnv configFlag configEnv =
     \<lparr>ListenAddr = firstNonEmpty [portFlag, portEnv, '':6379''],
      ConfigPath = firstNonEmpty [configFlag, configEnv, ''redis.config'']\<rparr>"

text \<open>The defaults \<open>New\<close> fills in for a program that embeds the server.\<close>

definition default_options :: "Options \<Rightarrow> Options" where
  "default_options opts =
     (let opts = (if ListenAddr opts = '''' then opts\<lparr>ListenAddr := '':6379''\<rparr> else opts)
      in if ConfigPath opts = '''' then opts\<lparr>ConfigPath := ''redis.config''\<rparr> else opts)"

definition boot :: "env \<Rightarrow> unicode \<Rightarrow> (string \<Rightarrow> string option) \<Rightarrow> Options \<Rightarrow> files \<Rightarrow> string \<Rightarrow> Server option" where
  "boot e u read_file opts d log = NewServer e (ReadConfig u (read_file (ConfigPath (default_options opts)))) d log"

section \<open>Facts about the options\<close>

lemma firstNonEmpty_in: "firstNonEmpty vs \<noteq> '''' \<Longrightarrow> firstNonEmpty vs \<in> set vs"
  by (induction vs) auto

lemma firstNonEmpty_first: "list_all (\<lambda>v. v = '''') vs \<Longrightarrow> v \<noteq> '''' \<Longrightarrow> firstNonEmpty (vs @ v # ws) = v"
  by (induction vs) auto

text \<open>The program's own options leave nothing for \<open>New\<close> to fill in; a flag wins over the environment, which wins over the default.\<close>

lemma main_options_complete: "default_options (main_options pf pe cf ce) = main_options pf pe cf ce"
  by (simp add: default_options_def main_options_def)

lemma main_options_priority:
  "ListenAddr (main_options pf pe cf ce) = (if pf \<noteq> '''' then pf else if pe \<noteq> '''' then pe else '':6379'')"
  "ConfigPath (main_options pf pe cf ce) = (if cf \<noteq> '''' then cf else if ce \<noteq> '''' then ce else ''redis.config'')"
  by (simp_all add: main_options_def)

section \<open>One run of the program after another\<close>

text \<open>A run ends with \<open>Shutdown\<close>, which leaves the log alone; the next run starts from that log.\<close>

lemma Shutdown_aof: "aof (fst (Shutdown se s)) = aof s"
  by (auto simp: Shutdown_def split: option.splits prod.splits)

lemma next_run:
  assumes "aofEnabled (ReadConfig u (read_file (ConfigPath (default_options opts))))"
    and "env_ok uni e" and "env_ok uni e'" and "fold_upper uni"
    and "list_all (list_all (durable_entry uni)) ess"
    and "boot e u read_file opts d (sessions ess) = Some s0"
    and "reach uni (durable_value uni) (start s0) S"
  shows "\<exists>a s1. aof (fst (Shutdown se (server S))) = Some a \<and> boot e' u read_file opts d' (contents a) = Some s1 \<and>
    DBs (databases s1) = DBs (databases (server S))"
  using restart_from_log [OF assms(1-5) assms(6) [unfolded boot_def] assms(7), of d'] Shutdown_aof [of se "server S"]
  by (auto simp: boot_def)

end
