(* ===== verification/Lifecycle.thy ===== *)
theory Lifecycle
  imports Recovery Program
begin

text \<open>
  The life of the server process around the system of \<open>System\<close>: the fsync loop of the append-only file
  (\<open>syncLoop\<close> of pkg/persistence/aof.go), the closing of the log and of the background loops in \<open>Shutdown\<close>
  (pkg/server/server.go), and how \<open>main\<close> ends.  The operating system keeps every byte that was written before a sync; of
  the later ones a loss of power leaves any prefix.  A ticker is supposed to fire on time.
\<close>

section \<open>The fsync loop\<close>

text \<open>The interval for a mode, in nanoseconds; for any other mode there is no loop.\<close>

definition syncInterval :: "string \<Rightarrow> int option" where
  "syncInterval mode =
     (if mode = ''always'' then Some (100 * Millisecond)
      else if mode = ''everysec'' then Some Second
      else None)"

record Disk =
  synced :: nat
  synced_at :: int
  clock :: int

definition log_length :: "Server \<Rightarrow> nat" where
  "log_length s = (case aof s of None \<Rightarrow> 0 | Some a \<Rightarrow> length (contents a))"

definition Sync :: "Server \<Rightarrow> Disk \<Rightarrow> Disk" where
  "Sync s d = d\<lparr>synced := log_length s, synced_at := clock d\<rparr>"

text \<open>The running server, the loop, and the passing of time.\<close>

inductive disk_step :: "(string \<Rightarrow> string) \<Rightarrow> (Value \<Rightarrow> bool) \<Rightarrow> int \<Rightarrow> System \<times> Disk \<Rightarrow> System \<times> Disk \<Rightarrow> bool"
  for uni sends interval where
  Run: "sys_step uni sends S S' \<Longrightarrow> disk_step uni sends interval (S, d) (S', d)"
| Tick: "clock d = synced_at d + interval \<Longrightarrow> disk_step uni sends interval (S, d) (S, Sync (server S) d)"
| Pass: "clock d \<le> t \<Longrightarrow> t \<le> synced_at d + interval \<Longrightarrow> disk_step uni sends interval (S, d) (S, d\<lparr>clock := t\<rparr>)"

text \<open>What the file can hold after a loss of power.\<close>

definition power_loss :: "Server \<Rightarrow> Disk \<Rightarrow> string \<Rightarrow> bool" where
  "power_loss s d bytes \<longleftrightarrow> (\<exists>a n. aof s = Some a \<and> synced d \<le> n \<and> bytes = take n (contents a))"

lemma disk_reach: "(disk_step uni sends interval)\<^sup>*\<^sup>* X Y \<Longrightarrow> reach uni sends (fst X) (fst Y)"
proof (induction rule: rtranclp_induct)
  case (step Y Z)
  from step(2) have "fst Z = fst Y \<or> sys_step uni sends (fst Y) (fst Z)" by cases auto
  then show ?case using step(3) unfolding reach_def by (auto intro: rtranclp.rtrancl_into_rtrancl)
qed (simp add: reach_def)

lemma reach_disk: "reach uni sends S S' \<Longrightarrow> (disk_step uni sends interval)\<^sup>*\<^sup>* (S, d) (S', d)"
  unfolding reach_def
proof (induction rule: rtranclp_induct)
  case (step S' S'')
  then show ?case by (meson disk_step.Run rtranclp.rtrancl_into_rtrancl)
qed simp

text \<open>At every moment the last sync is no longer ago than the interval.\<close>

definition sync_recent :: "(string \<Rightarrow> string) \<Rightarrow> (Value \<Rightarrow> bool) \<Rightarrow> int \<Rightarrow> System \<times> Disk \<Rightarrow> System \<times> Disk \<Rightarrow> bool" where
  "sync_recent uni sends interval X Y \<longleftrightarrow>
     clock (snd Y) \<le> synced_at (snd Y) + interval \<and>
     (\<exists>S2 d2. (disk_step uni sends interval)\<^sup>*\<^sup>* X (S2, d2) \<and> (disk_step uni sends interval)\<^sup>*\<^sup>* (S2, d2) Y \<and>
        clock d2 = synced_at (snd Y) \<and> synced (snd Y) = log_length (server S2))"

lemma sync_recent_step:
  assumes "(disk_step uni sends interval)\<^sup>*\<^sup>* X Y" and "sync_recent uni sends interval X Y"
    and "disk_step uni sends interval Y Z" and "0 \<le> interval"
  shows "sync_recent uni sends interval X Z"
proof -
  obtain S2 d2 where 2: "(disk_step uni sends interval)\<^sup>*\<^sup>* X (S2, d2)" "(disk_step uni sends interval)\<^sup>*\<^sup>* (S2, d2) Y"
    "clock d2 = synced_at (snd Y)" "synced (snd Y) = log_length (server S2)" "clock (snd Y) \<le> synced_at (snd Y) + interval"
    using assms(2) by (auto simp: sync_recent_def)
  have XZ: "(disk_step uni sends interval)\<^sup>*\<^sup>* X Z" "(disk_step uni sends interval)\<^sup>*\<^sup>* (S2, d2) Z"
    using assms(1,3) 2(2) by (auto intro: rtranclp.rtrancl_into_rtrancl)
  from assms(3) show ?thesis
  proof cases
    case (Tick d S)
    have "sync_recent uni sends interval X (S, Sync (server S) d)"
      unfolding sync_recent_def using XZ(1) Tick assms(4)
      by (intro conjI exI [of _ S] exI [of _ "Sync (server S) d"]) (simp_all add: Sync_def)
    then show ?thesis using Tick by simp
  next
    case (Run S S' d)
    then show ?thesis using 2 XZ unfolding sync_recent_def by auto
  next
    case (Pass d t S)
    then show ?thesis using 2 XZ unfolding sync_recent_def by auto
  qed
qed

lemma sync_recent_reach:
  assumes "(disk_step uni sends interval)\<^sup>*\<^sup>* (S, \<lparr>synced = log_length (server S), synced_at = t, clock = t\<rparr>) Y" and "0 \<le> interval"
  shows "sync_recent uni sends interval (S, \<lparr>synced = log_length (server S), synced_at = t, clock = t\<rparr>) Y"
  using assms
proof (induction rule: rtranclp_induct)
  case base
  then show ?case unfolding sync_recent_def
    by (intro conjI exI [of _ S] exI [of _ "\<lparr>synced = log_length (server S), synced_at = t, clock = t\<rparr>"]) simp_all
qed (blast intro: sync_recent_step)

text \<open>The log only grows.\<close>

lemma log_grows:
  assumes "aofEnabled config" and "env_ok uni e" and "fold_upper uni" and "NewServer e config d base = Some s0"
    and "reach uni (durable_value uni) (start s0) S1" and "reach uni (durable_value uni) S1 S"
  shows "\<exists>a1 a rest. aof (server S1) = Some a1 \<and> aof (server S) = Some a \<and> contents a = contents a1 @ rest \<and>
    length base \<le> length (contents a1)"
proof -
  note start = durable_start [OF assms(1,2,2,4)]
  have aof0: "aof (server (start s0)) = Some (write_entries [] (NewAof base))"
    using start(3) by (simp add: start_def write_entries_def)
  obtain es1 where es1: "aof (server S1) = Some (write_entries es1 (NewAof base))"
    using entries_path [OF assms(5) start(1,2) assms(2,3) aof0] by auto
  have "sys_inv S1 \<and> durable_system e base (databases s0) S1" using durable_reach [OF assms(5) start(1,2) assms(2,3)] by blast
  then obtain es2 where "aof (server S) = Some (write_entries (es1 @ es2) (NewAof base))"
    using entries_path [OF assms(6) _ _ assms(2,3) es1] by blast
  moreover have "write_entries (es1 @ es2) (NewAof base) = write_entries es2 (write_entries es1 (NewAof base))"
    by (simp add: write_entries_def)
  ultimately show ?thesis using es1 by (simp add: write_entries_contents NewAof_def)
qed

lemma power_loss_recovery:
  assumes conf: "aofEnabled config" and e: "env_ok uni e" "env_ok uni e'" and fold: "fold_upper uni"
    and ess: "list_all (list_all (durable_entry uni)) ess" and s0: "NewServer e config d (sessions ess) = Some s0"
    and run: "(disk_step uni (durable_value uni) interval)\<^sup>*\<^sup>*
      (start s0, \<lparr>synced = log_length s0, synced_at = t, clock = t\<rparr>) (S, dk)"
    and mode: "syncInterval (aofFsync config) = Some interval" and loss: "power_loss (server S) dk bytes"
  shows "\<exists>S1 s1 S2 d2. NewServer e' config d' bytes = Some s1 \<and> DBs (databases s1) = DBs (databases (server S1)) \<and>
    reach uni (durable_value uni) (start s0) S1 \<and> reach uni (durable_value uni) S1 S \<and>
    (disk_step uni (durable_value uni) interval)\<^sup>*\<^sup>* (start s0, \<lparr>synced = log_length s0, synced_at = t, clock = t\<rparr>) (S2, d2) \<and>
    (disk_step uni (durable_value uni) interval)\<^sup>*\<^sup>* (S2, d2) (S, dk) \<and> clock dk \<le> clock d2 + interval \<and>
    (\<exists>a1 a2 rest. aof (server S1) = Some a1 \<and> aof (server S2) = Some a2 \<and> contents a1 = contents a2 @ rest)"
proof -
  let ?X = "(start s0, \<lparr>synced = log_length s0, synced_at = t, clock = t\<rparr>)" and ?reach = "reach uni (durable_value uni)"
  have interval: "0 \<le> interval" using mode by (auto simp: syncInterval_def Second_def Millisecond_def split: if_splits)
  have X: "?X = (start s0, \<lparr>synced = log_length (server (start s0)), synced_at = t, clock = t\<rparr>)" by (simp add: start_def)
  obtain S2 d2 where 2: "(disk_step uni (durable_value uni) interval)\<^sup>*\<^sup>* ?X (S2, d2)"
    "(disk_step uni (durable_value uni) interval)\<^sup>*\<^sup>* (S2, d2) (S, dk)" "clock d2 = synced_at dk"
    "synced dk = log_length (server S2)" "clock dk \<le> synced_at dk + interval"
    using sync_recent_reach [of uni "durable_value uni" interval "start s0" t "(S, dk)"] run interval unfolding X
    by (auto simp: sync_recent_def)
  have r: "?reach (start s0) S2" "?reach S2 S" "?reach (start s0) S" using disk_reach 2(1,2) run by force+
  obtain a n where a: "aof (server S) = Some a" "synced dk \<le> n" "bytes = take n (contents a)"
    using loss by (auto simp: power_loss_def)
  obtain a2 rest2 where a2: "aof (server S2) = Some a2" "contents a = contents a2 @ rest2" "length (sessions ess) \<le> length (contents a2)"
    using log_grows [OF conf e(1) fold s0 r(1,2)] a(1) by auto
  then have n: "length (contents a2) \<le> n" "length (sessions ess) \<le> n" using 2(4) a(2) by (simp_all add: log_length_def)
  obtain S1 a1 s1 where 1: "?reach (start s0) S1" "?reach S1 S" "aof (server S1) = Some a1"
    "NewServer e' config d' bytes = Some s1" "DBs (databases s1) = DBs (databases (server S1))"
    "length (contents a2) \<le> length (contents a1)"
    using crash_recovery [OF conf e fold ess s0 r(3) a(1) n(2), of d'] a(3) r(1,2) a2(1) n(1) by blast
  moreover obtain rest1 where "contents a = contents a1 @ rest1" using log_grows [OF conf e(1) fold s0 1(1,2)] a(1) 1(3) by auto
  then have "\<exists>rest. contents a1 = contents a2 @ rest" using a2(2) 1(6) by (auto simp: append_eq_append_conv2 intro: sym)
  moreover have "clock dk \<le> clock d2 + interval" using 2(3,5) by simp
  ultimately show ?thesis using 2(1,2) a2(1) by blast
qed

section \<open>Closing the log and the loops\<close>

text \<open>
  A process with its server and the channels that stop its loops.  Closing a channel a second time panics (\<open>None\<close>).
  A request that is handled after the log has been closed is executed and counted as before, but
  \<open>Aof.Write\<close> fails on the closed file, which is only reported on the console.
\<close>

record Process =
  proc :: Server
  expiry_stopped :: bool
  aof_closed :: bool
  rdb_stopped :: bool

definition launch :: "Server \<Rightarrow> Process" where
  "launch s = \<lparr>proc = s, expiry_stopped = False, aof_closed = False, rdb_stopped = False\<rparr>"

definition with_log :: "Aof option \<Rightarrow> result \<Rightarrow> result" where
  "with_log a r =
     (case r of
        Sent s c out \<Rightarrow> Sent (s\<lparr>aof := a\<rparr>) c out
      | Suspended s c w \<Rightarrow> Suspended (s\<lparr>aof := a\<rparr>) c w
      | Down \<Rightarrow> Down)"

definition proc_handle :: "sysenv \<Rightarrow> Value \<Rightarrow> Conn \<Rightarrow> Process \<Rightarrow> result" where
  "proc_handle se v c p =
     (if aof_closed p then with_log (aof (proc p)) (handle_value se v c ((proc p)\<lparr>aof := None\<rparr>))
      else handle_value se v c (proc p))"

definition stop_expiry :: "Process \<Rightarrow> Process option" where
  "stop_expiry p = (if expiry_stopped p then None else Some (p\<lparr>expiry_stopped := True\<rparr>))"

definition Aof_Close :: "Process \<Rightarrow> Process option" where
  "Aof_Close p =
     (case aof (proc p) of
        None \<Rightarrow> Some p
      | Some _ \<Rightarrow> if aof_closed p then None else Some (p\<lparr>aof_closed := True\<rparr>))"

definition close_rdb :: "sysenv \<Rightarrow> Process \<Rightarrow> (Process \<times> save_error option) option" where
  "close_rdb se p =
     (case rdb_service (proc p) of
        None \<Rightarrow> Some (p, None)
      | Some r \<Rightarrow>
          if rdb_stopped p then None
          else (case Close_RDB (save_fault se) (ev se) (DBs (databases (proc p))) r of
                  (r', er) \<Rightarrow> Some (p\<lparr>proc := (proc p)\<lparr>rdb_service := Some r'\<rparr>, rdb_stopped := True\<rparr>, er)))"

definition stop_process :: "sysenv \<Rightarrow> Process \<Rightarrow> (Process \<times> save_error option) option" where
  "stop_process se p =
     (case stop_expiry p of
        None \<Rightarrow> None
      | Some p \<Rightarrow> (case Aof_Close p of None \<Rightarrow> None | Some p \<Rightarrow> close_rdb se p))"

text \<open>
  \<open>main\<close>: when the address cannot be listened on, the program exits at once with status 1 and without a shut-down;
  otherwise it waits for a signal and exits with status 0, whatever \<open>Shutdown\<close> returns.
\<close>

definition main_end :: "bool \<Rightarrow> sysenv \<Rightarrow> Process \<Rightarrow> (Process \<times> nat) option" where
  "main_end listens se p = (if listens then map_option (\<lambda>(p', er). (p', 0)) (stop_process se p) else Some (p, 1))"

text \<open>On a running process, \<open>Shutdown\<close> is the one of \<open>Server\<close>; a second one panics.\<close>

lemma stop_process_launch:
  "stop_process se (launch s) =
     Some (\<lparr>proc = fst (Shutdown se s), expiry_stopped = True, aof_closed = (aof s \<noteq> None), rdb_stopped = (rdb_service s \<noteq> None)\<rparr>,
       snd (Shutdown se s))"
  by (cases "aof s"; cases "rdb_service s")
    (simp_all add: stop_process_def launch_def stop_expiry_def Aof_Close_def close_rdb_def Shutdown_def split: prod.splits)

lemma second_shutdown_panics: "stop_process se p = Some (p', er) \<Longrightarrow> stop_process se' p' = None"
  by (auto simp: stop_process_def stop_expiry_def Aof_Close_def close_rdb_def split: if_splits option.splits prod.splits)

section \<open>Requests between the closing of the log and the end\<close>

text \<open>Requests of any connections, one after the other; \<open>None\<close> when one of them panics.\<close>

fun late_requests :: "(sysenv \<times> Value \<times> Conn) list \<Rightarrow> Process \<Rightarrow> (Process \<times> Value list list) option" where
  "late_requests [] p = Some (p, [])"
| "late_requests ((se, v, c) # rs) p =
     (case proc_handle se v c p of
        Sent s' c' out \<Rightarrow> map_option (\<lambda>(p', outs). (p', out # outs)) (late_requests rs (p\<lparr>proc := s'\<rparr>))
      | Suspended s' c' w \<Rightarrow> map_option (\<lambda>(p', outs). (p', [] # outs)) (late_requests rs (p\<lparr>proc := s'\<rparr>))
      | Down \<Rightarrow> None)"

lemma with_log_aof:
  "with_log a r = Sent s c out \<Longrightarrow> aof s = a" "with_log a r = Suspended s c w \<Longrightarrow> aof s = a"
  by (auto simp: with_log_def split: result.splits)

lemma late_requests_aof:
  "late_requests rs p = Some (p', outs) \<Longrightarrow> aof_closed p \<Longrightarrow> aof (proc p') = aof (proc p) \<and> aof_closed p'"
proof (induction rs arbitrary: p outs)
  case (Cons x rs)
  obtain se v c where x: "x = (se, v, c)" by (cases x)
  show ?case
  proof (cases "proc_handle se v c p")
    case (Sent s' c' out)
    then have "aof s' = aof (proc p)" using Cons.prems(2) by (auto simp: proc_handle_def dest: with_log_aof)
    then show ?thesis using Cons.IH [of "p\<lparr>proc := s'\<rparr>"] Cons.prems Sent by (auto simp: x)
  next
    case (Suspended s' c' w)
    then have "aof s' = aof (proc p)" using Cons.prems(2) by (auto simp: proc_handle_def dest: with_log_aof)
    then show ?thesis using Cons.IH [of "p\<lparr>proc := s'\<rparr>"] Cons.prems Suspended by (auto simp: x)
  qed (use Cons.prems in \<open>simp add: x\<close>)
qed simp

lemma late_commands_lost:
  assumes "aofEnabled config" and "env_ok uni e" and "env_ok uni e'" and "fold_upper uni"
    and "list_all (list_all (durable_entry uni)) ess" and "NewServer e config d (sessions ess) = Some s0"
    and "reach uni (durable_value uni) (start s0) S"
    and "Aof_Close (launch (server S)) = Some p" and "late_requests rs p = Some (p', outs)"
  shows "\<exists>a s1. aof (proc p') = Some a \<and> NewServer e' config d' (contents a) = Some s1 \<and>
    DBs (databases s1) = DBs (databases (server S))"
proof -
  obtain a s1 where "aof (server S) = Some a" "NewServer e' config d' (contents a) = Some s1"
    "DBs (databases s1) = DBs (databases (server S))" using restart_from_log [OF assms(1-7), of d'] by blast
  moreover from this(1) have "aof_closed p" "aof (proc p) = Some a" using assms(8) by (auto simp: Aof_Close_def launch_def)
  ultimately show ?thesis using late_requests_aof [OF assms(9)] by auto
qed

end
