(* ===== verification/Replies.thy ===== *)
theory Replies
  imports Server
begin

text \<open>
  The type of replies.  What a handler answers goes through \<open>resp.Writer\<close> to a client that has only the
  bytes: a reply must have a type the writer knows, keep to the fields of that type, and a line must not
  contain a line feed, or the client loses its place in the stream.  \<open>reply_ok\<close> is that type; a
  locale states it of a handler and is interpreted for every handler but \<open>COMMAND\<close>, which copies its
  argument into an error line.
\<close>

section \<open>Reply types\<close>

fun reply_ok :: "Value \<Rightarrow> bool" where
  "reply_ok (Value t s n vs) \<longleftrightarrow>
     (if t = SimpleString \<or> t = SimpleError then LF \<notin> set s \<and> n = 0 \<and> vs = []
      else if t = Integer then s = [] \<and> vs = []
      else if t = BulkString then n = 0 \<and> vs = []
      else if t = ArrayType then s = [] \<and> n = 0 \<and> list_all reply_ok vs
      else t = NullType \<and> s = [] \<and> n = 0 \<and> vs = [])"

text \<open>What the wire can carry: 64-bit integers, and strings and arrays a reader can allocate.\<close>

fun fits_wire :: "Value \<Rightarrow> bool" where
  "fits_wire (Value t s n vs) \<longleftrightarrow>
     (t = Integer \<longrightarrow> int64 n) \<and> (t = BulkString \<longrightarrow> makeslice_ok 1 (int (length s))) \<and>
     (t = ArrayType \<longrightarrow> makeslice_ok value_size (int (length vs)) \<and> list_all fits_wire vs)"

lemma wf_value_iff: "wf_value v \<longleftrightarrow> reply_ok v \<and> fits_wire v"
proof (induction v)
  case (Value t s n vs)
  then have "list_all wf_value vs \<longleftrightarrow> list_all reply_ok vs \<and> list_all fits_wire vs" by (auto simp: list_all_iff)
  then show ?case by auto
qed

text \<open>A reply of the right type is written without an error.\<close>

lemma Write_reply_ok: "reply_ok v \<Longrightarrow> snd (Write v)"
proof (induction v)
  case (Value t s n vs)
  then have "t = ArrayType \<Longrightarrow> list_all (\<lambda>v. snd (Write v)) vs" by (auto simp: list_all_iff)
  then show ?case using Value.prems by (auto simp: writeElems_ok split: if_splits)
qed

lemma reply_ok_arrays [simp]:
  "list_all reply_ok (map bulk ss)" "list_all reply_ok (map simple ss) \<longleftrightarrow> list_all (\<lambda>s. LF \<notin> set s) ss"
  by (simp_all add: list_all_iff)

lemma reply_ok_not_an_integer [simp]: "reply_ok not_an_integer"
  by (simp add: not_an_integer_def)

section \<open>Typed handlers\<close>

locale typed_command = command h for h +
  assumes reply_typed: "reply_ok (snd (h e args db))"
begin

text \<open>The writer accepts the reply.\<close>

lemma reply_written: "snd (Write (snd (h e args db)))"
  by (rule Write_reply_ok) (rule reply_typed)

end

lemmas string_reply_defs = increment_def GetKeyType_def Let_def case_prod_unfold list_all_iff

interpretation ping_typed: typed_command ping
  by unfold_locales (auto simp: ping_def string_reply_defs split: option.splits sum.splits prod.splits bool.splits)

interpretation set_cmd_typed: typed_command set_cmd
  by unfold_locales (auto simp: set_cmd_def string_reply_defs split: option.splits sum.splits prod.splits bool.splits)

interpretation get_typed: typed_command get
  by unfold_locales (auto simp: get_def string_reply_defs split: option.splits sum.splits prod.splits bool.splits)

interpretation del_typed: typed_command del
  by unfold_locales (auto simp: del_def string_reply_defs split: option.splits sum.splits prod.splits bool.splits)

interpretation exists_typed: typed_command exists
  by unfold_locales (auto simp: exists_def string_reply_defs split: option.splits sum.splits prod.splits bool.splits)

interpretation mset_cmd_typed: typed_command mset_cmd
  by unfold_locales (auto simp: mset_cmd_def string_reply_defs split: option.splits sum.splits prod.splits bool.splits)

interpretation mget_typed: typed_command mget
  by unfold_locales (auto simp: mget_def string_reply_defs split: option.splits sum.splits prod.splits bool.splits)

interpretation typeCmd_typed: typed_command typeCmd
  by unfold_locales (auto simp: typeCmd_def string_reply_defs split: option.splits sum.splits prod.splits bool.splits)

interpretation incr_typed: typed_command incr
  by unfold_locales (auto simp: incr_def string_reply_defs split: option.splits sum.splits prod.splits bool.splits)

interpretation decr_typed: typed_command decr
  by unfold_locales (auto simp: decr_def string_reply_defs split: option.splits sum.splits prod.splits bool.splits)

interpretation incrby_typed: typed_command incrby
  by unfold_locales (auto simp: incrby_def string_reply_defs split: option.splits sum.splits prod.splits bool.splits)

interpretation decrby_typed: typed_command decrby
  by unfold_locales (auto simp: decrby_def string_reply_defs split: option.splits sum.splits prod.splits bool.splits)

lemmas list_reply_defs = Let_def case_prod_unfold

interpretation lpush_typed: typed_command lpush
  by unfold_locales (auto simp: lpush_def list_reply_defs split: option.splits sum.splits prod.splits bool.splits)

interpretation rpush_typed: typed_command rpush
  by unfold_locales (auto simp: rpush_def list_reply_defs split: option.splits sum.splits prod.splits bool.splits)

interpretation lpop_typed: typed_command lpop
  by unfold_locales (auto simp: lpop_def list_reply_defs split: option.splits sum.splits prod.splits bool.splits)

interpretation rpop_typed: typed_command rpop
  by unfold_locales (auto simp: rpop_def list_reply_defs split: option.splits sum.splits prod.splits bool.splits)

interpretation lrange_typed: typed_command lrange
  by unfold_locales (auto simp: lrange_def list_reply_defs split: option.splits sum.splits prod.splits bool.splits)

interpretation llen_typed: typed_command llen
  by unfold_locales (auto simp: llen_def list_reply_defs split: option.splits sum.splits prod.splits bool.splits)

interpretation lindex_typed: typed_command lindex
  by unfold_locales (auto simp: lindex_def list_reply_defs split: option.splits sum.splits prod.splits bool.splits)

interpretation lset_typed: typed_command lset
  by unfold_locales (auto simp: lset_def list_reply_defs split: option.splits sum.splits prod.splits bool.splits)

interpretation lrem_typed: typed_command lrem
  by unfold_locales (auto simp: lrem_def list_reply_defs split: option.splits sum.splits prod.splits bool.splits)

lemmas set_reply_defs = Let_def case_prod_unfold

interpretation sadd_typed: typed_command sadd
  by unfold_locales (auto simp: sadd_def set_reply_defs split: option.splits sum.splits prod.splits bool.splits)

interpretation srem_typed: typed_command srem
  by unfold_locales (auto simp: srem_def set_reply_defs split: option.splits sum.splits prod.splits bool.splits)

interpretation sismember_typed: typed_command sismember
  by unfold_locales (auto simp: sismember_def set_reply_defs split: option.splits sum.splits prod.splits bool.splits)

interpretation smembers_typed: typed_command smembers
  by unfold_locales (auto simp: smembers_def set_reply_defs split: option.splits sum.splits prod.splits bool.splits)

interpretation scard_typed: typed_command scard
  by unfold_locales (auto simp: scard_def set_reply_defs split: option.splits sum.splits prod.splits bool.splits)

interpretation spop_typed: typed_command spop
  by unfold_locales (auto simp: spop_def set_reply_defs split: option.splits sum.splits prod.splits bool.splits)

interpretation sinter_typed: typed_command sinter
  by unfold_locales (auto simp: sinter_def set_reply_defs split: option.splits sum.splits prod.splits bool.splits)

interpretation sunion_typed: typed_command sunion
  by unfold_locales (auto simp: sunion_def set_reply_defs split: option.splits sum.splits prod.splits bool.splits)

interpretation sdiff_typed: typed_command sdiff
  by unfold_locales (auto simp: sdiff_def set_reply_defs split: option.splits sum.splits prod.splits bool.splits)

lemmas hash_reply_defs = Let_def case_prod_unfold list_all_iff

interpretation hset_typed: typed_command hset
  by unfold_locales (auto simp: hset_def hash_reply_defs split: option.splits sum.splits prod.splits bool.splits)

interpretation hget_typed: typed_command hget
  by unfold_locales (auto simp: hget_def hash_reply_defs split: option.splits sum.splits prod.splits bool.splits)

interpretation hdel_typed: typed_command hdel
  by unfold_locales (auto simp: hdel_def hash_reply_defs split: option.splits sum.splits prod.splits bool.splits)

interpretation hexists_typed: typed_command hexists
  by unfold_locales (auto simp: hexists_def hash_reply_defs split: option.splits sum.splits prod.splits bool.splits)

interpretation hgetall_typed: typed_command hgetall
  by unfold_locales (auto simp: hgetall_def hash_reply_defs split: option.splits sum.splits prod.splits bool.splits)

interpretation hkeys_typed: typed_command hkeys
  by unfold_locales (auto simp: hkeys_def hash_reply_defs split: option.splits sum.splits prod.splits bool.splits)

interpretation hvals_typed: typed_command hvals
  by unfold_locales (auto simp: hvals_def hash_reply_defs split: option.splits sum.splits prod.splits bool.splits)

interpretation hlen_typed: typed_command hlen
  by unfold_locales (auto simp: hlen_def hash_reply_defs split: option.splits sum.splits prod.splits bool.splits)

interpretation hmset_typed: typed_command hmset
  by unfold_locales (auto simp: hmset_def hash_reply_defs split: option.splits sum.splits prod.splits bool.splits)

interpretation hmget_typed: typed_command hmget
  by unfold_locales (auto simp: hmget_def hash_reply_defs split: option.splits sum.splits prod.splits bool.splits)

interpretation hincrby_typed: typed_command hincrby
  by unfold_locales (auto simp: hincrby_def hash_reply_defs split: option.splits sum.splits prod.splits bool.splits)

lemmas expire_reply_defs = setExpire_def ttlValue_def Let_def

interpretation expire_typed: typed_command expire
  by unfold_locales (auto simp: expire_def expire_reply_defs split: option.splits sum.splits prod.splits bool.splits)

interpretation pexpire_typed: typed_command pexpire
  by unfold_locales (auto simp: pexpire_def expire_reply_defs split: option.splits sum.splits prod.splits bool.splits)

interpretation ttl_typed: typed_command ttl
  by unfold_locales (auto simp: ttl_def expire_reply_defs split: option.splits sum.splits prod.splits bool.splits)

interpretation pttl_typed: typed_command pttl
  by unfold_locales (auto simp: pttl_def expire_reply_defs split: option.splits sum.splits prod.splits bool.splits)

interpretation persist_typed: typed_command persist
  by unfold_locales (auto simp: persist_def expire_reply_defs split: option.splits sum.splits prod.splits bool.splits)

lemmas admin_reply_defs = Let_def case_prod_unfold keysCmd_def

lemma matching_keys_typed [simp]: "list_all reply_ok (matching_keys e pat m)"
  by (auto simp: matching_keys_def list_all_iff)

interpretation keysCmd_typed: typed_command keysCmd
  by unfold_locales (auto simp: keysCmd_def admin_reply_defs split: option.splits sum.splits prod.splits bool.splits)

interpretation scan_typed: typed_command scan
  by unfold_locales (auto simp: scan_def admin_reply_defs split: option.splits sum.splits prod.splits bool.splits)

interpretation dbsize_typed: typed_command dbsize
  by unfold_locales (auto simp: dbsize_def admin_reply_defs split: option.splits sum.splits prod.splits bool.splits)

interpretation hello_typed: typed_command hello
  by unfold_locales (auto simp: hello_def admin_reply_defs split: option.splits sum.splits prod.splits bool.splits)

text \<open>\<open>COMMAND\<close>: every reply is typed but the error that repeats an unknown subcommand.\<close>

lemma spec_flags_typed: "list_all (\<lambda>sp. list_all (\<lambda>f. LF \<notin> set f) (flags sp)) commandSpecs"
  by code_simp

lemma commandInfo_typed: "sp \<in> set commandSpecs \<Longrightarrow> reply_ok (commandInfoValue e sp)"
  using spec_flags_typed by (simp add: commandInfoValue_def list_all_iff)

lemma findCommandSpec_in: "findCommandSpec e c = Some sp \<Longrightarrow> sp \<in> set commandSpecs"
  by (auto simp: findCommandSpec_def Let_def find_Some_iff)

lemma getkeys_loop_typed: "list_all reply_ok (getkeys_loop i l st args)"
proof (induction i l st args rule: getkeys_loop.induct)
  case (1 i l st args)
  then show ?case by (simp add: getkeys_loop.simps [of i])
qed

lemma getKeys_typed: "reply_ok (getKeys e args)"
  by (auto simp: getKeys_def Let_def getkeys_loop_typed split: option.splits)

lemma command_typed:
  assumes "args \<noteq> [] \<Longrightarrow> LF \<notin> set (Str (args ! 0))"
  shows "reply_ok (snd (command_cmd e args db))"
  using assms
  by (auto simp: command_cmd_def Let_def allCommandInfo_def getKeys_typed list_all_iff commandInfo_typed
      dest: findCommandSpec_in split: option.splits)

lemmas typed_interps =
  ping_typed.typed_command_axioms set_cmd_typed.typed_command_axioms get_typed.typed_command_axioms
  del_typed.typed_command_axioms exists_typed.typed_command_axioms mset_cmd_typed.typed_command_axioms
  mget_typed.typed_command_axioms typeCmd_typed.typed_command_axioms incr_typed.typed_command_axioms
  decr_typed.typed_command_axioms incrby_typed.typed_command_axioms decrby_typed.typed_command_axioms
  lpush_typed.typed_command_axioms rpush_typed.typed_command_axioms lpop_typed.typed_command_axioms
  rpop_typed.typed_command_axioms lrange_typed.typed_command_axioms llen_typed.typed_command_axioms
  lindex_typed.typed_command_axioms lset_typed.typed_command_axioms lrem_typed.typed_command_axioms
  sadd_typed.typed_command_axioms srem_typed.typed_command_axioms sismember_typed.typed_command_axioms
  smembers_typed.typed_command_axioms scard_typed.typed_command_axioms spop_typed.typed_command_axioms
  sinter_typed.typed_command_axioms sunion_typed.typed_command_axioms sdiff_typed.typed_command_axioms
  hset_typed.typed_command_axioms hget_typed.typed_command_axioms hdel_typed.typed_command_axioms
  hexists_typed.typed_command_axioms hgetall_typed.typed_command_axioms hkeys_typed.typed_command_axioms
  hvals_typed.typed_command_axioms hlen_typed.typed_command_axioms hmset_typed.typed_command_axioms
  hmget_typed.typed_command_axioms hincrby_typed.typed_command_axioms expire_typed.typed_command_axioms
  pexpire_typed.typed_command_axioms ttl_typed.typed_command_axioms pttl_typed.typed_command_axioms
  persist_typed.typed_command_axioms keysCmd_typed.typed_command_axioms scan_typed.typed_command_axioms
  dbsize_typed.typed_command_axioms hello_typed.typed_command_axioms

lemma reply_Runs: "CommandHandlers c = Some (Runs h) \<Longrightarrow> c \<noteq> ''COMMAND'' \<Longrightarrow> typed_command h"
  unfolding CommandHandlers_def handler_table_def
  by (drule map_of_SomeD, elim set_ConsD [THEN disjE]) (simp_all add: typed_interps)

section \<open>Everything a connection is sent\<close>

text \<open>
  Two replies repeat text of the request in a line: the error for an unknown command and the error for an
  unknown subcommand of \<open>COMMAND\<close>.  A third repeats the text of a failed system call.
\<close>

definition plain_request :: "(string \<Rightarrow> string) \<Rightarrow> Value \<Rightarrow> bool" where
  "plain_request uni v \<longleftrightarrow> Array v = [] \<or>
     (let c = ToUpper uni (Str (Array v ! 0)) in
      LF \<notin> set c \<and> (c = ''COMMAND'' \<and> 2 \<le> length (Array v) \<longrightarrow> LF \<notin> set (Str (Array v ! 1))))"

lemma block_iter_typed: "block_iter left t keys dl db = Replied db' v \<Longrightarrow> reply_ok v"
  by (auto simp: block_iter_def split: prod.splits option.splits if_splits)

lemma blockingPop_typed: "blockingPop e args db left = Replied db' v \<Longrightarrow> reply_ok v"
  by (auto simp: blockingPop_def Let_def dest: block_iter_typed split: if_splits option.splits float_reading.splits)

lemma call_handler_typed:
  assumes "CommandHandlers c = Some ch" and "call_handler ch e args db ps = Answer db' ps' v"
    and "c = ''COMMAND'' \<Longrightarrow> args \<noteq> [] \<Longrightarrow> LF \<notin> set (Str (args ! 0))"
  shows "reply_ok v"
proof (cases ch)
  case (Runs h)
  have v: "v = snd (h e args db)" using assms(2) Runs by (auto simp: call_handler_def split: prod.splits)
  show ?thesis
  proof (cases "c = ''COMMAND''")
    case True
    then have "h = command_cmd" using assms(1) Runs by (simp add: CommandHandlers_def handler_table_def)
    then show ?thesis using command_typed assms(3) True v by blast
  next
    case False
    then show ?thesis using reply_Runs assms(1) Runs v typed_command.reply_typed by blast
  qed
next
  case (Waits h)
  then obtain left where "h e args db = blockingPop e args db left" using waits_blockingPop assms(1) by blast
  then show ?thesis
    using assms(2) Waits blockingPop_typed by (auto simp: call_handler_def split: blocking.splits)
next
  case (Broadcasts h)
  then have "h = publish" using assms(1) CommandHandlers_Broadcasts by blast
  then show ?thesis using assms(2) Broadcasts
    by (auto simp: call_handler_def publish_def split: option.splits if_splits prod.splits)
qed

lemma handleAuth_typed: "reply_ok (snd (handleAuth args s))"
  by (simp add: handleAuth_def)

lemma handleSelect_typed: "reply_ok (snd (handleSelect args i))"
  by (auto simp: handleSelect_def split: sum.splits)

lemma handleSubscribe_typed:
  "list_all reply_ok out \<Longrightarrow> list_all reply_ok (snd (snd (handleSubscribe args sm ps out)))"
  by (induction args arbitrary: sm ps out) (auto simp: Let_def split: prod.splits)

lemma unsubscribe_loop_typed:
  "unsubscribe_loop cs sm ps out = Some (sm', ps', out') \<Longrightarrow> list_all reply_ok out \<Longrightarrow> list_all reply_ok out'"
  by (induction cs arbitrary: sm ps out) (auto split: option.splits prod.splits)

lemma rdb_replies_typed:
  "LF \<notin> set cause \<Longrightarrow> reply_ok (snd (save_cmd fault cause e dbs r))" "reply_ok (snd (bgsave r))" "reply_ok (lastsave r)"
proof -
  have "LF \<notin> set (save_message er)" for er by (cases er) simp_all
  then show "LF \<notin> set cause \<Longrightarrow> reply_ok (snd (save_cmd fault cause e dbs r))"
    by (auto simp: save_cmd_def not_configured_def split: option.splits prod.splits)
qed (auto simp: bgsave_def lastsave_def not_configured_def split: option.splits)

lemma processCommand_typed:
  assumes "processCommand se cmd args v c s = Sent s' c' out" and "LF \<notin> set (fault_text se)" and "LF \<notin> set cmd"
    and "cmd = ''COMMAND'' \<Longrightarrow> args \<noteq> [] \<Longrightarrow> LF \<notin> set (Str (args ! 0))"
  shows "list_all reply_ok out"
proof -
  obtain db where db: "DB (dbIndex c) (databases s) = Some db"
    using assms(1) by (auto simp: processCommand_def split: option.splits)
  show ?thesis
  proof (cases "cmd \<in> {''SAVE'', ''BGSAVE'', ''LASTSAVE''} \<or> CommandHandlers cmd = None")
    case True
    then show ?thesis
      using assms(1,3) db rdb_replies_typed(1) [OF assms(2)] rdb_replies_typed(2,3)
      by (auto simp: processCommand_def case_prod_unfold split: if_splits)
  next
    case False
    then obtain h where h: "CommandHandlers cmd = Some h" by auto
    then obtain db' ps' reply where "call_handler h (ev se) args db (Broker (databases s)) = Answer db' ps' reply" "out = [reply]"
      using assms(1) db False by (auto simp: processCommand_def split: outcome.splits)
    then show ?thesis using call_handler_typed [OF h _ assms(4)] by simp
  qed
qed

lemma handle_value_typed:
  assumes "handle_value se v c s = Sent s' c' out" and "LF \<notin> set (fault_text se)"
    and "plain_request (unicode_ToUpper (ev se)) v"
  shows "list_all reply_ok out"
proof -
  let ?cmd = "ToUpper (unicode_ToUpper (ev se)) (Str (Array v ! 0))" and ?args = "drop 1 (Array v)"
  have line: "LF \<notin> set ?cmd" if "Array v \<noteq> []" using that assms(3) by (simp add: plain_request_def Let_def)
  have sub: "LF \<notin> set (Str (?args ! 0))" if "?cmd = ''COMMAND''" "?args \<noteq> []"
    using assms(3) that by (cases "Array v") (auto simp: plain_request_def Let_def neq_Nil_conv)
  consider (format) "Type v \<noteq> ArrayType \<or> Array v = []"
    | (auth) "Type v = ArrayType" "Array v \<noteq> []" "?cmd = ''AUTH'' \<or> \<not> authenticated c"
    | (select) "Type v = ArrayType" "Array v \<noteq> []" "authenticated c" "?cmd = ''SELECT''"
    | (subscribe) "Type v = ArrayType" "Array v \<noteq> []" "authenticated c" "?cmd = ''SUBSCRIBE''"
    | (unsubscribe) "Type v = ArrayType" "Array v \<noteq> []" "authenticated c" "?cmd = ''UNSUBSCRIBE''"
    | (process) "Type v = ArrayType" "Array v \<noteq> []" "authenticated c"
        "?cmd \<notin> {''AUTH'', ''SELECT'', ''SUBSCRIBE'', ''UNSUBSCRIBE''}"
    by auto
  then show ?thesis
  proof cases
    case auth
    then show ?thesis using assms(1) handleAuth_typed by (auto simp: handle_value_def Let_def case_prod_unfold split: if_splits)
  next
    case select
    then show ?thesis using assms(1) handleSelect_typed by (auto simp: handle_value_def Let_def case_prod_unfold)
  next
    case subscribe
    then show ?thesis using assms(1) handleSubscribe_typed by (auto simp: handle_value_def Let_def case_prod_unfold)
  next
    case unsubscribe
    then show ?thesis using assms(1)
      by (auto simp: handle_value_def Let_def handleUnsubscribe_def dest: unsubscribe_loop_typed split: option.splits)
  next
    case process
    then have "processCommand se ?cmd ?args v c s = Sent s' c' out" using assms(1) by (simp add: handle_value_def Let_def)
    then show ?thesis using processCommand_typed [OF _ assms(2) line sub] process(2) by simp
  qed (use assms(1) in \<open>auto simp: handle_value_def\<close>)
qed

lemma resume_typed: "resume se w c s = Sent s' c' out \<Longrightarrow> list_all reply_ok out"
  by (auto simp: resume_def Let_def dest: block_iter_typed split: option.splits blocking.splits if_splits)

section \<open>Property of the replies\<close>

text \<open>
  C15.  Replies are well typed.  Whatever a connection sends in whatever state, and whichever blocked pop
  gets its turn, everything the server answers has a type the protocol knows, fills only the fields of that
  type, breaks no line, and is written without an error; a reader that can allocate it reads it back and finds the
  next reply where it begins.  The exceptions are the lines that repeat foreign text: the name of an
  unknown command or subcommand, and the text of a failed system call, when they contain a line feed.
\<close>

theorem replies_well_typed:
  assumes "handle_value se v c s = Sent s' c' out \<and> plain_request (unicode_ToUpper (ev se)) v \<and> LF \<notin> set (fault_text se) \<or>
    resume se w c s = Sent s' c' out"
  shows "list_all (\<lambda>r. reply_ok r \<and> snd (Write r) \<and> (fits_wire r \<longrightarrow> Parse (fst (Write r) @ rest) = Ok r rest)) out"
proof -
  have "list_all reply_ok out" using assms handle_value_typed resume_typed by blast
  then show ?thesis by (auto simp: list_all_iff Write_reply_ok Parse_Write wf_value_iff)
qed

theorem replies_well_typed_witness:
  "\<exists>r. handle_value \<lparr>ev = env_at 0, save_fault = None, fault_text = []\<rparr> (array [bulk ''ping'', bulk [LF]])
       \<lparr>authenticated = True, dbIndex = 0, subscriptions = fmempty\<rparr>
       \<lparr>databases = NewMultiDB, aof = None, rdb_service = None, password = [], background_saves = 0\<rparr> =
     Sent \<lparr>databases = NewMultiDB, aof = None, rdb_service = None, password = [], background_saves = 0\<rparr>
       \<lparr>authenticated = True, dbIndex = 0, subscriptions = fmempty\<rparr> [r] \<and> reply_ok r \<and> Parse (fst (Write r)) = Ok r []"
proof -
  let ?se = "\<lparr>ev = env_at 0, save_fault = None, fault_text = []\<rparr>" and ?v = "array [bulk ''ping'', bulk [LF]]"
  let ?c = "\<lparr>authenticated = True, dbIndex = 0, subscriptions = fmempty\<rparr>"
  let ?s = "\<lparr>databases = NewMultiDB, aof = None, rdb_service = None, password = [], background_saves = 0\<rparr>"
  have up: "ToUpper u ''ping'' = ''PING''" for u by (simp add: ToUpper_def, code_simp)
  have "CommandHandlers ''PING'' = Some (Runs ping)" by (simp add: CommandHandlers_def handler_table_def)
  moreover have "replicate 16 newDatabase = newDatabase # replicate 15 newDatabase" by (simp add: eval_nat_numeral)
  ultimately have h: "handle_value ?se ?v ?c ?s = Sent ?s ?c [bulk [LF]]"
    by (simp add: handle_value_def processCommand_def Let_def up DB_def call_handler_def ping_def log_command_def
        shouldPersist_def put_state_def set_DB_def NewMultiDB_def NumDatabases_def)
  moreover have "plain_request (unicode_ToUpper (ev ?se)) ?v" by (simp add: plain_request_def up)
  ultimately show ?thesis
    using replies_well_typed [of ?se ?v ?c ?s ?s ?c "[bulk [LF]]" "\<lparr>from_left = True, original = null, until = None\<rparr>" "[]"]
    by (simp add: makeslice_ok_def)
qed

text \<open>The exception is real: a line feed in the name of an unknown command ends the reply in its middle.\<close>

lemma unknown_command_splits_reply:
  assumes "DB (dbIndex c) (databases s) = Some db" and "cmd \<notin> {''SAVE'', ''BGSAVE'', ''LASTSAVE''}"
    and "CommandHandlers cmd = None" and "cmd = a @ CR # LF # b" and "LF \<notin> set a"
  obtains r rest where "processCommand se cmd args v c s = Sent s c [r]"
    "Parse (fst (Write r)) = Ok (err (''ERR unknown command '' @ [CHR 0x27] @ a)) rest" "rest = b @ [CHR 0x27, CR, LF]"
proof
  let ?r = "err (''ERR unknown command '' @ [CHR 0x27] @ cmd @ [CHR 0x27])"
  show "processCommand se cmd args v c s = Sent s c [?r]" using assms(1-3) by (simp add: processCommand_def)
  let ?l = "''ERR unknown command '' @ [CHR 0x27] @ a"
  have "fst (Write ?r) = SimpleError # ?l @ CR # LF # b @ [CHR 0x27, CR, LF]"
    by (simp add: assms(4) writeSimpleError_def)
  moreover have "readLine (?l @ CR # LF # b @ [CHR 0x27, CR, LF]) = Ok ?l (b @ [CHR 0x27, CR, LF])"
    using assms(5) by (intro readLine_CRLF) simp
  ultimately show "Parse (fst (Write ?r)) = Ok (err ?l) (b @ [CHR 0x27, CR, LF])"
    by (simp add: readError_def)
qed simp

end
