(* ===== verification/Connection.thy ===== *)
theory Connection
  imports Replies Recovery
begin

text \<open>
  A connection at the level of its bytes: the loop of \<open>handleConnection\<close> (pkg/server/tcp.go), which parses what the
  client sends and answers value by value, and \<open>safeWriter\<close>, through which the loop and the goroutines
  that forward published messages share the socket.  Between two requests of this connection the
  other connections and the background loops may change the server; what they do is a parameter.
  \<open>ok n\<close> says whether the reply to the \<open>n\<close>-th request can be written to the socket.
\<close>

section \<open>Reading a stream of values\<close>

text \<open>What a reader with this parser gets out of a byte stream, and how the stream ends.\<close>

datatype stream_end = Ended read_error | ParserPanic

function parse_all :: "string \<Rightarrow> Value list \<times> stream_end" where
  "parse_all bytes =
     (case Parse bytes of
        Err e \<Rightarrow> ([], Ended e)
      | Panic \<Rightarrow> ([], ParserPanic)
      | Ok v rest \<Rightarrow> (case parse_all rest of (vs, en) \<Rightarrow> (v # vs, en)))"
  by pat_completeness auto
termination
  by (relation "measure length") (auto dest: Parse_consumes)

declare parse_all.simps [simp del]

definition encode :: "Value list \<Rightarrow> string" where
  "encode vs = concat (map (\<lambda>v. fst (Write v)) vs)"

lemma encode_simps [simp]:
  "encode [] = []" "encode (v # vs) = fst (Write v) @ encode vs" "encode (vs @ ws) = encode vs @ encode ws"
  by (simp_all add: encode_def)

lemma parse_all_append:
  "list_all wf_value vs \<Longrightarrow> parse_all (encode vs @ rest) = (vs @ fst (parse_all rest), snd (parse_all rest))"
proof (induction vs)
  case (Cons v vs)
  then show ?case by (subst parse_all.simps) (simp add: Parse_Write)
qed simp

lemma parse_all_Nil [simp]: "parse_all [] = ([], Ended EOF)"
  by (simp add: parse_all.simps)

lemma parse_all_encode: "list_all wf_value vs \<Longrightarrow> parse_all (encode vs) = (vs, Ended EOF)"
  using parse_all_append [of vs "[]"] by simp

section \<open>The loop of a connection\<close>

text \<open>
  How the loop ends: the input is over or broken and the connection is closed, a blocking pop holds the
  goroutine while bytes wait unread, or a panic takes the server down.  In each case with the replies
  so far, one list for each request.
\<close>

datatype session =
  Hangup Server Conn "Value list list"
| Held Server Conn Waiter string "Value list list"
| Crashed "Value list list"

primrec prepend :: "Value list \<Rightarrow> session \<Rightarrow> session" where
  "prepend out (Hangup s c outs) = Hangup s c (out # outs)"
| "prepend out (Held s c w bytes outs) = Held s c w bytes (out # outs)"
| "prepend out (Crashed outs) = Crashed (out # outs)"

text \<open>
  Only the reply of \<open>processCommand\<close> is written with a look at the error, which ends the loop; the replies of the
  requests the connection handles itself are not.
\<close>

definition looks_at_error :: "sysenv \<Rightarrow> Value \<Rightarrow> Conn \<Rightarrow> bool" where
  "looks_at_error se v c \<longleftrightarrow>
     Type v = ArrayType \<and> length (Array v) \<noteq> 0 \<and> authenticated c \<and>
     ToUpper (unicode_ToUpper (ev se)) (Str (Array v ! 0)) \<notin> {''AUTH'', ''SELECT'', ''SUBSCRIBE'', ''UNSUBSCRIBE''}"

function serve ::
  "(nat \<Rightarrow> sysenv) \<Rightarrow> (nat \<Rightarrow> Server \<Rightarrow> Server) \<Rightarrow> (nat \<Rightarrow> bool) \<Rightarrow> nat \<Rightarrow> string \<Rightarrow> Conn \<Rightarrow> Server \<Rightarrow> session" where
  "serve ses others ok n bytes c s =
     (case Parse bytes of
        Err e \<Rightarrow> Hangup s c []
      | Panic \<Rightarrow> Crashed []
      | Ok v rest \<Rightarrow>
          (case handle_value (ses n) v c (others n s) of
             Down \<Rightarrow> Crashed []
           | Suspended s' c' w \<Rightarrow> Held s' c' w rest []
           | Sent s' c' out \<Rightarrow>
               if looks_at_error (ses n) v c \<and> \<not> ok n then Hangup s' c' [out]
               else prepend out (serve ses others ok (Suc n) rest c' s')))"
  by pat_completeness auto
termination
  by (relation "measure (\<lambda>(ses, others, ok, n, bytes, c, s). length bytes)") (auto dest: Parse_consumes)

declare serve.simps [simp del]

text \<open>The deferred clean-up runs when the loop returns; \<open>None\<close> is a panic.\<close>

definition handleConnection ::
  "order \<Rightarrow> (nat \<Rightarrow> sysenv) \<Rightarrow> (nat \<Rightarrow> Server \<Rightarrow> Server) \<Rightarrow> (nat \<Rightarrow> bool) \<Rightarrow> string \<Rightarrow> Server \<Rightarrow>
   (Server \<times> Value list list) option" where
  "handleConnection iter ses others ok bytes s =
     (case serve ses others ok 0 bytes (new_conn s) s of
        Hangup s' c outs \<Rightarrow> map_option (\<lambda>s''. (s'', outs)) (disconnect iter c s')
      | Held s' c w rest outs \<Rightarrow> Some (s', outs)
      | Crashed outs \<Rightarrow> None)"

text \<open>The requests one after the other, without any bytes.\<close>

fun answer_all :: "(nat \<Rightarrow> sysenv) \<Rightarrow> (nat \<Rightarrow> Server \<Rightarrow> Server) \<Rightarrow> nat \<Rightarrow> Value list \<Rightarrow> Conn \<Rightarrow> Server \<Rightarrow> session" where
  "answer_all ses others n [] c s = Hangup s c []"
| "answer_all ses others n (v # vs) c s =
     (case handle_value (ses n) v c (others n s) of
        Down \<Rightarrow> Crashed []
      | Suspended s' c' w \<Rightarrow> Held s' c' w (encode vs) []
      | Sent s' c' out \<Rightarrow> prepend out (answer_all ses others (Suc n) vs c' s'))"

lemma serve_encode:
  "list_all wf_value vs \<Longrightarrow> serve ses others (\<lambda>_. True) n (encode vs) c s = answer_all ses others n vs c s"
proof (induction vs arbitrary: n c s)
  case (Cons v vs)
  then show ?case by (subst serve.simps) (simp add: Parse_Write split: result.splits)
qed (simp add: serve.simps)

lemma prepend_Hangup: "prepend out r = Hangup s c outs \<longleftrightarrow> (\<exists>outs'. outs = out # outs' \<and> r = Hangup s c outs')"
  by (cases r) auto

lemma answer_all_typed:
  assumes "answer_all ses others n vs c s = Hangup s' c' outs" and "list_all (plain_request uni) vs"
    and "\<And>i. unicode_ToUpper (ev (ses i)) = uni \<and> LF \<notin> set (fault_text (ses i))"
  shows "length outs = length vs \<and> list_all (list_all reply_ok) outs"
  using assms(1,2)
proof (induction vs arbitrary: n c s outs)
  case (Cons v vs)
  then obtain s1 c1 out outs' where 1: "handle_value (ses n) v c (others n s) = Sent s1 c1 out"
    "answer_all ses others (Suc n) vs c1 s1 = Hangup s' c' outs'" "outs = out # outs'"
    by (auto simp: prepend_Hangup split: result.splits)
  have "list_all reply_ok out" using handle_value_typed [OF 1(1)] Cons.prems(2) assms(3) by simp
  then show ?case using Cons.IH [OF 1(2)] Cons.prems(2) 1(3) by simp
qed simp

section \<open>Any bytes at all\<close>

text \<open>What the rest of the server does between two requests must keep the invariant and this connection's channels.\<close>

definition peaceful :: "(nat \<Rightarrow> Server \<Rightarrow> Server) \<Rightarrow> bool" where
  "peaceful others \<longleftrightarrow> (\<forall>n s. server_ok s \<longrightarrow> server_ok (others n s) \<and>
     (\<forall>sm. held (Broker (databases s)) sm \<longrightarrow> held (Broker (databases (others n s))) sm))"

abbreviation conn_ok :: "Conn \<Rightarrow> Server \<Rightarrow> bool" where
  "conn_ok c s \<equiv> server_ok s \<and> index_ok c \<and> held (Broker (databases s)) (subscriptions c)"

lemma conn_ok_step:
  assumes "conn_ok c s" and "peaceful others" and "fair (map_order (ev se))"
  shows "case handle_value se v c (others n s) of
      Sent s' c' out \<Rightarrow> conn_ok c' s' | Suspended s' c' w \<Rightarrow> conn_ok c' s' | Down \<Rightarrow> False"
proof -
  have "conn_ok c (others n s)" using assms(1,2) by (simp add: peaceful_def)
  then show ?thesis using handle_value_ok [of "others n s" c se v] assms(3)
    by (auto simp: result_ok_def conn_step_ok_def sub_rel_def split: result.splits)
qed

lemma serve_ok:
  assumes "conn_ok c s" and "peaceful others" and "\<And>i. fair (map_order (ev (ses i)))"
  shows "case serve ses others ok n bytes c s of
      Hangup s' c' outs \<Rightarrow> conn_ok c' s' \<and> length outs \<le> length (fst (parse_all bytes)) \<and>
        ((\<forall>i. ok i) \<longrightarrow> snd (parse_all bytes) \<noteq> ParserPanic \<and> length outs = length (fst (parse_all bytes)))
    | Held s' c' w rest outs \<Rightarrow> conn_ok c' s' \<and> length outs < length (fst (parse_all bytes)) \<and>
        parse_all rest = (drop (Suc (length outs)) (fst (parse_all bytes)), snd (parse_all bytes))
    | Crashed outs \<Rightarrow> snd (parse_all bytes) = ParserPanic \<and> length outs = length (fst (parse_all bytes))"
  using assms(1)
proof (induction "length bytes" arbitrary: n bytes c s rule: less_induct)
  case less
  show ?case
  proof (cases "Parse bytes")
    case (Ok v rest)
    then have all: "parse_all bytes = (v # fst (parse_all rest), snd (parse_all rest))"
      by (subst parse_all.simps) (simp add: case_prod_unfold)
    note step = conn_ok_step [OF less.prems assms(2) assms(3), of n v n]
    show ?thesis
    proof (cases "handle_value (ses n) v c (others n s)")
      case (Sent s' c' out)
      then have "serve ses others ok n bytes c s =
          (if looks_at_error (ses n) v c \<and> \<not> ok n then Hangup s' c' [out] else prepend out (serve ses others ok (Suc n) rest c' s'))"
        using Ok by (subst serve.simps) simp
      then show ?thesis
        using less.hyps [OF Parse_consumes [OF Ok], of s' c' "Suc n"] step Sent all
        by (cases "serve ses others ok (Suc n) rest c' s'") auto
    next
      case (Suspended s' c' w)
      then show ?thesis using Ok step all by (subst serve.simps) simp
    next
      case Down
      then show ?thesis using step by simp
    qed
  qed (use less.prems in \<open>simp_all add: serve.simps [of ses others ok n bytes] parse_all.simps [of bytes]\<close>)
qed

section \<open>A client that no longer takes replies\<close>

text \<open>The requests whose replies are written blindly leave the databases and the log alone.\<close>

lemma blind_keeps_data:
  "handle_value se v c s = Sent s' c' out \<Longrightarrow> \<not> looks_at_error se v c \<Longrightarrow>
   DBs (databases s') = DBs (databases s) \<and> aof s' = aof s"
  by (auto simp: handle_value_def looks_at_error_def Let_def split: if_splits prod.splits option.splits)

text \<open>So when the socket is broken, at most one more command is executed: the loop ends with it.\<close>

lemma broken_socket:
  assumes "\<And>i. n \<le> i \<Longrightarrow> \<not> ok i"
  shows "case serve ses (\<lambda>_ s. s) ok n bytes c s of
      Hangup s' c' outs \<Rightarrow> DBs (databases s') = DBs (databases s) \<and> aof s' = aof s \<or>
        (\<exists>m v c1 s1 out. DBs (databases s1) = DBs (databases s) \<and> aof s1 = aof s \<and> handle_value (ses m) v c1 s1 = Sent s' c' out)
    | Held s' c' w rest outs \<Rightarrow> True
    | Crashed outs \<Rightarrow> True"
  using assms
proof (induction "length bytes" arbitrary: n bytes c s rule: less_induct)
  case less
  show ?case
  proof (cases "Parse bytes")
    case (Ok v rest)
    show ?thesis
    proof (cases "handle_value (ses n) v c s")
      case (Sent s' c' out)
      have unfold: "serve ses (\<lambda>_ s. s) ok n bytes c s =
          (if looks_at_error (ses n) v c then Hangup s' c' [out] else prepend out (serve ses (\<lambda>_ s. s) ok (Suc n) rest c' s'))"
        using Ok Sent less.prems [of n] by (subst serve.simps) simp
      show ?thesis
      proof (cases "looks_at_error (ses n) v c")
        case True
        then show ?thesis using unfold Sent by auto
      next
        case False
        note IH = less.hyps [OF Parse_consumes [OF Ok], of "Suc n" s' c']
        show ?thesis using IH less.prems False unfold blind_keeps_data [OF Sent False]
          by (cases "serve ses (\<lambda>_ s. s) ok (Suc n) rest c' s'") auto
      qed
    qed (use Ok in \<open>simp_all add: serve.simps [of ses _ ok n bytes]\<close>)
  qed (simp_all add: serve.simps [of ses _ ok n bytes])
qed

section \<open>Sharing the socket\<close>

text \<open>
  The goroutines of a connection write to its socket through \<open>safeWriter\<close>: the loop its replies, one
  forwarder for each subscription its messages.  \<open>resp.Writer\<close> hands the bytes of a value to the socket in several
  pieces (it flushes after each element of an array, and whenever its buffer is full), so that the order of the
  pieces depends on the mutex.  \<open>sock_queue\<close> holds what each goroutine has still to write, and
  \<open>sock_order\<close> records the order in which the values got the lock.
\<close>

record Socket =
  sock_out :: string
  sock_lock :: "nat option"
  sock_pending :: string
  sock_queue :: "nat \<Rightarrow> Value list"
  sock_produced :: "nat \<Rightarrow> Value list"
  sock_order :: "(nat \<times> Value) list"

definition new_socket :: Socket where
  "new_socket = \<lparr>sock_out = [], sock_lock = None, sock_pending = [], sock_queue = (\<lambda>_. []), sock_produced = (\<lambda>_. []),
     sock_order = []\<rparr>"

inductive writer_step :: "Socket \<Rightarrow> Socket \<Rightarrow> bool" where
  Produce: "wf_value v \<Longrightarrow>
    writer_step S (S\<lparr>sock_queue := (sock_queue S)(i := sock_queue S i @ [v]),
      sock_produced := (sock_produced S)(i := sock_produced S i @ [v])\<rparr>)"
| Lock: "sock_lock S = None \<Longrightarrow> sock_queue S i = v # vs \<Longrightarrow>
    writer_step S (S\<lparr>sock_lock := Some i, sock_pending := fst (Write v), sock_queue := (sock_queue S)(i := vs),
      sock_order := sock_order S @ [(i, v)]\<rparr>)"
| Flush: "sock_lock S = Some i \<Longrightarrow> n \<le> length (sock_pending S) \<Longrightarrow>
    writer_step S (S\<lparr>sock_out := sock_out S @ take n (sock_pending S), sock_pending := drop n (sock_pending S)\<rparr>)"
| Unlock: "sock_lock S = Some i \<Longrightarrow> sock_pending S = [] \<Longrightarrow> writer_step S (S\<lparr>sock_lock := None\<rparr>)"

definition written_by :: "nat \<Rightarrow> (nat \<times> Value) list \<Rightarrow> Value list" where
  "written_by i os = map snd (filter (\<lambda>(j, v). j = i) os)"

lemma written_by_simps [simp]:
  "written_by i [] = []" "written_by i (os @ [(j, v)]) = written_by i os @ (if j = i then [v] else [])"
  by (simp_all add: written_by_def)

text \<open>The bytes on the socket are whole values, and a part of the one that is being written.\<close>

definition bytes_inv :: "Socket \<Rightarrow> bool" where
  "bytes_inv S \<longleftrightarrow>
     (case sock_lock S of
        None \<Rightarrow> sock_out S = encode (map snd (sock_order S)) \<and> sock_pending S = []
      | Some i \<Rightarrow> \<exists>os v m. sock_order S = os @ [(i, v)] \<and> sock_out S = encode (map snd os) @ take m (fst (Write v)) \<and>
          sock_pending S = drop m (fst (Write v)))"

definition socket_inv :: "Socket \<Rightarrow> bool" where
  "socket_inv S \<longleftrightarrow> bytes_inv S \<and> (\<forall>i. sock_produced S i = written_by i (sock_order S) @ sock_queue S i) \<and>
     list_all wf_value (map snd (sock_order S)) \<and> (\<forall>i. list_all wf_value (sock_queue S i))"

lemma bytes_inv_step: "writer_step S S' \<Longrightarrow> bytes_inv S \<Longrightarrow> bytes_inv S'"
proof (induction rule: writer_step.induct)
  case (Lock S i v vs)
  then show ?case by (auto simp: bytes_inv_def intro!: exI [of _ 0])
next
  case (Flush S i n)
  then obtain os v m where "sock_order S = os @ [(i, v)]" "sock_out S = encode (map snd os) @ take m (fst (Write v))"
    "sock_pending S = drop m (fst (Write v))" by (auto simp: bytes_inv_def)
  then show ?case using Flush.hyps
    by (auto simp: bytes_inv_def take_add add.commute intro!: exI [of _ os] exI [of _ "m + n"])
next
  case (Unlock S i)
  then show ?case by (auto simp: bytes_inv_def)
qed (simp add: bytes_inv_def split: option.splits)

lemma socket_inv_step:
  assumes "writer_step S S'" and "socket_inv S"
  shows "socket_inv S'"
proof -
  have bytes: "bytes_inv S'" using assms bytes_inv_step by (simp add: socket_inv_def)
  from assms(1,2) bytes show ?thesis
  proof (induction rule: writer_step.induct)
    case (Lock S i v vs)
    then have "list_all wf_value (v # vs)" by (auto simp: socket_inv_def dest: spec [of _ i])
    then show ?case using Lock by (simp add: socket_inv_def)
  qed (simp_all add: socket_inv_def)
qed

lemma socket_inv_reach: "writer_step\<^sup>*\<^sup>* new_socket S \<Longrightarrow> socket_inv S"
proof (induction rule: rtranclp_induct)
  case base
  show ?case by (simp add: socket_inv_def bytes_inv_def new_socket_def)
qed (rule socket_inv_step)

lemma parse_all_torn:
  assumes "list_all wf_value vs" and "wf_value v" and "m < length (fst (Write v))"
  shows "\<exists>e. parse_all (encode vs @ take m (fst (Write v))) = (vs, Ended e)"
proof -
  obtain e where "Parse (take m (fst (Write v))) = Err e" using Parse_torn [OF assms(2,3)] by blast
  then have "parse_all (take m (fst (Write v))) = ([], Ended e)" by (subst parse_all.simps) simp
  then show ?thesis using parse_all_append [OF assms(1)] by simp
qed

section \<open>An idle server\<close>

definition idle_env :: sysenv where
  "idle_env = \<lparr>ev = env_at 0, save_fault = None, fault_text = []\<rparr>"

definition open_conn :: Conn where
  "open_conn = \<lparr>authenticated = True, dbIndex = 0, subscriptions = fmempty\<rparr>"

definition empty_server :: Server where
  "empty_server = \<lparr>databases = NewMultiDB, aof = None, rdb_service = None, password = [], background_saves = 0\<rparr>"

lemma upper_ping: "ToUpper u ''ping'' = ''PING''"
  by (simp add: ToUpper_def, code_simp)

lemma handle_ping: "handle_value idle_env (array [bulk ''ping'']) open_conn empty_server = Sent empty_server open_conn [simple ''PONG'']"
proof -
  have "CommandHandlers ''PING'' = Some (Runs ping)" by (simp add: CommandHandlers_def handler_table_def)
  moreover have "replicate 16 newDatabase = newDatabase # replicate 15 newDatabase" by (simp add: eval_nat_numeral)
  ultimately show ?thesis
    by (simp add: handle_value_def processCommand_def Let_def upper_ping DB_def call_handler_def ping_def log_command_def
        shouldPersist_def put_state_def set_DB_def NewMultiDB_def NumDatabases_def idle_env_def open_conn_def empty_server_def)
qed

lemma empty_server_ok: "server_ok empty_server"
  by (simp add: empty_server_def server_ok_def NewMultiDB_def NumDatabases_def ps_inv_New db_inv list_all_length)

section \<open>Properties of a connection\<close>

text \<open>
  C23.  Requests and replies stay in step, from bytes to bytes.  A client writes any number of requests in one go,
  without waiting for replies, and other connections run in between.  The loop of the connection then
  does exactly what handling the requests one by one does; when it comes to the end, there is one group of replies for
  each request, in order, and the bytes on the socket are read back by the client as exactly these replies.
\<close>

theorem pipelined_requests_answered:
  assumes "list_all wf_value vs" and "list_all (plain_request uni) vs"
    and "\<And>i. unicode_ToUpper (ev (ses i)) = uni \<and> LF \<notin> set (fault_text (ses i))"
  shows "serve ses others (\<lambda>_. True) n (encode vs) c s = answer_all ses others n vs c s \<and>
    (case answer_all ses others n vs c s of
       Hangup s' c' outs \<Rightarrow> length outs = length vs \<and>
         (list_all (list_all fits_wire) outs \<longrightarrow> parse_all (encode (concat outs)) = (concat outs, Ended EOF))
     | Held s' c' w rest outs \<Rightarrow> True
     | Crashed outs \<Rightarrow> True)"
proof (cases "answer_all ses others n vs c s")
  case (Hangup s' c' outs)
  note typed = answer_all_typed [OF Hangup assms(2,3)]
  have "list_all wf_value (concat outs)" if "list_all (list_all fits_wire) outs"
    using typed that by (auto simp: list_all_iff wf_value_iff)
  then show ?thesis using serve_encode [OF assms(1)] typed Hangup parse_all_encode by simp
qed (use serve_encode [OF assms(1)] in simp_all)

theorem pipelined_requests_answered_witness:
  "serve (\<lambda>_. idle_env) (\<lambda>_ s. s) (\<lambda>_. True) 0 (encode [array [bulk ''ping''], integer 3]) open_conn empty_server =
     Hangup empty_server open_conn [[simple ''PONG''], [err ''ERR invalid command format'']] \<and>
   parse_all (encode [simple ''PONG'', err ''ERR invalid command format'']) =
     ([simple ''PONG'', err ''ERR invalid command format''], Ended EOF)"
proof -
  have "wf_value (array [bulk ''ping''])" "wf_value (integer 3)"
    by (simp_all add: makeslice_ok_def value_size_def int64_def)
  moreover have "plain_request id (array [bulk ''ping''])" "plain_request id (integer 3)"
    by (simp_all add: plain_request_def upper_ping)
  moreover have "unicode_ToUpper (ev idle_env) = id \<and> LF \<notin> set (fault_text idle_env)" by (simp add: idle_env_def id_def)
  moreover have "answer_all (\<lambda>_. idle_env) (\<lambda>_ s. s) 0 [array [bulk ''ping''], integer 3] open_conn empty_server =
      Hangup empty_server open_conn [[simple ''PONG''], [err ''ERR invalid command format'']]"
    by (simp add: handle_ping) (simp add: handle_value_def)
  ultimately show ?thesis
    using pipelined_requests_answered [of "[array [bulk ''ping''], integer 3]" id "\<lambda>_. idle_env" "\<lambda>_ s. s" 0 open_conn empty_server]
    by simp
qed



text \<open>
  C38.  Published messages never break a reply.  Replies and the messages of any number of subscriptions are written to one
  socket by different goroutines, each value in any number of pieces.  At every moment, the client that reads the socket finds the
  complete values in the order in which they got the lock, except perhaps the last one, which is being written; and the values of each
  goroutine come in the order it produced them, none twice and none missing.
\<close>

theorem shared_socket_stays_parseable:
  assumes "writer_step\<^sup>*\<^sup>* new_socket S"
  shows "(\<exists>k e. parse_all (sock_out S) = (map snd (take k (sock_order S)), Ended e) \<and> length (sock_order S) \<le> Suc k \<and>
      (sock_lock S = None \<longrightarrow> length (sock_order S) \<le> k \<and> e = EOF)) \<and>
    sock_produced S i = written_by i (sock_order S) @ sock_queue S i"
proof -
  have inv: "bytes_inv S" "sock_produced S i = written_by i (sock_order S) @ sock_queue S i"
    "list_all wf_value (map snd (sock_order S))" using socket_inv_reach [OF assms] by (simp_all add: socket_inv_def)
  have whole: "parse_all (encode (map snd (sock_order S))) = (map snd (sock_order S), Ended EOF)"
    using parse_all_encode [OF inv(3)] .
  show ?thesis
  proof (cases "sock_lock S")
    case None
    then have "sock_out S = encode (map snd (sock_order S))" using inv(1) by (simp add: bytes_inv_def)
    then show ?thesis using whole inv(2) by (intro conjI exI [of _ "length (sock_order S)"] exI [of _ EOF]) simp_all
  next
    case (Some j)
    then obtain os v m where os: "sock_order S = os @ [(j, v)]" "sock_out S = encode (map snd os) @ take m (fst (Write v))"
      using inv(1) by (auto simp: bytes_inv_def)
    show ?thesis
    proof (cases "m < length (fst (Write v))")
      case True
      then obtain e where "parse_all (sock_out S) = (map snd os, Ended e)"
        using parse_all_torn [of "map snd os" v m] os inv(3) by auto
      then show ?thesis using os(1) Some inv(2) by (intro conjI exI [of _ "length os"] exI [of _ e]) simp_all
    next
      case False
      then have "sock_out S = encode (map snd (sock_order S))" using os by simp
      then show ?thesis using whole Some inv(2) by (intro conjI exI [of _ "length (sock_order S)"] exI [of _ EOF]) simp_all
    qed
  qed
qed

theorem shared_socket_stays_parseable_witness:
  "\<exists>S. writer_step\<^sup>*\<^sup>* new_socket S \<and> sock_lock S = Some 1 \<and> sock_out S = ''*1'' \<and>
     fst (parse_all (sock_out S)) = [] \<and> sock_produced S 1 = [array [null]]"
proof -
  let ?v = "array [null]"
  let ?S1 = "new_socket\<lparr>sock_queue := (\<lambda>_. [])(1 := [?v]), sock_produced := (\<lambda>_. [])(1 := [?v])\<rparr>"
  let ?S2 = "?S1\<lparr>sock_lock := Some 1, sock_pending := fst (Write ?v), sock_queue := (sock_queue ?S1)(1 := []), sock_order := [(1, ?v)]\<rparr>"
  let ?S3 = "?S2\<lparr>sock_out := take 2 (fst (Write ?v)), sock_pending := drop 2 (fst (Write ?v))\<rparr>"
  have w: "fst (Write ?v) = ''*1'' @ CRLF @ ''$-1'' @ CRLF"
  proof -
    have "Itoa 1 = ''1''" by code_simp
    then show ?thesis by (simp add: writeNull_def)
  qed
  have "writer_step new_socket ?S1"
    using writer_step.Produce [of ?v new_socket 1] by (simp add: new_socket_def makeslice_ok_def value_size_def)
  moreover have "writer_step ?S1 ?S2" using writer_step.Lock [of ?S1 1 ?v "[]"] by (simp add: new_socket_def)
  moreover have "writer_step ?S2 ?S3" using writer_step.Flush [of ?S2 1 2] by (simp add: w new_socket_def)
  ultimately have run: "writer_step\<^sup>*\<^sup>* new_socket ?S3" by (meson converse_rtranclp_into_rtranclp rtranclp.rtrancl_refl)
  have out: "sock_out ?S3 = ''*1''" by (simp add: w del: Write.simps)
  have "fst (parse_all ''*1'') = []" by (simp add: parse_all.simps readArray.simps readLine_def)
  then show ?thesis
    using shared_socket_stays_parseable [OF run, of 1] run out by (intro exI [of _ ?S3]) (simp add: new_socket_def written_by_def)
qed

end
