(* ===== verification/SnapshotLoop.thy ===== *)
theory SnapshotLoop
  imports Snapshots
begin

text \<open>
  The snapshot loop (\<open>snapshotLoop\<close> of pkg/persistence/rdb.go) among running commands.  \<open>Save\<close> holds the service's
  mutex but only the lock of the one database it is writing, so commands go on, and their calls of \<open>IncrementChanges\<close>
  wait for the mutex.  The loop resets the counter in a second critical section after \<open>Save\<close> has
  returned.  \<open>racy\<close> says whether commands may run while a snapshot is being written.
\<close>

section \<open>Steps\<close>

datatype snap_pc = Idle | Saving "Database list" | Written

record Snapper =
  sn_dbs :: "Database list"
  sn_rdb :: RDB
  sn_pc :: snap_pc
  sn_uncounted :: nat

text \<open>The condition of the loop: some rule has both its time and its number of changes reached.\<close>

definition due :: "env \<Rightarrow> RDBSnapshot list \<Rightarrow> RDB \<Rightarrow> bool" where
  "due e rules r \<longleftrightarrow> List.find (\<lambda>s. now e - lastSave r \<ge> Secs s * Second \<and> changes r \<ge> KeysChanged s) rules \<noteq> None"

definition reset_counter :: "env \<Rightarrow> RDB \<Rightarrow> RDB" where
  "reset_counter e r = r\<lparr>lastSave := now e, changes := 0\<rparr>"

text \<open>Run without interruption, the pieces are one tick.\<close>

lemma snapshot_tick_pieces:
  "snapshot_tick fault e rules dbs r =
     (if due e rules r then
        (case Save fault e dbs r of (r', None) \<Rightarrow> reset_counter e r' | (r', Some er) \<Rightarrow> r')
      else r)"
  by (auto simp: snapshot_tick_def due_def reset_counter_def Let_def split: option.splits prod.splits)

text \<open>The counter is a 64-bit integer; \<open>Count\<close> supposes that it does not overflow between two snapshots.\<close>

inductive snap_step :: "bool \<Rightarrow> order \<Rightarrow> RDBSnapshot list \<Rightarrow> Snapper \<Rightarrow> Snapper \<Rightarrow> bool" for racy iter rules where
  Change: "racy \<or> sn_pc S = Idle \<Longrightarrow> i < length (sn_dbs S) \<Longrightarrow>
    snap_step racy iter rules S (S\<lparr>sn_dbs := (sn_dbs S)[i := db], sn_uncounted := Suc (sn_uncounted S)\<rparr>)"
| Count: "sn_uncounted S = Suc n \<Longrightarrow> sn_pc S = Idle \<or> sn_pc S = Written \<Longrightarrow> changes (sn_rdb S) < max_int \<Longrightarrow>
    snap_step racy iter rules S (S\<lparr>sn_rdb := IncrementChanges (sn_rdb S), sn_uncounted := n\<rparr>)"
| Begin: "sn_pc S = Idle \<Longrightarrow> due e rules (sn_rdb S) \<Longrightarrow> snap_step racy iter rules S (S\<lparr>sn_pc := Saving []\<rparr>)"
| SaveDatabase: "sn_pc S = Saving ds \<Longrightarrow> length ds < length (sn_dbs S) \<Longrightarrow>
    snap_step racy iter rules S (S\<lparr>sn_pc := Saving (ds @ [sn_dbs S ! length ds])\<rparr>)"
| Finish: "sn_pc S = Saving ds \<Longrightarrow> length ds = length (sn_dbs S) \<Longrightarrow> map_order e = iter \<Longrightarrow>
    snap_step racy iter rules S (S\<lparr>sn_pc := Written, sn_rdb := fst (Save None e ds (sn_rdb S))\<rparr>)"
| Fail: "sn_pc S = Saving ds \<Longrightarrow> fault \<noteq> None \<Longrightarrow>
    snap_step racy iter rules S (S\<lparr>sn_pc := Idle, sn_rdb := fst (Save fault e ds (sn_rdb S))\<rparr>)"
| Reset: "sn_pc S = Written \<Longrightarrow> snap_step racy iter rules S (S\<lparr>sn_pc := Idle, sn_rdb := reset_counter e (sn_rdb S)\<rparr>)"

section \<open>Without concurrent commands the counter tells the truth\<close>

definition stored :: "order \<Rightarrow> Snapper \<Rightarrow> bool" where
  "stored iter S \<longleftrightarrow> snapshot (disk (sn_rdb S)) = Some (snapshot_bytes iter (sn_dbs S))"

definition counter_inv :: "order \<Rightarrow> Snapper \<Rightarrow> bool" where
  "counter_inv iter S \<longleftrightarrow> 0 \<le> changes (sn_rdb S) \<and>
     (case sn_pc S of
        Idle \<Rightarrow> changes (sn_rdb S) = 0 \<and> sn_uncounted S = 0 \<longrightarrow> stored iter S
      | Saving ds \<Rightarrow> length ds \<le> length (sn_dbs S) \<and> ds = take (length ds) (sn_dbs S) \<and>
          (changes (sn_rdb S) = 0 \<and> sn_uncounted S = 0 \<longrightarrow> stored iter S)
      | Written \<Rightarrow> stored iter S)"

lemma changes_IncrementChanges: "0 \<le> changes r \<Longrightarrow> changes r < max_int \<Longrightarrow> changes (IncrementChanges r) = changes r + 1"
  by (simp add: IncrementChanges_def wrap64_id int64_def max_int_def)

lemma counter_inv_step:
  "snap_step False iter rules S S' \<Longrightarrow> counter_inv iter S \<Longrightarrow> counter_inv iter S'"
proof (induction rule: snap_step.induct)
  case (Count S n)
  then show ?case
    by (auto simp: counter_inv_def stored_def changes_IncrementChanges) (simp_all add: IncrementChanges_def)
next
  case (SaveDatabase S ds)
  then show ?case by (auto simp: counter_inv_def stored_def take_Suc_conv_app_nth)
next
  case (Finish S ds e)
  then have "ds = sn_dbs S" by (simp add: counter_inv_def)
  then show ?case using Finish by (auto simp: counter_inv_def stored_def Save_ok)
next
  case (Fail S ds fault e)
  then show ?case by (auto simp: counter_inv_def stored_def Save_fault)
qed (auto simp: counter_inv_def stored_def reset_counter_def)

lemma counter_truthful:
  assumes "(snap_step False iter rules)\<^sup>*\<^sup>* S S'" and "counter_inv iter S"
    and "sn_pc S' = Idle" and "changes (sn_rdb S') = 0" and "sn_uncounted S' = 0"
  shows "stored iter S'"
proof -
  have "counter_inv iter S'" using assms(1,2) by (induction rule: rtranclp_induct) (auto intro: counter_inv_step)
  then show ?thesis using assms(3-5) by (simp add: counter_inv_def)
qed

section \<open>With them it does not\<close>

lemma save_run:
  "sn_pc S = Saving (take k (sn_dbs S)) \<Longrightarrow> k \<le> length (sn_dbs S) \<Longrightarrow>
   (snap_step racy iter rules)\<^sup>*\<^sup>* S (S\<lparr>sn_pc := Saving (sn_dbs S)\<rparr>)"
proof (induction "length (sn_dbs S) - k" arbitrary: k S)
  case 0
  then have "S\<lparr>sn_pc := Saving (sn_dbs S)\<rparr> = S" by (cases S) simp
  then show ?case by simp
next
  case (Suc n)
  let ?S = "S\<lparr>sn_pc := Saving (take (Suc k) (sn_dbs S))\<rparr>"
  have k: "k < length (sn_dbs S)" using Suc.hyps(2) by simp
  then have "snap_step racy iter rules S ?S"
    using snap_step.SaveDatabase [of S "take k (sn_dbs S)" racy iter rules] Suc.prems by (simp add: take_Suc_conv_app_nth)
  moreover have "(snap_step racy iter rules)\<^sup>*\<^sup>* ?S (?S\<lparr>sn_pc := Saving (sn_dbs S)\<rparr>)"
    using Suc.hyps(1) [of ?S "Suc k"] Suc.hyps(2) k by simp
  ultimately show ?case by (simp add: converse_rtranclp_into_rtranclp)
qed

lemma not_due: "changes r = 0 \<Longrightarrow> list_all (\<lambda>s. 0 < KeysChanged s) rules \<Longrightarrow> \<not> due e rules r"
  by (auto simp: due_def find_None_iff list_all_iff)

lemma Save_None_sel:
  "changes (fst (Save None e ds r)) = changes r" "snapshot (disk (fst (Save None e ds r))) = Some (snapshot_bytes (map_order e) ds)"
  by (simp_all add: Save_ok)

section \<open>Property of the loop\<close>

text \<open>
  C29.  A change made while a snapshot is written can be forgotten.  Let the loop find a snapshot due, and let a command change a database that
  has been written already.  Its \<open>IncrementChanges\<close> waits for the mutex that \<open>Save\<close> holds, and if it comes before
  the loop takes the mutex again, the reset wipes it out: the loop ends with a counter of zero and a
  snapshot without the change, and when every rule asks for at least one change, no passing of time makes another
  snapshot due.
\<close>

theorem change_during_save_forgotten:
  assumes "sn_pc S = Idle" and "due e rules (sn_rdb S)" and "i < length (sn_dbs S)" and "sn_uncounted S = 0"
    and "changes (sn_rdb S) < max_int" and "list_all (\<lambda>s. 0 < KeysChanged s) rules" and "map_order e = iter"
  shows "\<exists>S'. (snap_step True iter rules)\<^sup>*\<^sup>* S S' \<and> sn_pc S' = Idle \<and> sn_uncounted S' = 0 \<and>
    sn_dbs S' = (sn_dbs S)[i := db] \<and> snapshot (disk (sn_rdb S')) = Some (snapshot_bytes iter (sn_dbs S)) \<and>
    changes (sn_rdb S') = 0 \<and> (\<forall>e'. \<not> due e' rules (sn_rdb S'))"
proof -
  let ?step = "snap_step True iter rules" and ?dbs = "sn_dbs S"
  let ?S1 = "S\<lparr>sn_pc := Saving []\<rparr>" and ?S2 = "S\<lparr>sn_pc := Saving ?dbs\<rparr>"
  let ?S3 = "?S2\<lparr>sn_dbs := ?dbs[i := db], sn_uncounted := 1\<rparr>"
  let ?S4 = "?S3\<lparr>sn_pc := Written, sn_rdb := fst (Save None e ?dbs (sn_rdb S))\<rparr>"
  let ?S5 = "?S4\<lparr>sn_rdb := IncrementChanges (sn_rdb ?S4), sn_uncounted := 0\<rparr>"
  let ?S6 = "?S5\<lparr>sn_pc := Idle, sn_rdb := reset_counter e (sn_rdb ?S5)\<rparr>"
  have "?step\<^sup>*\<^sup>* ?S1 ?S2" using save_run [of ?S1 0 True iter rules] by simp
  moreover have "?step S ?S1" using assms(1,2) by (rule snap_step.Begin)
  moreover have "?step ?S2 ?S3" using snap_step.Change [of True ?S2 i iter rules db] assms(3,4) by simp
  moreover have "?step ?S3 ?S4" using snap_step.Finish [of ?S3 ?dbs e iter True rules] assms(7) by simp
  moreover have "?step ?S4 ?S5" using snap_step.Count [of ?S4 0 True iter rules] assms(5) by (simp add: Save_None_sel)
  moreover have "?step ?S5 ?S6" by (rule snap_step.Reset) simp
  ultimately have "?step\<^sup>*\<^sup>* S ?S6"
    by (meson converse_rtranclp_into_rtranclp rtranclp.rtrancl_into_rtrancl)
  moreover have "snapshot (disk (sn_rdb ?S6)) = Some (snapshot_bytes iter ?dbs)"
    using assms(7) by (simp add: reset_counter_def IncrementChanges_def Save_None_sel)
  moreover have "changes (sn_rdb ?S6) = 0" by (simp add: reset_counter_def)
  ultimately show ?thesis using not_due [OF _ assms(6)] by (intro exI [of _ ?S6]) simp
qed

theorem change_during_save_forgotten_witness:
  "\<exists>S'. (snap_step True id [\<lparr>Secs = 1, KeysChanged = 1\<rparr>])\<^sup>*\<^sup>*
      \<lparr>sn_dbs = [newDatabase], sn_rdb = \<lparr>disk = \<lparr>snapshot = None, tmp = None\<rparr>, changes = 1, lastSave = 0\<rparr>, sn_pc = Idle, sn_uncounted = 0\<rparr> S' \<and>
     sn_dbs S' = [newDatabase\<lparr>Store := fmupd ''k'' ''v'' fmempty\<rparr>] \<and>
     snapshot (disk (sn_rdb S')) = Some (snapshot_bytes id [newDatabase]) \<and> changes (sn_rdb S') = 0"
proof -
  let ?S = "\<lparr>sn_dbs = [newDatabase], sn_rdb = \<lparr>disk = \<lparr>snapshot = None, tmp = None\<rparr>, changes = 1, lastSave = 0\<rparr>, sn_pc = Idle, sn_uncounted = 0\<rparr>"
  have "due (env_at 2000000000) [\<lparr>Secs = 1, KeysChanged = 1\<rparr>] (sn_rdb ?S)" by (simp add: due_def Second_def)
  moreover have "map_order (env_at 2000000000) = id" by (simp add: id_def)
  ultimately show ?thesis
    using change_during_save_forgotten [of ?S "env_at 2000000000" "[\<lparr>Secs = 1, KeysChanged = 1\<rparr>]" 0 id
        "newDatabase\<lparr>Store := fmupd ''k'' ''v'' fmempty\<rparr>"] by (auto simp: max_int_def)
qed

end
