(* ===== verification/SnapshotWriter.thy ===== *)
theory SnapshotWriter
  imports Snapshots
begin

text \<open>
  How \<open>Save\<close> of pkg/persistence/rdb.go gets its bytes to the disk: the calls of \<open>errWriter.write\<close> in the order the code
  makes them, the \<open>bufio.Writer\<close> below, and a device that has room for some bytes only.  This derives the
  faults that \<open>Snapshots\<close> takes as a parameter: the bytes are those of \<open>snapshot_bytes\<close>, and \<open>Save_on\<close> a device is \<open>Save\<close> with the
  fault that the device brings about.
\<close>

section \<open>The databases as the snapshot code sees them\<close>

text \<open>
  pkg/persistence does not import pkg/commands; it reaches the databases through interfaces, whose methods hand out
  copies of the maps of lists, sets and hashes.  \<open>DatabaseAt\<close> panics (\<open>None\<close>) beyond the last database; the type
  assertion of \<open>dbAt\<close> never fails.
\<close>

definition copy_store :: "order \<Rightarrow> (string, 'a) fmap \<Rightarrow> (string, 'a) fmap" where
  "copy_store iter store = fold (\<lambda>(k, v) m. fmupd k v m) (range_map iter store) fmempty"

definition GetStringStore :: "Database \<Rightarrow> (string, string) fmap" where
  "GetStringStore db = Store db"

definition GetListStore :: "order \<Rightarrow> Database \<Rightarrow> (string, List) fmap" where
  "GetListStore iter db = copy_store iter (Lists db)"

definition GetSetStore :: "order \<Rightarrow> Database \<Rightarrow> (string, Set) fmap" where
  "GetSetStore iter db = copy_store iter (Sets db)"

definition GetHashStore :: "order \<Rightarrow> Database \<Rightarrow> (string, Hash) fmap" where
  "GetHashStore iter db = copy_store iter (Hashes db)"

definition DatabaseAt :: "Database list \<Rightarrow> nat \<Rightarrow> Database option" where
  "DatabaseAt dbs index = (if index < length dbs then Some (dbs ! index) else None)"

lemma stores [simp]:
  assumes "fair iter"
  shows "GetStringStore db = Store db" "GetListStore iter db = Lists db" "GetSetStore iter db = Sets db"
    "GetHashStore iter db = Hashes db"
  using assms
  by (simp_all add: GetStringStore_def GetListStore_def GetSetStore_def GetHashStore_def copy_store_def fold_fmupd_range_map)

section \<open>The calls of errWriter.write\<close>

datatype datum = Byte char | Text string | BigEndian nat nat

primrec datum_bytes :: "datum \<Rightarrow> string" where
  "datum_bytes (Byte c) = [c]"
| "datum_bytes (Text s) = s"
| "datum_bytes (BigEndian width n) = big_endian width n"

definition length_calls :: "nat \<Rightarrow> datum list" where
  "length_calls n =
     (if n < 64 then [Byte (byte n)]
      else if n < 16384 then [Byte (byte (drop_bit 8 n OR 0x40)), Byte (byte (n AND 0xFF))]
      else [Byte (byte 0x80), BigEndian 4 (n mod 2 ^ 32)])"

definition string_calls :: "string \<Rightarrow> datum list" where
  "string_calls s = length_calls (length s) @ [Text s]"

definition pair_calls :: "string \<times> string \<Rightarrow> datum list" where
  "pair_calls = (\<lambda>(field, v). string_calls field @ string_calls v)"

definition list_calls :: "string \<times> List \<Rightarrow> datum list" where
  "list_calls = (\<lambda>(key, l).
     let items = LRange 0 (-1) l in
     if length items > 0
     then [Byte typeList] @ string_calls key @ length_calls (length items) @ concat (map string_calls items)
     else [])"

definition set_calls :: "order \<Rightarrow> string \<times> Set \<Rightarrow> datum list" where
  "set_calls iter = (\<lambda>(key, s).
     let members = SMembers iter s in
     if length members > 0
     then [Byte typeSet] @ string_calls key @ length_calls (length members) @ concat (map string_calls members)
     else [])"

definition hash_calls :: "order \<Rightarrow> string \<times> Hash \<Rightarrow> datum list" where
  "hash_calls iter = (\<lambda>(key, h).
     let fields = HGetAll iter h in
     if maplen fields > 0
     then [Byte typeHash] @ string_calls key @ length_calls (maplen fields) @
       concat (map pair_calls (range_map iter fields))
     else [])"

definition database_calls :: "order \<Rightarrow> nat \<Rightarrow> Database \<Rightarrow> datum list" where
  "database_calls iter index db =
     (let stringStore = GetStringStore db; listStore = GetListStore iter db;
          setStore = GetSetStore iter db; hashStore = GetHashStore iter db;
          totalKeys = maplen stringStore + (maplen listStore + maplen setStore + maplen hashStore)
      in if totalKeys = 0 then []
         else
           [Byte opSelectDB] @ length_calls index @
           [Byte opResizeDB] @ length_calls totalKeys @ length_calls 0 @
           concat (map (\<lambda>(key, v). [Byte typeString] @ string_calls key @ string_calls v) (range_map iter stringStore)) @
           concat (map list_calls (range_map iter listStore)) @
           concat (map (set_calls iter) (range_map iter setStore)) @
           concat (map (hash_calls iter) (range_map iter hashStore)))"

definition snapshot_calls :: "order \<Rightarrow> Database list \<Rightarrow> datum list" where
  "snapshot_calls iter dbs =
     [Text rdbHeader] @
     concat (map (\<lambda>i. case DatabaseAt dbs i of Some db \<Rightarrow> database_calls iter i db | None \<Rightarrow> []) [0..<length dbs]) @
     [Byte opEOF, BigEndian 8 0]"

section \<open>The calls write the snapshot format\<close>

definition bytes_of :: "datum list \<Rightarrow> string" where
  "bytes_of ds = concat (map datum_bytes ds)"

lemma bytes_of_simps [simp]:
  "bytes_of [] = []" "bytes_of (d # ds) = datum_bytes d @ bytes_of ds" "bytes_of (ds @ ds') = bytes_of ds @ bytes_of ds'"
  by (simp_all add: bytes_of_def)

lemma bytes_of_concat: "bytes_of (concat (map f xs)) = concat (map (\<lambda>x. bytes_of (f x)) xs)"
  by (induction xs) simp_all

lemma bytes_of_length [simp]: "bytes_of (length_calls n) = writeLength n"
  by (simp add: length_calls_def writeLength_def)

lemma bytes_of_string [simp]: "bytes_of (string_calls s) = writeString s"
  by (simp add: string_calls_def writeString_def)

lemma bytes_of_pair [simp]: "bytes_of (pair_calls p) = writePair p"
  by (cases p) (simp add: pair_calls_def writePair_def)

lemma bytes_of_values [simp]:
  "bytes_of (list_calls kl) = save_list kl" "bytes_of (set_calls iter ks) = save_set iter ks"
  "bytes_of (hash_calls iter kh) = save_hash iter kh"
  by (cases kl; cases ks; cases kh;
      simp add: list_calls_def save_list_def set_calls_def save_set_def hash_calls_def save_hash_def bytes_of_concat Let_def)+

lemma bytes_of_database: "fair iter \<Longrightarrow> bytes_of (database_calls iter i db) = fst (saveDatabase iter i db)"
  by (simp add: database_calls_def saveDatabase_def Let_def bytes_of_concat save_string_def case_prod_unfold)

lemma bytes_of_snapshot:
  assumes "fair iter"
  shows "bytes_of (snapshot_calls iter dbs) = snapshot_bytes iter dbs"
proof -
  have "map (\<lambda>i. bytes_of (case DatabaseAt dbs i of Some db \<Rightarrow> database_calls iter i db | None \<Rightarrow> [])) [0..<length dbs] =
      map (\<lambda>(i, db). fst (saveDatabase iter i db)) (enumerate 0 dbs)"
    by (rule nth_equalityI) (simp_all add: DatabaseAt_def bytes_of_database [OF assms] nth_enumerate_eq)
  then show ?thesis by (simp add: snapshot_calls_def snapshot_bytes_def bytes_of_concat)
qed

section \<open>bufio.Writer on a file\<close>

text \<open>
  \<open>room\<close> is what the device still takes: a write that is longer writes what fits and fails.  The writer
  keeps its first error (\<open>stuck\<close>) and then does nothing any more.
\<close>

record Buffered =
  on_file :: string
  room :: nat
  buf :: string
  stuck :: bool

definition defaultBufSize :: nat where
  "defaultBufSize = 4096"

definition available :: "Buffered \<Rightarrow> nat" where
  "available w = defaultBufSize - length (buf w)"

definition file_write :: "string \<Rightarrow> Buffered \<Rightarrow> Buffered" where
  "file_write p w = w\<lparr>on_file := on_file w @ take (room w) p, room := room w - length p, stuck := room w < length p\<rparr>"

definition Flush :: "Buffered \<Rightarrow> Buffered" where
  "Flush w =
     (if stuck w \<or> buf w = [] then w
      else (file_write (buf w) w)\<lparr>buf := drop (room w) (buf w)\<rparr>)"

function bufio_write :: "string \<Rightarrow> Buffered \<Rightarrow> Buffered" where
  "bufio_write p w =
     (if stuck w then w
      else if length p \<le> available w then w\<lparr>buf := buf w @ p\<rparr>
      else if buf w = [] then bufio_write (drop (room w) p) (file_write p w)
      else bufio_write (drop (available w) p) (Flush (w\<lparr>buf := buf w @ take (available w) p\<rparr>)))"
  by pat_completeness auto

termination
  by (relation "measure (\<lambda>(p, w). if stuck w then 0 else Suc (length p + length (buf w)))")
    (auto simp: file_write_def Flush_def available_def simp flip: length_greater_0_conv split: if_splits)

declare bufio_write.simps [simp del]

text \<open>
  What is on the file and in the buffer after \<open>given\<close> has been given to a writer whose device had room for \<open>cap\<close>
  bytes.
\<close>

definition sent :: "nat \<Rightarrow> string \<Rightarrow> Buffered \<Rightarrow> bool" where
  "sent cap given w \<longleftrightarrow>
     (if stuck w then on_file w = take cap given \<and> cap < length given
      else on_file w @ buf w = given \<and> length (on_file w) + room w = cap)"

lemma sent_Flush: "sent cap given w \<Longrightarrow> sent cap given (Flush w) \<and> (stuck (Flush w) \<or> buf (Flush w) = [])"
  by (auto simp: sent_def Flush_def file_write_def)

lemma sent_direct: "sent cap given w \<Longrightarrow> \<not> stuck w \<Longrightarrow> buf w = [] \<Longrightarrow> sent cap (given @ p) (file_write p w)"
  by (auto simp: sent_def file_write_def)

lemma sent_more: "sent cap given w \<Longrightarrow> stuck w \<Longrightarrow> sent cap (given @ p) w"
  by (simp add: sent_def)

lemma sent_bufio_write: "sent cap given w \<Longrightarrow> sent cap (given @ p) (bufio_write p w)"
proof (induction p w arbitrary: given rule: bufio_write.induct)
  case (1 p w)
  consider "stuck w" | "\<not> stuck w" "length p \<le> available w" | "\<not> stuck w" "\<not> length p \<le> available w" "buf w = []"
    | "\<not> stuck w" "\<not> length p \<le> available w" "buf w \<noteq> []" by blast
  then show ?case
  proof cases
    case 1
    then show ?thesis using "1.prems" by (simp add: bufio_write.simps sent_more)
  next
    case 2
    then show ?thesis using "1.prems" by (auto simp: bufio_write.simps [of p w] sent_def)
  next
    case 3
    have s: "sent cap (given @ p) (file_write p w)" using sent_direct [OF "1.prems" 3(1,3)] .
    have "bufio_write (drop (room w) p) (file_write p w) = (file_write p w)\<lparr>buf := buf w @ drop (room w) p\<rparr> \<or> stuck (file_write p w)"
      using 3 by (auto simp: bufio_write.simps [of "drop (room w) p"] file_write_def)
    then show ?thesis using 3 s by (auto simp: bufio_write.simps sent_def file_write_def split: if_splits)
  next
    case 4
    let ?w = "w\<lparr>buf := buf w @ take (available w) p\<rparr>"
    have "sent cap (given @ take (available w) p) ?w" using "1.prems" 4(1) by (auto simp: sent_def)
    then have "sent cap (given @ take (available w) p) (Flush ?w)" using sent_Flush by blast
    from "1.IH"(2) [OF 4 this] show ?thesis using 4 by (simp add: bufio_write.simps [of p w])
  qed
qed

section \<open>errWriter\<close>

record errWriter =
  ew_w :: Buffered
  ew_err :: bool

definition ew_write :: "datum \<Rightarrow> errWriter \<Rightarrow> errWriter" where
  "ew_write d ew =
     (if ew_err ew then ew
      else let w = bufio_write (datum_bytes d) (ew_w ew) in \<lparr>ew_w = w, ew_err = stuck w\<rparr>)"

definition new_writer :: "nat \<Rightarrow> errWriter" where
  "new_writer cap = \<lparr>ew_w = \<lparr>on_file = [], room = cap, buf = [], stuck = False\<rparr>, ew_err = False\<rparr>"

text \<open>After any calls the writer has got their bytes, up to the first error, and its error is the one of the buffer.\<close>

lemma sent_calls:
  "sent cap (bytes_of ds) (ew_w (fold ew_write ds (new_writer cap))) \<and>
   ew_err (fold ew_write ds (new_writer cap)) = stuck (ew_w (fold ew_write ds (new_writer cap)))"
proof (induction ds rule: rev_induct)
  case Nil
  show ?case by (simp add: new_writer_def sent_def)
next
  case (snoc d ds)
  then show ?case
    using sent_bufio_write [of cap "bytes_of ds" "ew_w (fold ew_write ds (new_writer cap))" "datum_bytes d"]
      sent_more [of cap "bytes_of ds" "ew_w (fold ew_write ds (new_writer cap))" "datum_bytes d"]
    by (auto simp: ew_write_def [of d] Let_def)
qed

section \<open>Save on a device\<close>

record device =
  can_create :: bool
  space :: nat
  can_sync :: bool
  can_close :: bool
  can_rename :: bool

text \<open>
  The states of the disk during \<open>Save\<close>, after every call of \<open>errWriter.write\<close> and every later system call, with the service and
  the error it returns.
\<close>

definition Save_on :: "device \<Rightarrow> env \<Rightarrow> Database list \<Rightarrow> RDB \<Rightarrow> files list \<times> RDB \<times> save_error option" where
  "Save_on dev e dbs r =
     (let d = disk r in
      if \<not> can_create dev then ([d], r, Some CreateTempFile)
      else
        let calls = snapshot_calls (map_order e) dbs;
            ew = (\<lambda>k. fold ew_write (take k calls) (new_writer (space dev)));
            holds = (\<lambda>w. d\<lparr>tmp := Some (on_file w)\<rparr>);
            states = d # map (\<lambda>k. holds (ew_w (ew k))) [0..<Suc (length calls)];
            removed = d\<lparr>tmp := None\<rparr>;
            quit = (\<lambda>states er. (states @ [removed], r\<lparr>disk := removed\<rparr>, Some er));
            w = ew_w (ew (length calls)); flushed = Flush w
        in if ew_err (ew (length calls)) then quit states (WriteError (length (on_file w)))
           else if stuck flushed then quit (states @ [holds flushed]) (FlushError (length (on_file flushed)))
           else if \<not> can_sync dev then quit (states @ [holds flushed]) SyncError
           else if \<not> can_close dev then quit (states @ [holds flushed]) CloseError
           else if \<not> can_rename dev then quit (states @ [holds flushed]) RenameError
           else let saved = \<lparr>snapshot = Some (on_file flushed), tmp = None\<rparr>
                in (states @ [holds flushed, saved], r\<lparr>disk := saved\<rparr>, None))"

text \<open>The fault is the one the device brings about; on one that is in order, with room for the snapshot, there is none.\<close>

definition in_order :: "device \<Rightarrow> bool" where
  "in_order dev \<longleftrightarrow> can_create dev \<and> can_sync dev \<and> can_close dev \<and> can_rename dev"

lemma on_file_sent: "sent cap given w \<Longrightarrow> \<exists>n. on_file w = take n given"
  by (auto simp: sent_def split: if_splits intro: exI [of _ "length (on_file w)"] exI [of _ cap])

lemma flushed_calls:
  fixes calls :: "datum list" and cap :: nat
  defines "w \<equiv> ew_w (fold ew_write calls (new_writer cap))"
  shows "stuck w \<Longrightarrow> cap < length (bytes_of calls)"
    and "stuck (Flush w) \<longleftrightarrow> cap < length (bytes_of calls)"
    and "on_file (Flush w) = take cap (bytes_of calls)"
    and "\<exists>n. on_file (ew_w (fold ew_write (take k calls) (new_writer cap))) = take n (bytes_of calls)"
proof -
  have w: "sent cap (bytes_of calls) w" using sent_calls w_def by blast
  then show "stuck w \<Longrightarrow> cap < length (bytes_of calls)" by (simp add: sent_def)
  show "stuck (Flush w) \<longleftrightarrow> cap < length (bytes_of calls)" "on_file (Flush w) = take cap (bytes_of calls)"
    using sent_Flush [OF w] by (auto simp: sent_def split: if_splits)
  obtain n where n: "on_file (ew_w (fold ew_write (take k calls) (new_writer cap))) = take n (bytes_of (take k calls))"
    using on_file_sent sent_calls by blast
  have "bytes_of calls = bytes_of (take k calls) @ bytes_of (drop k calls)" by (simp flip: bytes_of_simps(3))
  then show "\<exists>n. on_file (ew_w (fold ew_write (take k calls) (new_writer cap))) = take n (bytes_of calls)"
    using n by (intro exI [of _ "min n (length (bytes_of (take k calls)))"]) (simp add: min_def)
qed

text \<open>What a process that stops in the middle of \<open>Save\<close> can leave behind.\<close>

definition safe_instant :: "string \<Rightarrow> files \<Rightarrow> files \<Rightarrow> bool" where
  "safe_instant bytes d f \<longleftrightarrow> (snapshot f = snapshot d \<or> snapshot f = Some bytes) \<and>
     (tmp f = tmp d \<or> tmp f = None \<or> (\<exists>n. tmp f = Some (take n bytes)))"

lemma safe_instants [simp]:
  "safe_instant bytes d d" "safe_instant bytes d (d\<lparr>tmp := None\<rparr>)"
  "safe_instant bytes d (d\<lparr>tmp := Some (take n bytes)\<rparr>)" "safe_instant bytes d \<lparr>snapshot = Some bytes, tmp = None\<rparr>"
  "safe_instant bytes d (d\<lparr>tmp := Some bytes\<rparr>)"
  by (auto simp: safe_instant_def intro: exI [of _ "length bytes"])

lemma safe_calls:
  assumes "fair iter"
  shows "list_all (safe_instant (snapshot_bytes iter dbs) d)
     (map (\<lambda>k. d\<lparr>tmp := Some (on_file (ew_w (fold ew_write (take k (snapshot_calls iter dbs)) (new_writer cap))))\<rparr>) ks)"
  using flushed_calls(4) [where calls = "snapshot_calls iter dbs" and cap = cap, unfolded bytes_of_snapshot [OF assms]]
  by (auto simp: list_all_iff safe_instant_def)

lemma safe_trace:
  assumes "fair (map_order e)"
  shows "list_all (safe_instant (snapshot_bytes (map_order e) dbs) (disk r)) (fst (Save_on dev e dbs r))"
  using safe_calls [OF assms, of dbs "disk r" "space dev" "[0..<Suc (length (snapshot_calls (map_order e) dbs))]"]
    flushed_calls(2,3) [where calls = "snapshot_calls (map_order e) dbs" and cap = "space dev", unfolded bytes_of_snapshot [OF assms]]
  by (simp add: Save_on_def Let_def)

lemma Save_on_result:
  assumes "fair (map_order e)"
  shows "disk (fst (snd (Save_on dev e dbs r))) = last (fst (Save_on dev e dbs r))"
    and "Save (snd (snd (Save_on dev e dbs r))) e dbs r = snd (Save_on dev e dbs r)"
    and "snd (snd (Save_on dev e dbs r)) = None \<longleftrightarrow>
     in_order dev \<and> length (snapshot_bytes (map_order e) dbs) \<le> space dev"
proof -
  let ?calls = "snapshot_calls (map_order e) dbs"
  note facts = flushed_calls(1-3) [where calls = ?calls and cap = "space dev", unfolded bytes_of_snapshot [OF assms]]
    conjunct2 [OF sent_calls [of "space dev" ?calls]]
  show "disk (fst (snd (Save_on dev e dbs r))) = last (fst (Save_on dev e dbs r))" by (simp add: Save_on_def Let_def)
  show "Save (snd (snd (Save_on dev e dbs r))) e dbs r = snd (Save_on dev e dbs r)"
    using facts by (simp add: Save_on_def Let_def Save_def save_trace_def)
  show "snd (snd (Save_on dev e dbs r)) = None \<longleftrightarrow> in_order dev \<and> length (snapshot_bytes (map_order e) dbs) \<le> space dev"
    using facts by (auto simp: Save_on_def Let_def in_order_def)
qed

section \<open>Property of the snapshot file\<close>

text \<open>
  C12.  The snapshot file is replaced atomically.  Let \<open>Save\<close> run, with any map iteration order, on a device with room for any number of bytes, whose other
  system calls may fail as well.  After every call the file at the snapshot path holds the old snapshot or the complete
  new one, and the temporary file, while it is there, a prefix of the new one.  \<open>Save\<close> succeeds exactly when no system call
  fails and the whole snapshot fits; then the new snapshot is in place and there is no temporary
  file.  Otherwise it returns an error and the old snapshot is there.  In either case it does what the abstract \<open>Save\<close>
  does with this error.
\<close>

theorem snapshot_replaced_atomically:
  assumes "fair (map_order e)"
  shows "let bytes = snapshot_bytes (map_order e) dbs; (trace, r', er) = Save_on dev e dbs r
   in list_all (safe_instant bytes (disk r)) trace \<and> disk r' = last trace \<and> (r', er) = Save er e dbs r \<and>
      (if in_order dev \<and> length bytes \<le> space dev
       then er = None \<and> disk r' = \<lparr>snapshot = Some bytes, tmp = None\<rparr>
       else er \<noteq> None \<and> snapshot (disk r') = snapshot (disk r))"
proof (cases "Save_on dev e dbs r")
  case (fields trace r' er)
  note result = Save_on_result [OF assms, of dev dbs r, unfolded fields, simplified]
  show ?thesis
  proof (cases er)
    case None
    then have "disk r' = \<lparr>snapshot = Some (snapshot_bytes (map_order e) dbs), tmp = None\<rparr>"
      using result(2) Save_ok [of e dbs r] by auto
    then show ?thesis using None fields result safe_trace [OF assms, of dbs r dev] by simp
  next
    case (Some x)
    then have "snapshot (disk r') = snapshot (disk r)" using result(2) Save_fault(1) [of er e dbs r] by simp
    then show ?thesis using Some fields result safe_trace [OF assms, of dbs r dev] by simp
  qed
qed

theorem snapshot_replaced_atomically_witness:
  "let db = newDatabase\<lparr>Store := fmupd ''k'' ''v'' fmempty\<rparr>; old = \<lparr>snapshot = Some ''old'', tmp = None\<rparr>;
       (trace, r', er) = Save_on \<lparr>can_create = True, space = 20, can_sync = True, can_close = True, can_rename = True\<rparr>
         (env_at 0) [db] \<lparr>disk = old, changes = 1, lastSave = 0\<rparr>
   in er \<noteq> None \<and> snapshot (disk r') = Some ''old''"
proof -
  let ?db = "newDatabase\<lparr>Store := fmupd ''k'' ''v'' fmempty\<rparr>"
  have "20 < length (snapshot_bytes (\<lambda>ks. ks) [?db])"
    by (simp add: snapshot_bytes_def rdbHeader_def)
  then have "\<not> length (snapshot_bytes (map_order (env_at 0)) [?db]) \<le> 20" by simp
  then show ?thesis
    using snapshot_replaced_atomically [of "env_at 0" "[?db]"
        "\<lparr>can_create = True, space = 20, can_sync = True, can_close = True, can_rename = True\<rparr>"
        "\<lparr>disk = \<lparr>snapshot = Some ''old'', tmp = None\<rparr>, changes = 1, lastSave = 0\<rparr>"]
    by (auto simp: Let_def case_prod_unfold split: if_splits)
qed

end
