(* ===== verification/LogWriter.thy ===== *)
theory LogWriter
  imports SnapshotWriter Recovery
begin

text \<open>
  The append-only file on a device that can run out of room: \<open>resp.Writer\<close> (pkg/resp/parser.go) call by call through the
  buffer of \<open>SnapshotWriter\<close>, and \<open>Aof.Write\<close> (pkg/persistence/aof.go) with its error paths.  With enough room it is the
  \<open>Aof_Write\<close> of \<open>Aof\<close>; without, a part of the record stays in the file.
\<close>

section \<open>resp.Writer on a buffer\<close>

text \<open>
  The error of the last \<open>WriteString\<close> is the first one the buffer met; \<open>Flush\<close> follows if there is none.  The flag
  is \<open>True\<close> when no error is returned.
\<close>

definition finish :: "Buffered \<Rightarrow> Buffered \<times> bool" where
  "finish w = (if stuck w then (w, False) else (Flush w, \<not> stuck (Flush w)))"

fun Write_to :: "Value \<Rightarrow> Buffered \<Rightarrow> Buffered \<times> bool"
  and writeElems_to :: "Value list \<Rightarrow> Buffered \<Rightarrow> Buffered \<times> bool" where
  "Write_to (Value t s n vs) w =
     (if t = SimpleString then finish (fold bufio_write [[SimpleString], s, CRLF] w)
      else if t = SimpleError then finish (fold bufio_write [[SimpleError], s, CRLF] w)
      else if t = Integer then finish (fold bufio_write [[Integer], Itoa n, CRLF] w)
      else if t = BulkString then finish (fold bufio_write [[BulkString], Itoa (int (length s)), CRLF, s, CRLF] w)
      else if t = ArrayType then
        (case writeElems_to vs (fold bufio_write [[ArrayType], Itoa (int (length vs)), CRLF] w) of
           (w', False) \<Rightarrow> (w', False)
         | (w', True) \<Rightarrow> finish w')
      else if t = NullType then finish (bufio_write (''$-1'' @ CRLF) w)
      else (w, False))"
| "writeElems_to [] w = (w, True)"
| "writeElems_to (v # vs) w =
     (case Write_to v w of
        (w', False) \<Rightarrow> (w', False)
      | (w', True) \<Rightarrow> writeElems_to vs w')"

text \<open>What a writer with so much room has done with \<open>given\<close>, and whether it returned an error.\<close>

definition wrote :: "nat \<Rightarrow> string \<Rightarrow> Buffered \<times> bool \<Rightarrow> bool" where
  "wrote cap given r \<longleftrightarrow> sent cap given (fst r) \<and> snd r = (\<not> stuck (fst r))"

lemma sent_fold: "sent cap given w \<Longrightarrow> sent cap (given @ concat ps) (fold bufio_write ps w)"
proof (induction ps arbitrary: given w)
  case (Cons p ps)
  then show ?case using Cons.IH [OF sent_bufio_write [OF Cons.prems, of p]] by simp
qed simp

lemma wrote_finish: "sent cap given w \<Longrightarrow> wrote cap given (finish w) \<and> (snd (finish w) \<longrightarrow> buf (fst (finish w)) = [])"
  using sent_Flush [of cap given w] by (auto simp: wrote_def finish_def)

lemma wrote_more: "wrote cap given r \<Longrightarrow> \<not> snd r \<Longrightarrow> wrote cap (given @ p) r"
  by (auto simp: wrote_def intro: sent_more)

lemma wrote_finish_fold:
  "sent cap given w \<Longrightarrow> wrote cap (given @ concat ps) (finish (fold bufio_write ps w)) \<and>
   (snd (finish (fold bufio_write ps w)) \<longrightarrow> buf (fst (finish (fold bufio_write ps w))) = [])"
  using wrote_finish sent_fold by blast

lemma Write_to_wrote:
  "sent cap given w \<Longrightarrow> snd (Write v) \<Longrightarrow>
    wrote cap (given @ fst (Write v)) (Write_to v w) \<and> (snd (Write_to v w) \<longrightarrow> buf (fst (Write_to v w)) = [])"
  "sent cap given w \<Longrightarrow> snd (writeElems vs) \<Longrightarrow>
    sent cap (given @ fst (writeElems vs)) (fst (writeElems_to vs w)) \<and>
    (snd (writeElems_to vs w) \<or> stuck (fst (writeElems_to vs w)))"
proof (induction v w and vs w arbitrary: given and given rule: Write_to_writeElems_to.induct)
  case (1 t s n vs w)
  note line = wrote_finish_fold [OF "1.prems"(1)]
  consider "t = ArrayType" | "t = SimpleString" | "t = SimpleError" | "t = Integer" | "t = BulkString" | "t = NullType"
    using "1.prems"(2) by (auto split: if_splits)
  then show ?case
  proof cases
    case 1
    let ?w = "fold bufio_write [[ArrayType], Itoa (int (length vs)), CRLF] w" and ?head = "concat [[ArrayType], Itoa (int (length vs)), CRLF]"
    have "sent cap ((given @ ?head) @ fst (writeElems vs)) (fst (writeElems_to vs ?w)) \<and>
        (snd (writeElems_to vs ?w) \<or> stuck (fst (writeElems_to vs ?w)))"
      using "1.IH" [OF _ _ _ _ _ sent_fold [OF "1.prems"(1)]] 1 "1.prems"(2) by (simp add: case_prod_unfold)
    then show ?thesis
      using 1 wrote_finish [of cap "(given @ ?head) @ fst (writeElems vs)" "fst (writeElems_to vs ?w)"]
      by (cases "writeElems_to vs ?w") (auto simp: wrote_def case_prod_unfold split: bool.splits)
  qed (use line [of "[[SimpleString], s, CRLF]"] line [of "[[SimpleError], s, CRLF]"] line [of "[[Integer], Itoa n, CRLF]"]
        line [of "[[BulkString], Itoa (int (length s)), CRLF, s, CRLF]"] line [of "[''$-1'' @ CRLF]"] in
      \<open>simp_all add: writeSimpleString_def writeSimpleError_def writeInt_def writeBulkString_def writeNull_def\<close>)
next
  case (3 v vs w)
  have ok: "snd (Write v)" "snd (writeElems vs)" using "3.prems"(2) by (auto split: prod.splits bool.splits)
  obtain w' b where w': "Write_to v w = (w', b)" by (cases "Write_to v w")
  have v: "wrote cap (given @ fst (Write v)) (w', b)" using "3.IH"(1) [OF "3.prems"(1) ok(1)] w' by simp
  have split: "fst (writeElems (v # vs)) = fst (Write v) @ fst (writeElems vs)"
    using ok(1) by (auto split: prod.splits bool.splits)
  show ?case
  proof (cases b)
    case True
    then have "sent cap ((given @ fst (Write v)) @ fst (writeElems vs)) (fst (writeElems_to vs w')) \<and>
        (snd (writeElems_to vs w') \<or> stuck (fst (writeElems_to vs w')))"
      using "3.IH"(2) [OF w' [symmetric] _ _ ok(2), of "given @ fst (Write v)"] v by (simp add: wrote_def)
    then show ?thesis using True w' split by simp
  next
    case False
    then show ?thesis using v w' split sent_more [of cap "given @ fst (Write v)" w'] by (auto simp: wrote_def)
  qed
qed simp

section \<open>Aof.Write\<close>

definition fresh_buffer :: "nat \<Rightarrow> Buffered" where
  "fresh_buffer cap = \<lparr>on_file = [], room = cap, buf = [], stuck = False\<rparr>"

text \<open>The file after the call, and whether it returned no error.\<close>

definition Aof_Write_on :: "nat \<Rightarrow> int \<Rightarrow> Value \<Rightarrow> Aof \<Rightarrow> Aof \<times> bool" where
  "Aof_Write_on cap index v a =
     (let w = fresh_buffer cap;
          (w, ok) = (if index \<noteq> lastDB a then Write_to (selectEntry index) w else (w, True))
      in if \<not> ok then (a\<lparr>contents := contents a @ on_file w\<rparr>, False)
         else (case Write_to v w of
                 (w, ok) \<Rightarrow> (a\<lparr>contents := contents a @ on_file w, lastDB := index\<rparr>, ok)))"

lemma wrote_result:
  "wrote cap bytes (w, ok) \<Longrightarrow> ok \<longrightarrow> buf w = [] \<Longrightarrow> on_file w = take cap bytes \<and> (ok \<longleftrightarrow> length bytes \<le> cap)"
  by (auto simp: wrote_def sent_def split: if_splits)

text \<open>The record as far as there is room for it.\<close>

lemma Aof_Write_on_spec:
  assumes "wf_value v" and "0 \<le> i" and "i < 2 ^ 32"
  shows "Aof_Write_on cap i v a =
    (let select = (if i \<noteq> lastDB a then fst (Write (selectEntry i)) else []); bytes = select @ fst (Write v)
     in (a\<lparr>contents := contents a @ take cap bytes, lastDB := if length select \<le> cap then i else lastDB a\<rparr>,
         length bytes \<le> cap))"
proof -
  have v: "snd (Write v)" "snd (Write (selectEntry i))" using assms Write_wf wf_selectEntry by blast+
  have start: "sent cap [] (fresh_buffer cap)" by (simp add: sent_def fresh_buffer_def)
  obtain w ok where w: "(if i \<noteq> lastDB a then Write_to (selectEntry i) (fresh_buffer cap) else (fresh_buffer cap, True)) = (w, ok)"
    by (metis surj_pair)
  let ?select = "if i \<noteq> lastDB a then fst (Write (selectEntry i)) else []"
  have sel: "wrote cap ?select (w, ok)" "ok \<longrightarrow> buf w = []"
    using Write_to_wrote(1) [OF start v(2)] w start by (auto simp: wrote_def fresh_buffer_def split: if_splits)
  note sel_result = wrote_result [OF sel]
  show ?thesis
  proof (cases ok)
    case False
    then show ?thesis using sel_result w by (auto simp: Aof_Write_on_def Let_def)
  next
    case True
    obtain w2 ok2 where w2: "Write_to v w = (w2, ok2)" by (cases "Write_to v w")
    have "wrote cap (?select @ fst (Write v)) (w2, ok2) \<and> (ok2 \<longrightarrow> buf w2 = [])"
      using Write_to_wrote(1) [OF _ v(1), of cap ?select w] sel(1) w2 by (simp add: wrote_def)
    from wrote_result [OF conjunct1 [OF this] conjunct2 [OF this]] show ?thesis
      using True sel_result w w2 by (auto simp: Aof_Write_on_def Let_def)
  qed
qed

lemma Aof_Write_on_room:
  assumes "entry_ok (i, v)" and "length (fst (Write (selectEntry i)) @ fst (Write v)) \<le> cap"
  shows "Aof_Write_on cap i v a = (Aof_Write i v a, True)"
  using assms Aof_Write_on_spec [of v i cap a]
  by (auto simp: entry_ok_def Let_def Aof_Write_def append_value_def)

section \<open>A disk that is full for a moment\<close>

text \<open>
  When there is room for one byte only, the command is executed and answered all the same and the file ends with a lone
  \<open>*\<close>.  Whatever commands are logged after that, with all the room they need, a restart finds none of them.
\<close>

lemma Atoi_star_any: "Atoi (CHR ''*'' # s) = Inl ErrSyntax"
  by (simp add: Atoi_def split_sign_def is_digit_def less_eq_char_def)

lemma Parse_star_any:
  assumes "Type v = ArrayType" and "wf_value v"
  shows "\<exists>er. Parse (ArrayType # fst (Write v) @ rest) = Err er"
proof -
  obtain vs r where "v = array vs" and r: "fst (Write v) @ rest = (CHR ''*'' # Itoa (int (length vs))) @ CR # LF # r"
    using assms by (cases v) (auto simp: case_prod_unfold)
  have "readLine ((CHR ''*'' # Itoa (int (length vs))) @ CR # LF # r) = Ok (CHR ''*'' # Itoa (int (length vs))) r"
    by (rule readLine_CRLF) simp
  then show ?thesis unfolding r by (simp add: readArray.simps Atoi_star_any)
qed

lemma read_loop_behind_any_star:
  assumes "list_all entry_ok es" and "list_all (\<lambda>(i, v). Type v = ArrayType) es"
  shows "read_state (read_loop fn (ArrayType # entry_bytes j es) i st) = Some st"
proof (cases es)
  case Nil
  then show ?thesis using read_loop_Err [OF Parse_star] by simp
next
  case (Cons iv es')
  obtain k v where iv: "iv = (k, v)" by (cases iv)
  have v: "Type v = ArrayType" "wf_value v" using assms Cons iv by (simp_all add: entry_ok_def)
  obtain er where "Parse (ArrayType # entry_bytes j es) = Err er"
    using Parse_star_array [of k "fst (Write v) @ entry_bytes k es'"] Parse_star_any [OF v, of "entry_bytes k es'"]
    by (cases "k = j") (auto simp: Cons iv simp del: Parse.simps Write.simps)
  then show ?thesis by (rule read_loop_Err)
qed

lemma array_bytes:
  assumes "Type v = ArrayType"
  shows "\<exists>c r. fst (Write v) = ArrayType # c # r"
proof -
  have "fst (Write v) = ArrayType # Itoa (int (length (Array v))) @ CR # LF # fst (writeElems (Array v))"
    using assms by (cases v) (simp add: case_prod_unfold)
  then show ?thesis by (cases "Itoa (int (length (Array v)))") auto
qed

lemma full_disk_hides_later_ones:
  assumes "aofEnabled config" and "list_all (list_all entry_ok) ess" and "list_all entry_ok es"
    and "entry_ok (i, v)" and "Type v = ArrayType"
    and "list_all entry_ok es'" and "list_all (\<lambda>(i, v). Type v = ArrayType) es'"
    and "Aof_Write_on 1 i v (write_entries es (NewAof (sessions ess))) = (a', ok)"
  shows "\<not> ok \<and> map_option databases (NewServer e config d (contents (write_entries es' a'))) =
    map_option databases (NewServer e config d (sessions (ess @ [es])))"
proof -
  let ?a = "write_entries es (NewAof (sessions ess))"
  let ?bytes = "(if i \<noteq> lastDB ?a then fst (Write (selectEntry i)) else []) @ fst (Write v)"
  obtain c r where bytes: "?bytes = ArrayType # c # r"
  proof -
    have "Type (selectEntry i) = ArrayType" by (simp add: selectEntry_def)
    then show ?thesis using that array_bytes [OF assms(5)] array_bytes [of "selectEntry i"]
      by (cases "i = lastDB ?a") (auto simp del: Write.simps)
  qed
  have "contents a' = contents ?a @ take 1 ?bytes" "ok = (length ?bytes \<le> 1)"
    using assms(8) Aof_Write_on_spec [of v i 1 ?a] assms(4) by (simp_all add: entry_ok_def Let_def)
  then have a': "contents a' = sessions (ess @ [es]) @ ''*''" "\<not> ok"
    unfolding bytes by (simp_all add: sessions_def)
  have "list_all (list_all entry_ok) (ess @ [es])" using assms(2,3) by simp
  then have "read_state (read_loop (replay_entry e) (sessions (ess @ [es]) @ ArrayType # entry_bytes (lastDB a') es') 0 NewMultiDB) =
      read_state (read_loop (replay_entry e) (sessions (ess @ [es])) 0 NewMultiDB)"
    by (rule read_loop_sessions_tail(2)) (rule read_loop_behind_any_star [OF assms(6,7)])
  then show ?thesis using a' by (simp add: NewServer_databases [OF assms(1)] write_entries_contents)
qed

end
