(* ===== verification/Spec2Isabelle.thy ===== *)
theory Spec2Isabelle
  imports Embedded Concurrency Blocking CommandTable Lifecycle Connection SnapshotLoop LogWriter
begin

text \<open>
  ShoreDB: a Redis-like in-memory database server in Go.

  \<^bold>\<open>The program.\<close>  A server (pkg/server) accepts connections; each has its own goroutine, which parses
  requests (pkg/resp), authenticates, selects one of sixteen logical databases, manages
  subscriptions with the broker (pkg/pubsub) and dispatches commands to handlers (pkg/commands).  A
  handler works on the four maps of a logical database, whose lists, sets and hashes are the types of
  pkg/datastruct, and on a map of expiry times that is applied lazily on access and actively by a
  sweep.  Mutating commands are appended to a log (pkg/persistence/aof.go), which a second
  implementation of the commands replays at start-up, and a service writes snapshots
  (pkg/persistence/rdb.go) by the rules of a configuration file (pkg/persistence/config.go).

  \<^bold>\<open>The theories.\<close>
  \<^item> \<open>Prelude\<close>: Go maps and sets as finite maps and sets; their iteration order is a parameter, \<open>fair\<close> when it
    permutes the keys.  \<open>GoNum\<close>: 64-bit arithmetic (\<open>wrap64\<close>), \<open>strconv\<close>.  \<open>GoStrings\<close>: \<open>strings.ToUpper\<close>,
    \<open>ToLower\<close>, \<open>EqualFold\<close>, with the Unicode tables as parameters.
  \<^item> \<open>ListType\<close>, \<open>SetType\<close>, \<open>HashType\<close>: pkg/datastruct/datastruct.go, a function per method.
  \<^item> \<open>Keyspace\<close>: \<open>Database\<close> of pkg/commands/database.go.  \<open>live t\<close> is the abstract database a client sees at
    time \<open>t\<close>; look-ups and sweeps leave it unchanged.  The locale of a typed map is interpreted for the four
    maps.
  \<^item> \<open>Resp\<close>: pkg/resp/parser.go, parser and writer over bytes, panics as values.
  \<^item> \<open>Contract\<close>: what the dispatcher relies on for a handler, as locales; \<open>StringCommands\<close>, \<open>ListCommands\<close>,
    \<open>SetCommands\<close>, \<open>HashCommands\<close>, \<open>ExpireCommands\<close>, \<open>AdminCommands\<close>: the files of pkg/commands, each handler
    interpreting its contract.  \<open>Broker\<close>: pkg/pubsub/pubsub.go.  \<open>Handlers\<close>: the dispatch table of handler.go,
    \<open>PUBLISH\<close>, and \<open>MultiDB\<close>.  \<open>CommandTable\<close>: what the command descriptions promise, as locales interpreted for
    each handler.
  \<^item> \<open>Aof\<close>: the log.  \<open>Replay\<close>: \<open>replayCommand\<close> and what it calls in pkg/server/tcp.go; a locale states that a
    command's replay agrees with its handler and is interpreted for each logged command.
  \<^item> \<open>Codec\<close>, \<open>Rdb\<close>: the snapshot format and its loader; \<open>Snapshots\<close>: saving under file-system faults, the snapshot
    loop, \<open>SAVE\<close>, \<open>BGSAVE\<close>, \<open>LASTSAVE\<close>; \<open>SnapshotWriter\<close>: the calls of \<open>errWriter\<close> through a buffer to a device with
    limited room, from which the faults follow; \<open>LogWriter\<close>: the same for the log; \<open>ConfigFile\<close>: the configuration file.
  \<^item> \<open>Server\<close>: start-up, shut-down, and what a connection does with one received value.  \<open>System\<close>: the step relation of
    the running server, its invariant, authentication.  \<open>Durability\<close>: the log describes the databases.  \<open>Recovery\<close>: a log that a
    crash has cut.
  \<^item> \<open>Replies\<close>: the type of what the server answers, as a locale interpreted for the handlers.  \<open>Connection\<close>: the loop of a
    connection from bytes to bytes (\<open>handleConnection\<close>), and \<open>safeWriter\<close>, by which its goroutines share the socket.
  \<^item> \<open>SnapshotLoop\<close>: the critical sections of \<open>snapshotLoop\<close> among running commands.  \<open>Lifecycle\<close>: the fsync loop and a loss of
    power, \<open>Shutdown\<close> step by step with the requests served meanwhile, and how \<open>main\<close> ends.
  \<^item> \<open>Embedded\<close>: the in-process client of pkg/shoredis/shoredis.go.  \<open>Program\<close>: the options and the start-up of
    cmd/shoredb-server/main.go.
  \<^item> \<open>Concurrency\<close> and \<open>Blocking\<close>: what lies below the grain of one handler per step, where it matters: list objects shared
    between handlers, with a lock for the map and one for each list, and the condition variable of the blocking pops.
  \<^item> This theory: the properties that span components, and a concrete server for the examples.

  \<^bold>\<open>State.\<close>  A record per struct with the field names of the source.  A mutex has no counterpart: each handler is one
  step, which is coarser than the code where a handler takes the lock several times.  What the code gets
  from outside is an argument: \<open>env\<close> has the clock in nanoseconds (one reading per handler), the map iteration order,
  \<open>filepath.Match\<close>, \<open>strconv.ParseFloat\<close> and the Unicode tables; \<open>sysenv\<close> adds the fault a save meets.
  A panic is a value (\<open>None\<close>, \<open>Panic\<close>, \<open>Down\<close>), an error reply is a reply.

  \<^bold>\<open>What is shown.\<close>  Durability: a restart from the log (C1) or the snapshot (C2) restores the databases,
  after a crash that cuts the log the server is in the state of the last complete record (C10), and a loss of power costs at
  most one fsync interval (C32); the wire format is read back (C8), replay repeats execution (C6), snapshots are
  replaced atomically (C12) by the policy (C13).  Safety: no panic after parsing (C3), consistent states (C4), the
  password (C5), handlers keep the database invariant (C7), expired keys are invisible (C11).  Connections: replies are well
  typed (C15), pipelined requests are answered one by one (C23), any bytes leave a consistent server (C25) and a shared
  socket carries whole values (C38).  The embedded client agrees with the server (C14) and survives closing (C39).  A sleeping pop is
  served (C9) and keeps its deadline (C24).  The data types and command families have functional properties (C18, C20,
  C22, C31, C33), with integers at 64 bits (C26, C28); list objects implement lists (C30); the arities (C35), the keys and the
  write flags (C16) of the command table and the configuration (C36) are as described.  Further lemmas of the component theories show how
  lists, sets, hashes, \<open>DEL\<close>, the log and the typed methods of the client behave.  Some properties state behaviour that
  surprises: commands lost after the log is closed (C17), a lost push (C19), commands logged behind a torn record (C21), a lost
  wake-up (C27), a change no snapshot will have (C29), a stale expiry time (C34), a panic in the parser (C37), a log out of
  order (C40).

  \<^bold>\<open>Bounds.\<close>  There is no fuel: every loop is a terminating function.  The parser's \<open>make\<close> panics when the byte size of
  the slice is out of range (\<open>makeslice_ok\<close>); the snapshot format holds lengths below \<open>2 ^ 32\<close> (\<open>fits\<close>).

  \<^bold>\<open>Not modelled.\<close>  Listening and accepting, and console output (I/O); flag parsing and the
  delivery of signals; locks inside a handler other than those of \<open>Concurrency\<close>, \<open>Blocking\<close>, \<open>SnapshotLoop\<close> and
  \<open>Connection\<close>.
\<close>

section \<open>A concrete environment\<close>

text \<open>
  The environment the witnesses run in: time zero, maps visited in key order, no patterns, no
  floating point, and a Unicode table that is the identity except on the spellings of \<open>SELECT\<close>.
\<close>

definition uni0 :: "string \<Rightarrow> string" where
  "uni0 s = (if EqualFold s ''SELECT'' then ''SELECT'' else s)"

definition env0 :: env where
  "env0 = \<lparr>now = 0, map_order = (\<lambda>ks. ks), filepath_Match = (\<lambda>p k. p = k \<or> p = ''*''), ParseFloat = (\<lambda>s. None),
     unicode_ToUpper = uni0, unicode_ToLower = (\<lambda>s. s)\<rparr>"

definition se0 :: sysenv where
  "se0 = \<lparr>ev = env0, save_fault = None, fault_text = []\<rparr>"

lemma upper_of_lower: "upper_char (lower_char c) = upper_char c"
proof -
  have "(65 :: nat) \<le> of_char c \<Longrightarrow> of_char c \<le> (90 :: nat) \<Longrightarrow> of_char (char_of (of_char c + 32 :: nat)) = (of_char c + 32 :: nat)"
    by simp
  then show ?thesis
    by (auto simp: upper_char_def lower_char_def less_eq_char_def)
qed

lemma EqualFold_ascii: "list_all is_ascii s \<Longrightarrow> EqualFold s t \<Longrightarrow> map upper_char s = map upper_char t"
  by (induction s t rule: EqualFold.induct) (auto, metis upper_of_lower)

lemma fold_upper_uni0: "fold_upper uni0"
proof -
  have "map upper_char ''SELECT'' = ''SELECT''" by code_simp
  then show ?thesis
    using EqualFold_ascii [of _ "''SELECT''"] by (auto simp: fold_upper_def ToUpper_def uni0_def)
qed

lemma env0_ok: "env_ok uni0 env0" "fair (map_order env0)" "env_ok uni0 (ev se0)"
  by (simp_all add: env_ok_def env0_def se0_def)

definition config0 :: Config where
  "config0 = NewConfig\<lparr>aofEnabled := True, requirePass := ''pw''\<rparr>"

definition files0 :: files where
  "files0 = \<lparr>snapshot = None, tmp = None\<rparr>"

definition server0 :: Server where
  "server0 = \<lparr>databases = NewMultiDB, aof = Some (NewAof []), rdb_service = Some (NewRDBWithoutLoad env0 files0),
     password = ''pw'', background_saves = 0\<rparr>"

definition cmd_value :: "string list \<Rightarrow> Value" where
  "cmd_value ws = array (map bulk ws)"

definition conn0 :: Conn where
  "conn0 = \<lparr>authenticated = True, dbIndex = 0, subscriptions = fmempty\<rparr>"

lemma NewServer_server0: "NewServer env0 config0 files0 [] = Some server0"
  by (simp add: NewServer_def config0_def NewConfig_def Aof_Read_def NewAof_def read_loop_Nil server0_def)

lemma server0_ok: "server_ok server0"
  using NewServer_aof(3) [of config0 env0 files0 "[]" server0] NewServer_server0 env0_ok(2)
  by (simp add: config0_def)

text \<open>A run of four steps: connect, authenticate, store a value, store another one in database 3.\<close>

lemma ToUpper_word: "list_all is_ascii w \<Longrightarrow> map upper_char w = w' \<Longrightarrow> ToUpper u w = w'"
  by (simp add: ToUpper_def)

lemma ToUpper_words: "ToUpper u ''AUTH'' = ''AUTH''" "ToUpper u ''set'' = ''SET''" "ToUpper u ''SELECT'' = ''SELECT''"
  by (rule ToUpper_word; code_simp)+

lemma wf_cmd_value: "list_all (\<lambda>w. length w < 100) ws \<Longrightarrow> length ws < 100 \<Longrightarrow> wf_value (cmd_value ws)"
  by (auto simp: cmd_value_def makeslice_ok_def value_size_def list_all_iff)

definition after_auth :: System where
  "after_auth = \<lparr>server = server0, conns = fmupd 7 conn0 fmempty, waiting = fmempty\<rparr>"

lemma reach_after_auth: "reach uni0 (durable_value uni0) (start server0) after_auth"
proof -
  let ?S = "\<lparr>server = server0, conns = fmupd 7 (new_conn server0) fmempty, waiting = fmempty\<rparr>"
  have "sys_step uni0 (durable_value uni0) (start server0) ?S"
    using sys_step.Accept [of "start server0" 7 uni0 "durable_value uni0"] by (simp add: start_def)
  moreover have "handle_value se0 (cmd_value [''AUTH'', ''pw'']) (new_conn server0) server0 =
      Sent server0 conn0 [simple ''OK'']"
    by (simp add: handle_value_def cmd_value_def ToUpper_words handleAuth_def server0_def
        new_conn_def conn0_def)
  then have "sys_step uni0 (durable_value uni0) ?S after_auth"
    using sys_step.Receive [of ?S 7 "new_conn server0" uni0 se0 "cmd_value [''AUTH'', ''pw'']" "durable_value uni0"] env0_ok
    by (simp add: after_auth_def wf_cmd_value durable_value_def) (simp add: cmd_value_def ToUpper_words)
  ultimately show ?thesis unfolding reach_def by (meson converse_rtranclp_into_rtranclp rtranclp.rtrancl_refl)
qed

lemma set_handler: "CommandHandlers ''SET'' = Some (Runs set_cmd)"
  by (simp add: CommandHandlers_def handler_table_def)

lemma execute_set:
  assumes "DBs (databases s) = db # dbs"
  shows "execute se ''SET'' [bulk k, bulk v] 0 s =
    Some (put_state 0 (db\<lparr>Store := fmupd k v (Store db), Expires := fmdrop k (Expires db)\<rparr>) (Broker (databases s)) s,
      simple ''OK'')"
  using assms by (simp add: execute_def DB_def set_handler call_handler_def set_cmd_def)

text \<open>A \<open>SET\<close> by the authenticated connection 7, as a step.\<close>

definition set_server :: "string \<Rightarrow> string \<Rightarrow> Server \<Rightarrow> Server" where
  "set_server k v s = log_command ''SET'' (cmd_value [''set'', k, v]) 0 (simple ''OK'')
     (fst (the (execute se0 ''SET'' [bulk k, bulk v] 0 s)))"

lemma handle_set:
  assumes "DBs (databases s) = db # dbs"
  shows "handle_value se0 (cmd_value [''set'', k, v]) conn0 s = Sent (set_server k v s) conn0 [simple ''OK'']"
  using processCommand_split [of se0 "''SET''" "[bulk k, bulk v]" conn0 s _ _ "cmd_value [''set'', k, v]"] execute_set [OF assms, of se0 k v]
  by (simp add: handle_value_def cmd_value_def ToUpper_words conn0_def set_server_def)

lemma reach_set:
  assumes "reach uni0 (durable_value uni0) (start server0) S" and "fmlookup (conns S) 7 = Some conn0"
    and "fmlookup (waiting S) 7 = None" and "DBs (databases (server S)) = db # dbs"
    and "length k < 100" and "length v < 100"
  shows "reach uni0 (durable_value uni0) (start server0) (S\<lparr>server := set_server k v (server S), conns := fmupd 7 conn0 (conns S)\<rparr>)"
proof -
  let ?v = "cmd_value [''set'', k, v]"
  have "handle_value se0 ?v conn0 (server S) = Sent (set_server k v (server S)) conn0 [simple ''OK'']"
    by (rule handle_set [OF assms(4)])
  then have "sys_step uni0 (durable_value uni0) S (S\<lparr>server := set_server k v (server S), conns := fmupd 7 conn0 (conns S)\<rparr>)"
    using sys_step.Receive [of S 7 conn0 uni0 se0 ?v "durable_value uni0"] env0_ok assms(2,3,5,6)
    by (simp add: wf_cmd_value durable_value_def) (simp add: cmd_value_def ToUpper_words)
  with assms(1) show ?thesis unfolding reach_def by (rule rtranclp.rtrancl_into_rtrancl)
qed

lemma set_server_sel:
  assumes "DBs (databases s) = db # dbs"
  shows "DBs (databases (set_server k v s)) = db\<lparr>Store := fmupd k v (Store db), Expires := fmdrop k (Expires db)\<rparr> # dbs"
    and "aof (set_server k v s) = map_option (Aof_Write 0 (cmd_value [''set'', k, v])) (aof s)"
  using assms by (simp_all add: set_server_def execute_set [OF assms] log_command_def put_state_def set_DB_def shouldPersist_def)

lemma server0_DBs: "DBs (databases server0) = newDatabase # replicate 15 newDatabase"
  by (simp add: server0_def NewMultiDB_def NumDatabases_def eval_nat_numeral)

lemma after_auth_sel: "fmlookup (conns after_auth) 7 = Some conn0" "fmlookup (waiting after_auth) 7 = None" "server after_auth = server0"
  by (simp_all add: after_auth_def)

section \<open>Durability\<close>





text \<open>
  C2.  Restarting from a snapshot.  From any consistent start, in any reachable state whose
  databases fit the format (lengths below \<open>2 ^ 32\<close>), an orderly shut-down without a file-system fault
  leaves a snapshot from which a server without append-only file starts with the same sixteen
  databases, except that no key has an expiry time any more.
\<close>

theorem shutdown_snapshot_restores_databases:
  assumes "server_ok s0" and "reach uni sends (start s0) S" and "fair (map_order (ev se))"
    and "save_fault se = None" and "rdb_service (server S) = Some r"
    and "list_all fits (DBs (databases (server S)))"
    and "\<not> aofEnabled config" and "fair (map_order e')"
  shows "\<exists>r' s1. Shutdown se (server S) = ((server S)\<lparr>rdb_service := Some r'\<rparr>, None) \<and>
    NewServer e' config (disk r') log = Some s1 \<and>
    DBs (databases s1) = map strip_ttl (DBs (databases (server S)))"
proof -
  have "sys_inv S" using reach_inv [OF assms(2) start_inv [OF assms(1)]] .
  then have "list_all db_wf (DBs (databases (server S)))" "length (DBs (databases (server S))) = NumDatabases"
    by (simp_all add: sys_inv_def server_ok_def)
  from NewRDB_after_Save [OF assms(3,8,6) this, of r] show ?thesis
    using assms(4,5,7)
    by (auto simp: Shutdown_def Close_RDB_def NewServer_def Save_ok split: prod.splits)
qed

theorem shutdown_snapshot_restores_databases_witness:
  "\<exists>(S :: System) r' s1. fmlookup (Store (DBs (databases (server S)) ! 0)) ''k'' = Some ''v'' \<and>
     Shutdown se0 (server S) = ((server S)\<lparr>rdb_service := Some r'\<rparr>, None) \<and>
     NewServer env0 NewConfig (disk r') [] = Some s1 \<and>
     fmlookup (Store (DBs (databases s1) ! 0)) ''k'' = Some ''v''"
proof -
  let ?db = "newDatabase\<lparr>Store := fmupd ''k'' ''v'' fmempty\<rparr>"
  let ?s = "server0\<lparr>databases := NewMultiDB\<lparr>DBs := ?db # replicate 15 newDatabase\<rparr>\<rparr>"
  have "server_ok ?s"
    by (simp add: server_ok_def NewMultiDB_def NumDatabases_def ps_inv_New db_inv list_all_length)
      (auto simp: nth_Cons' db_wf_def newDatabase_def)
  moreover have "list_all fits (DBs (databases ?s))"
    by (auto simp: list_all_iff fits_def newDatabase_def)
  moreover have "reach uni0 (\<lambda>_. True) (start ?s) (start ?s)" by (simp add: reach_def)
  ultimately obtain r' s1 where "Shutdown se0 ?s = (?s\<lparr>rdb_service := Some r'\<rparr>, None)"
      "NewServer env0 NewConfig (disk r') [] = Some s1" "DBs (databases s1) = map strip_ttl (DBs (databases ?s))"
    using shutdown_snapshot_restores_databases [of ?s uni0 "\<lambda>_. True" "start ?s" se0 "NewRDBWithoutLoad env0 files0" NewConfig env0 "[]"]
      env0_ok by (auto simp: start_def server0_def se0_def NewConfig_def)
  then show ?thesis
    by (intro exI [of _ "start ?s"] exI [of _ r'] exI [of _ s1]) (simp add: start_def strip_ttl_def)
qed





section \<open>Safety\<close>



text \<open>
  C4.  Every reachable state is consistent.  A server started with an append-only file of any content whatsoever
  has, after any steps of any clients, sixteen well-formed databases and a consistent broker; every
  connection has a valid database index, and each of its subscriptions is registered with the broker and
  belongs to no other connection.
\<close>

theorem reachable_states_consistent:
  assumes "aofEnabled config" and "fair (map_order e)" and "NewServer e config d log = Some s0"
    and "reach uni sends (start s0) S"
  shows "length (DBs (databases (server S))) = 16 \<and> list_all db_wf (DBs (databases (server S))) \<and>
    ps_inv (Broker (databases (server S))) \<and>
    (\<forall>i c. fmlookup (conns S) i = Some c \<longrightarrow> 0 \<le> dbIndex c \<and> dbIndex c < 16 \<and>
       (\<forall>channel ch. fmlookup (subscriptions c) channel = Some ch \<longrightarrow>
          subscribed (Broker (databases (server S))) channel ch \<and>
          (\<forall>j c' channel'. fmlookup (conns S) j = Some c' \<longrightarrow> fmlookup (subscriptions c') channel' = Some ch \<longrightarrow> j = i)))"
proof -
  have "sys_inv S" using reach_inv [OF assms(4) start_inv [OF NewServer_aof(3) [OF assms(1-3)]]] .
  then show ?thesis
    unfolding sys_inv_def server_ok_def subs_ok_def owns_def
    by (auto simp: index_ok_def NumDatabases_def dest: fmpredD)
qed

theorem reachable_states_consistent_witness:
  "list_all db_wf (DBs (databases (server after_auth))) \<and> dbIndex conn0 < 16"
  using reachable_states_consistent [of config0 env0 files0 "[]" server0 uni0 "durable_value uni0" after_auth]
    NewServer_server0 env0_ok(2) reach_after_auth after_auth_sel(1)
  by (simp add: config0_def)

text \<open>
  C5.  The password protects everything.  Let a server with a password and without expiry times run while nobody
  presents the password.  Then, whatever else any clients send, no connection is ever authenticated, the
  databases and the log stay as they were, and every value a connection receives is answered by
  exactly one reply, an error, with no effect.
\<close>

theorem password_protects_everything:
  assumes "password s0 \<noteq> []" and "list_all (\<lambda>db. Expires db = fmempty) (DBs (databases s0))"
    and "reach uni (\<lambda>v. \<not> presents_password uni (password s0) v) (start s0) S"
    and "fmlookup (conns S) i = Some c" and "unicode_ToUpper (ev se) = uni"
    and "\<not> presents_password uni (password s0) v"
  shows "\<not> authenticated c \<and> DBs (databases (server S)) = DBs (databases s0) \<and> aof (server S) = aof s0 \<and>
    (\<exists>reply. handle_value se v c (server S) = Sent (server S) c [reply] \<and> is_error reply)"
proof -
  have l: "locked s0 S" using locked_reach [OF assms(3,1,2)] .
  then have c: "\<not> authenticated c" "password (server S) = password s0"
    using assms(4) by (auto simp: locked_def dest: fmpredD)
  then show ?thesis
    using unauthenticated_refused [of c "server S" se v] l assms(1,5,6) by (auto simp: locked_def)
qed

theorem password_protects_everything_witness:
  "\<exists>reply. handle_value se0 (cmd_value [''get'', ''k'']) (new_conn server0) server0 =
     Sent server0 (new_conn server0) [reply] \<and> is_error reply"
proof -
  let ?S = "\<lparr>server = server0, conns = fmupd 7 (new_conn server0) fmempty, waiting = fmempty\<rparr>"
  have "reach uni0 (\<lambda>v. \<not> presents_password uni0 (password server0) v) (start server0) ?S"
    using sys_step.Accept [of "start server0" 7 uni0] by (simp add: reach_def start_def r_into_rtranclp)
  moreover have "\<not> presents_password uni0 (password server0) (cmd_value [''get'', ''k''])"
  proof -
    have "ToUpper uni0 ''get'' = ''GET''" by (rule ToUpper_word; code_simp)
    then show ?thesis by (simp add: presents_password_def cmd_value_def)
  qed
  moreover have "list_all (\<lambda>db. Expires db = fmempty) (DBs (databases server0))"
    by (simp add: server0_DBs newDatabase_def list_all_iff)
  ultimately show ?thesis
    using password_protects_everything [of server0 uni0 ?S 7 "new_conn server0" se0 "cmd_value [''get'', ''k'']"]
    by (simp add: server0_def se0_def env0_def)
qed

section \<open>The order of the log\<close>

text \<open>
  C40.  The log can be in another order than the execution.  Two connections store \<open>a\<close> and then \<open>b\<close> under one
  key; between the execution of the first and its log record the other one executes and logs.  The running
  server has \<open>b\<close>, and a server restarted from the log has \<open>a\<close>.
\<close>

theorem log_order_race:
  "\<exists>sa sb va vb s1.
     execute se0 ''SET'' [bulk ''k'', bulk ''a''] 0 server0 = Some (sa, va) \<and>
     execute se0 ''SET'' [bulk ''k'', bulk ''b''] 0 sa = Some (sb, vb) \<and>
     (let s = log_command ''SET'' (cmd_value [''set'', ''k'', ''a'']) 0 va
                (log_command ''SET'' (cmd_value [''set'', ''k'', ''b'']) 0 vb sb)
      in fmlookup (Store (DBs (databases s) ! 0)) ''k'' = Some ''b'' \<and>
         NewServer env0 config0 files0 (contents (the (aof s))) = Some s1 \<and>
         fmlookup (Store (DBs (databases s1) ! 0)) ''k'' = Some ''a'')"
proof -
  note db0 = server0_DBs
  note s1 = set_server_sel [OF db0, of "''k''" "''b''"]
  note s2 = set_server_sel [OF s1(1), of "''k''" "''a''"]
  let ?S1 = "after_auth\<lparr>server := set_server ''k'' ''b'' server0, conns := fmupd 7 conn0 (conns after_auth)\<rparr>"
  have r1: "reach uni0 (durable_value uni0) (start server0) ?S1"
    using reach_set [OF reach_after_auth, of newDatabase "replicate 15 newDatabase" "''k''" "''b''"]
    by (simp add: after_auth_sel db0)
  then obtain S where S: "reach uni0 (durable_value uni0) (start server0) S"
    "server S = set_server ''k'' ''a'' (set_server ''k'' ''b'' server0)"
    using reach_set [OF r1, of _ _ "''k''" "''a''"] s1(1) by (simp add: after_auth_sel)
  have "aofEnabled config0" "NewServer env0 config0 files0 (sessions []) = Some server0"
    using NewServer_server0 by (simp_all add: config0_def sessions_def)
  then obtain a s' where restart: "aof (server S) = Some a" "NewServer env0 config0 files0 (contents a) = Some s'"
    "DBs (databases s') = DBs (databases (server S))"
    using restart_from_log [OF _ env0_ok(1) env0_ok(1) fold_upper_uni0, of config0 "[]" files0 server0 S files0] S(1) by auto
  obtain sa where sa: "execute se0 ''SET'' [bulk ''k'', bulk ''a''] 0 server0 = Some (sa, simple ''OK'')"
    "DBs (databases sa) = newDatabase\<lparr>Store := fmupd ''k'' ''a'' fmempty\<rparr> # replicate 15 newDatabase" "aof sa = aof server0"
    by (simp add: execute_set [OF db0] put_state_def set_DB_def db0 newDatabase_def)
  obtain sb where sb: "execute se0 ''SET'' [bulk ''k'', bulk ''b''] 0 sa = Some (sb, simple ''OK'')"
    "fmlookup (Store (DBs (databases sb) ! 0)) ''k'' = Some ''b''" "aof sb = aof server0"
    using sa by (simp add: execute_set [OF sa(2)] put_state_def set_DB_def newDatabase_def)
  let ?s = "log_command ''SET'' (cmd_value [''set'', ''k'', ''a'']) 0 (simple ''OK'')
    (log_command ''SET'' (cmd_value [''set'', ''k'', ''b'']) 0 (simple ''OK'') sb)"
  have "aof ?s = aof (server S)" "databases ?s = databases sb"
    using sb(3) s1(2) s2(2) S(2) by (simp_all add: log_command_def shouldPersist_def)
  moreover have "fmlookup (Store (DBs (databases s') ! 0)) ''k'' = Some ''a''"
    using restart(3) S(2) s2(1) by simp
  ultimately show ?thesis using sa(1) sb(1,2) restart(1,2) by (intro exI conjI) (auto simp: Let_def)
qed

end
